(* ===== verification/Prelude.thy ===== *)
theory Prelude
  imports Complex_Main "HOL-Library.Word" "HOL-Library.Finite_Map" "HOL-Library.Monad_Syntax"
    "HOL-Library.Multiset"
begin

text \<open>
  Shared vocabulary of the development.

  A Go function that can panic (nil dereference, index out of range, send on a closed channel)
  returns \<^typ>\<open>'a option\<close>: \<^term>\<open>None\<close> is the panic, and the option monad of the library threads
  it. A Go function with an \<^verbatim>\<open>error\<close> result returns a sum, \<^term>\<open>Inl\<close> the error.
  Go maps are finite maps (\<^verbatim>\<open>fmap\<close>), \<^verbatim>\<open>uint64\<close> is \<^verbatim>\<open>64 word\<close>, \<^verbatim>\<open>uint8\<close> is
  \<^verbatim>\<open>8 word\<close>; \<^verbatim>\<open>int\<close> and \<^verbatim>\<open>int64\<close> values that stay far from their bounds are \<^typ>\<open>int\<close>.
\<close>

type_synonym u64 = "64 word"
type_synonym u8 = "8 word"

named_theorems opt_simps \<open>rules that unfold the option monad\<close>
named_theorems inv_intros \<open>preservation lemmas of the component invariants\<close>

lemmas [opt_simps] = Option.bind_eq_Some_conv

section \<open>Reading and updating finite maps\<close>

text \<open>The zero-default read of a Go map, \<^verbatim>\<open>m[k]\<close>.\<close>

definition fm_get :: "'v \<Rightarrow> ('k, 'v) fmap \<Rightarrow> 'k \<Rightarrow> 'v" where
  "fm_get z m k = (case fmlookup m k of None \<Rightarrow> z | Some v \<Rightarrow> v)"

lemma fm_get_upd [simp]: "fm_get z (fmupd k v m) k' = (if k' = k then v else fm_get z m k')"
  by (simp add: fm_get_def)

lemma fm_get_empty [simp]: "fm_get z fmempty k = z"
  by (simp add: fm_get_def)

lemma fm_get_drop [simp]: "fm_get z (fmdrop k m) k' = (if k' = k then z else fm_get z m k')"
  by (simp add: fm_get_def)

lemma fmlookup_in_dom: "k |\<in>| fmdom m \<longleftrightarrow> (\<exists>v. fmlookup m k = Some v)"
  by (auto simp: fmlookup_dom_iff)

lemma fmdom_upd_existing: "fmlookup m k = Some v \<Longrightarrow> fmdom (fmupd k v' m) = fmdom m"
  by (auto simp: fmlookup_dom_iff finsert_absorb)

text \<open>
  The loop \<^verbatim>\<open>for _, id := range ids { b := m[id]; ... }\<close> over a map of pointers: every body
  reads and replaces the value of its own key, and a missing key is a nil dereference.
\<close>

fun update_each :: "('k \<Rightarrow> 'v \<Rightarrow> 'v) \<Rightarrow> 'k list \<Rightarrow> ('k, 'v) fmap \<Rightarrow> ('k, 'v) fmap option" where
  "update_each f [] m = Some m"
| "update_each f (k # ks) m =
     (case fmlookup m k of None \<Rightarrow> None | Some v \<Rightarrow> update_each f ks (fmupd k (f k v) m))"

lemma update_each_dom: "update_each f ks m = Some m' \<Longrightarrow> fmdom m' = fmdom m"
proof (induction ks arbitrary: m)
  case (Cons k ks)
  then obtain v where v: "fmlookup m k = Some v"
    and "update_each f ks (fmupd k (f k v) m) = Some m'"
    by (auto split: option.splits)
  from Cons.IH [OF this(2)] fmdom_upd_existing [OF v] show ?case by (rule trans)
qed simp

lemma update_each_total:
  "set ks \<subseteq> fset (fmdom m) \<Longrightarrow> \<exists>m'. update_each f ks m = Some m'"
proof (induction ks arbitrary: m)
  case (Cons k ks)
  then obtain v where v: "fmlookup m k = Some v"
    by (auto simp: fmlookup_dom_iff)
  with Cons.prems have "set ks \<subseteq> fset (fmdom (fmupd k (f k v) m))" by auto
  from Cons.IH [OF this] v show ?case by simp
qed simp

lemma update_each_lookup:
  "update_each f ks m = Some m' \<Longrightarrow> distinct ks \<Longrightarrow>
   fmlookup m' k = (if k \<in> set ks then map_option (f k) (fmlookup m k) else fmlookup m k)"
  by (induction ks arbitrary: m) (auto split: option.splits)

text \<open>A property of the values kept by every body holds of the map afterwards.\<close>

lemma update_each_all:
  assumes "update_each f ks m = Some m'"
    and "\<And>k v. fmlookup m k = Some v \<Longrightarrow> P k v"
    and "\<And>k v. P k v \<Longrightarrow> P k (f k v)"
  shows "fmlookup m' k = Some v \<Longrightarrow> P k v"
  using assms
  by (induction ks arbitrary: m) (force split: option.splits if_splits)+

section \<open>Lists\<close>

text \<open>\<^verbatim>\<open>append(xs[:i], xs[i+1:]...)\<close> at the first match: the library's \<^const>\<open>remove1\<close>.\<close>

lemma remove1_distinct_set: "distinct xs \<Longrightarrow> set (remove1 x xs) = set xs - {x}"
  by (rule set_remove1_eq)

lemma filter_neq_remove1: "distinct xs \<Longrightarrow> remove1 x xs = filter (\<lambda>y. y \<noteq> x) xs"
  by (rule distinct_remove1_removeAll [unfolded removeAll_filter_not_eq, THEN trans]) (auto intro: filter_cong)

lemma sorted_wrt_take: "sorted_wrt P xs \<Longrightarrow> sorted_wrt P (take n xs)"
  by (metis append_take_drop_id sorted_wrt_append)

section \<open>Words\<close>

lemma unat_Suc_less: "unat (w :: u64) < n \<Longrightarrow> n < 2 ^ 64 \<Longrightarrow> unat (w + 1) = Suc (unat w)"
  by (subst unat_word_ariths) (simp add: unat_word_ariths)

end
