(* ===== verification/Go_Strings.thy ===== *)
theory Go_Strings
  imports Prelude "HOL-Library.Char_ord"
begin

text \<open>
  Go strings are byte sequences, here \<^typ>\<open>string\<close> with one character per byte; a rune is a
  code point, a \<^typ>\<open>nat\<close>. This theory models what the program uses of Go's string support:
  \<^verbatim>\<open>[]rune(s)\<close> and \<^verbatim>\<open>string(rs)\<close> (UTF-8 with the replacement rune for malformed bytes),
  \<^verbatim>\<open>unicode.IsSpace\<close> and \<^verbatim>\<open>unicode.IsPrint\<close> (exact on Latin-1; the printable code points
  above it are the parameter of \<open>is_print\<close>), decimal printing, byte-wise order, and the
  \<^verbatim>\<open>strings\<close> functions for prefixes, suffixes and substrings.
\<close>

section \<open>UTF-8\<close>

definition byte :: "char \<Rightarrow> nat" where "byte c = of_char c"
definition mk_byte :: "nat \<Rightarrow> char" where "mk_byte n = char_of n"

definition rune_error :: nat where "rune_error = 0xFFFD"

definition is_cont :: "nat \<Rightarrow> bool" where "is_cont b \<longleftrightarrow> 0x80 \<le> b \<and> b \<le> 0xBF"

definition second_ok :: "nat \<Rightarrow> nat \<Rightarrow> bool" where
  "second_ok b0 b1 \<longleftrightarrow> (if b0 = 0xE0 then 0xA0 \<le> b1 \<and> b1 \<le> 0xBF
     else if b0 = 0xED then 0x80 \<le> b1 \<and> b1 \<le> 0x9F
     else if b0 = 0xF0 then 0x90 \<le> b1 \<and> b1 \<le> 0xBF
     else if b0 = 0xF4 then 0x80 \<le> b1 \<and> b1 \<le> 0x8F
     else is_cont b1)"

definition rune2 :: "nat \<Rightarrow> nat \<Rightarrow> nat" where
  "rune2 b0 b1 = (b0 - 0xC0) * 64 + (b1 - 0x80)"

definition rune3 :: "nat \<Rightarrow> nat \<Rightarrow> nat \<Rightarrow> nat" where
  "rune3 b0 b1 b2 = ((b0 - 0xE0) * 64 + (b1 - 0x80)) * 64 + (b2 - 0x80)"

definition rune4 :: "nat \<Rightarrow> nat \<Rightarrow> nat \<Rightarrow> nat \<Rightarrow> nat" where
  "rune4 b0 b1 b2 b3 = (((b0 - 0xF0) * 64 + (b1 - 0x80)) * 64 + (b2 - 0x80)) * 64 + (b3 - 0x80)"

text \<open>Decode the rune that starts with byte \<open>c\<close>; the bytes left over.\<close>

fun decode_rune :: "char \<Rightarrow> string \<Rightarrow> nat \<times> string" where
  "decode_rune c s =
     (let b0 = byte c; bad = (rune_error, s) in
      if b0 < 0x80 then (b0, s)
      else if 0xC2 \<le> b0 \<and> b0 \<le> 0xDF then
        (case s of c1 # t \<Rightarrow>
           if is_cont (byte c1) then (rune2 b0 (byte c1), t) else bad
         | _ \<Rightarrow> bad)
      else if 0xE0 \<le> b0 \<and> b0 \<le> 0xEF then
        (case s of c1 # c2 # t \<Rightarrow>
           if second_ok b0 (byte c1) \<and> is_cont (byte c2)
           then (rune3 b0 (byte c1) (byte c2), t) else bad
         | _ \<Rightarrow> bad)
      else if 0xF0 \<le> b0 \<and> b0 \<le> 0xF4 then
        (case s of c1 # c2 # c3 # t \<Rightarrow>
           if second_ok b0 (byte c1) \<and> is_cont (byte c2) \<and> is_cont (byte c3)
           then (rune4 b0 (byte c1) (byte c2) (byte c3), t) else bad
         | _ \<Rightarrow> bad)
      else bad)"

declare decode_rune.simps [simp del]

lemma decode_rune_shrinks: "decode_rune c s = (r, t) \<Longrightarrow> length t \<le> length s"
  by (auto simp: decode_rune.simps Let_def split: if_splits list.splits)

text \<open>\<^verbatim>\<open>[]rune(s)\<close>.\<close>

function runes :: "string \<Rightarrow> nat list" where
  "runes [] = []"
| "runes (c # s) = (case decode_rune c s of (r, t) \<Rightarrow> r # runes t)"
  by pat_completeness auto
termination
  by (relation "measure length") (auto dest: decode_rune_shrinks [OF sym])

lemma runes_ascii: "list_all (\<lambda>c. byte c < 0x80) s \<Longrightarrow> runes s = map byte s"
  by (induction s) (simp_all add: decode_rune.simps)

definition valid_rune :: "nat \<Rightarrow> bool" where
  "valid_rune r \<longleftrightarrow> r < 0xD800 \<or> 0xE000 \<le> r \<and> r \<le> 0x10FFFF"

text \<open>\<^verbatim>\<open>string(rs)\<close>: an invalid code point is written as the replacement rune.\<close>

definition encode_rune :: "nat \<Rightarrow> string" where
  "encode_rune r0 = (let r = (if valid_rune r0 then r0 else rune_error) in
     if r < 0x80 then [mk_byte r]
     else if r < 0x800 then [mk_byte (0xC0 + r div 64), mk_byte (0x80 + r mod 64)]
     else if r < 0x10000 then
       [mk_byte (0xE0 + r div 4096), mk_byte (0x80 + r div 64 mod 64), mk_byte (0x80 + r mod 64)]
     else [mk_byte (0xF0 + r div 262144), mk_byte (0x80 + r div 4096 mod 64),
           mk_byte (0x80 + r div 64 mod 64), mk_byte (0x80 + r mod 64)])"

definition of_runes :: "nat list \<Rightarrow> string" where
  "of_runes rs = concat (map encode_rune rs)"

lemma byte_mk_byte [simp]: "byte (mk_byte n) = n mod 256"
  by (simp add: byte_def mk_byte_def)

lemma byte_less [simp]: "byte c < 256"
  by (simp add: byte_def)

lemma of_runes_simps [simp]:
  "of_runes [] = []" "of_runes (r # rs) = encode_rune r @ of_runes rs"
  by (simp_all add: of_runes_def)

lemma decode_encode1: "r < 0x80 \<Longrightarrow> runes (encode_rune r @ s) = r # runes s"
  by (simp add: encode_rune_def valid_rune_def decode_rune.simps)

lemma decode_encode2:
  assumes "0x80 \<le> r" "r < 0x800"
  shows "runes (encode_rune r @ s) = r # runes s"
proof -
  have "2 \<le> r div 64" "r div 64 < 32" using assms by auto
  then show ?thesis using assms
    by (simp add: encode_rune_def valid_rune_def decode_rune.simps is_cont_def rune2_def)
qed

lemma split64:
  fixes r :: nat
  shows "(r div 4096 * 64 + r div 64 mod 64) * 64 + r mod 64 = r"
    and "((r div 262144 * 64 + r div 4096 mod 64) * 64 + r div 64 mod 64) * 64 + r mod 64 = r"
proof -
  have d: "r div 4096 = r div 64 div 64" "r div 262144 = r div 64 div 64 div 64"
    by (simp_all flip: div_mult2_eq)
  show "(r div 4096 * 64 + r div 64 mod 64) * 64 + r mod 64 = r"
    unfolding d by (simp only: div_mult_mod_eq)
  show "((r div 262144 * 64 + r div 4096 mod 64) * 64 + r div 64 mod 64) * 64 + r mod 64 = r"
    unfolding d by (simp only: div_mult_mod_eq)
qed

lemma decode_encode3:
  assumes "0x800 \<le> r" "r < 0x10000" "valid_rune r"
  shows "runes (encode_rune r @ s) = r # runes s"
proof -
  define a b c where "a = r div 4096" and "b = r div 64 mod 64" and "c = r mod 64"
  have r: "r = (a * 64 + b) * 64 + c" unfolding a_def b_def c_def by (rule split64(1) [symmetric])
  have abc: "a < 16" "b < 64" "c < 64" using assms by (auto simp: a_def b_def c_def)
  have r': "r = a * 4096 + b * 64 + c" using r by simp
  have "32 \<le> b" if "a = 0" using that assms(1) abc r' by linarith
  moreover have "b < 32" if "a = 13"
  proof -
    have "r < 55296 \<or> 57344 \<le> r" using assms(3) by (auto simp: valid_rune_def)
    then show ?thesis using that abc r' by linarith
  qed
  ultimately have v: "a = 0 \<longrightarrow> 32 \<le> b" "a = 13 \<longrightarrow> b < 32" by blast+
  have "encode_rune r = [mk_byte (0xE0 + a), mk_byte (0x80 + b), mk_byte (0x80 + c)]"
    using assms by (simp add: encode_rune_def a_def b_def c_def)
  moreover have "second_ok (0xE0 + a) (0x80 + b)" "is_cont (0x80 + c)"
    using abc v by (auto simp: second_ok_def is_cont_def)
  moreover have "byte (mk_byte (0xE0 + a)) = 0xE0 + a" "byte (mk_byte (0x80 + b)) = 0x80 + b"
    "byte (mk_byte (0x80 + c)) = 0x80 + c"
    using abc by simp_all
  ultimately have "decode_rune (mk_byte (0xE0 + a)) (mk_byte (0x80 + b) # mk_byte (0x80 + c) # s)
      = (r, s)"
    using abc unfolding decode_rune.simps Let_def r rune3_def rune4_def by simp
  with \<open>encode_rune r = _\<close> show ?thesis by simp
qed

lemma decode_encode4:
  assumes "0x10000 \<le> r" "valid_rune r"
  shows "runes (encode_rune r @ s) = r # runes s"
proof -
  define a b c d where "a = r div 262144" and "b = r div 4096 mod 64"
    and "c = r div 64 mod 64" and "d = r mod 64"
  have r: "r = ((a * 64 + b) * 64 + c) * 64 + d" unfolding a_def b_def c_def d_def by (rule split64(2) [symmetric])
  have abc: "a < 5" "b < 64" "c < 64" "d < 64"
    using assms by (auto simp: a_def b_def c_def d_def valid_rune_def)
  have r': "r = a * 262144 + b * 4096 + c * 64 + d" using r by simp
  have "16 \<le> b" if "a = 0" using that assms(1) abc r' by linarith
  moreover have "b < 16" if "a = 4"
  proof -
    have "r \<le> 1114111" using assms by (auto simp: valid_rune_def)
    then show ?thesis using that abc r' by linarith
  qed
  ultimately have v: "a = 0 \<longrightarrow> 16 \<le> b" "a = 4 \<longrightarrow> b < 16" by blast+
  have "encode_rune r = [mk_byte (0xF0 + a), mk_byte (0x80 + b), mk_byte (0x80 + c), mk_byte (0x80 + d)]"
    using assms by (simp add: encode_rune_def a_def b_def c_def d_def)
  moreover have "second_ok (0xF0 + a) (0x80 + b)" "is_cont (0x80 + c)" "is_cont (0x80 + d)"
    using abc v by (auto simp: second_ok_def is_cont_def)
  moreover have "byte (mk_byte (0xF0 + a)) = 0xF0 + a" "byte (mk_byte (0x80 + b)) = 0x80 + b"
    "byte (mk_byte (0x80 + c)) = 0x80 + c" "byte (mk_byte (0x80 + d)) = 0x80 + d"
    using abc by simp_all
  ultimately have "decode_rune (mk_byte (0xF0 + a))
      (mk_byte (0x80 + b) # mk_byte (0x80 + c) # mk_byte (0x80 + d) # s) = (r, s)"
    using abc unfolding decode_rune.simps Let_def r rune3_def rune4_def by simp
  with \<open>encode_rune r = _\<close> show ?thesis by simp
qed

lemma runes_encode_rune: "valid_rune r \<Longrightarrow> runes (encode_rune r @ s) = r # runes s"
  by (metis decode_encode1 decode_encode2 decode_encode3 decode_encode4 not_less)

lemma runes_of_runes: "list_all valid_rune rs \<Longrightarrow> runes (of_runes rs) = rs"
  by (induction rs) (simp_all add: runes_encode_rune)

text \<open>Decoding yields scalar values only; malformed bytes become the replacement rune.\<close>

lemma valid_rune_error: "valid_rune rune_error"
  by (simp add: valid_rune_def rune_error_def)

lemma valid_rune3:
  assumes "0xE0 \<le> b0" "b0 \<le> 0xEF" "second_ok b0 b1" "is_cont b2"
  shows "valid_rune (rune3 b0 b1 b2)"
proof -
  obtain a where a: "b0 = 0xE0 + a" using assms(1) le_Suc_ex by blast
  have "0x80 \<le> b1" using assms by (auto simp: second_ok_def is_cont_def split: if_splits)
  then obtain b where b: "b1 = 0x80 + b" using le_Suc_ex by blast
  obtain c where c: "b2 = 0x80 + c" using assms(4) le_Suc_ex by (auto simp: is_cont_def)
  have l: "a < 16" "b < 64" "c < 64" "a = 13 \<longrightarrow> b < 32"
    using assms by (auto simp: a b c second_ok_def is_cont_def split: if_splits)
  have e: "rune3 b0 b1 b2 = a * 4096 + b * 64 + c" by (simp add: rune3_def a b c)
  have hi: "rune3 b0 b1 b2 \<le> 1114111" using l e by linarith
  consider "a < 13" | "a = 13" | "13 < a" by linarith
  then show ?thesis
  proof cases
    case 1
    then have "rune3 b0 b1 b2 < 0xD800" using l e by linarith
    then show ?thesis by (simp add: valid_rune_def)
  next
    case 2
    then have "rune3 b0 b1 b2 < 0xD800" using l e by linarith
    then show ?thesis by (simp add: valid_rune_def)
  next
    case 3
    then have "0xE000 \<le> rune3 b0 b1 b2" using l e by linarith
    with hi show ?thesis by (simp add: valid_rune_def)
  qed
qed

lemma valid_rune4:
  assumes "0xF0 \<le> b0" "b0 \<le> 0xF4" "second_ok b0 b1" "is_cont b2" "is_cont b3"
  shows "valid_rune (rune4 b0 b1 b2 b3)"
proof -
  obtain a where a: "b0 = 0xF0 + a" using assms(1) le_Suc_ex by blast
  have "0x80 \<le> b1" using assms by (auto simp: second_ok_def is_cont_def split: if_splits)
  then obtain b where b: "b1 = 0x80 + b" using le_Suc_ex by blast
  obtain c where c: "b2 = 0x80 + c" using assms(4) le_Suc_ex by (auto simp: is_cont_def)
  obtain d where d: "b3 = 0x80 + d" using assms(5) le_Suc_ex by (auto simp: is_cont_def)
  have l: "a \<le> 4" "b < 64" "c < 64" "d < 64" "a = 0 \<longrightarrow> 16 \<le> b" "a = 4 \<longrightarrow> b < 16"
    using assms by (auto simp: a b c d second_ok_def is_cont_def split: if_splits)
  have e: "rune4 b0 b1 b2 b3 = a * 262144 + b * 4096 + c * 64 + d"
    by (simp add: rune4_def a b c d)
  have "57344 \<le> rune4 b0 b1 b2 b3" using l(5) e by (cases "a = 0") linarith+
  moreover have "rune4 b0 b1 b2 b3 \<le> 1114111" using l e by (cases "a = 4") linarith+
  ultimately show ?thesis by (simp add: valid_rune_def)
qed

lemma valid_rune2: "b0 \<le> 0xDF \<Longrightarrow> is_cont b1 \<Longrightarrow> valid_rune (rune2 b0 b1)"
  by (auto simp: rune2_def valid_rune_def is_cont_def)

lemma valid_rune1: "r < 0x80 \<Longrightarrow> valid_rune r"
  by (simp add: valid_rune_def)

lemma decode_rune_valid: "decode_rune c s = (r, t) \<Longrightarrow> valid_rune r"
  unfolding decode_rune.simps Let_def
  by (auto split: if_splits list.splits
      simp: valid_rune_error valid_rune1 valid_rune2 valid_rune3 valid_rune4)

lemma runes_valid: "list_all valid_rune (runes s)"
  by (induction s rule: runes.induct) (auto split: prod.splits dest: decode_rune_valid)

section \<open>Character classes\<close>

definition is_space :: "nat \<Rightarrow> bool" where
  "is_space r \<longleftrightarrow> r \<in> {9, 10, 11, 12, 13, 32, 0x85, 0xA0, 0x1680, 0x2028, 0x2029, 0x202F, 0x205F, 0x3000}
     \<or> 0x2000 \<le> r \<and> r \<le> 0x200A"

text \<open>
  \<^verbatim>\<open>unicode.IsPrint\<close>. The table for code points above U+00FF belongs to the Unicode version
  of the Go release and is the parameter \<open>tbl\<close>.
\<close>

definition is_print :: "(nat \<Rightarrow> bool) \<Rightarrow> nat \<Rightarrow> bool" where
  "is_print tbl r \<longleftrightarrow> (if r \<le> 0xFF then 0x20 \<le> r \<and> r \<le> 0x7E \<or> 0xA1 \<le> r \<and> r \<noteq> 0xAD else tbl r)"

section \<open>Decimal printing and order\<close>

text \<open>\<^verbatim>\<open>%d\<close> of a natural number.\<close>

fun show_nat :: "nat \<Rightarrow> string" where
  "show_nat n = (if n < 10 then [mk_byte (48 + n)] else show_nat (n div 10) @ [mk_byte (48 + n mod 10)])"

declare show_nat.simps [simp del]

definition show_int :: "int \<Rightarrow> string" where
  "show_int i = (if i < 0 then ''-'' @ show_nat (nat (- i)) else show_nat (nat i))"

lemma mk_byte_inj: "mk_byte a = mk_byte b \<Longrightarrow> a < 256 \<Longrightarrow> b < 256 \<Longrightarrow> a = b"
  by (metis byte_mk_byte mod_less)

lemma show_nat_inj: "show_nat m = show_nat n \<Longrightarrow> m = n"
proof (induction m arbitrary: n rule: show_nat.induct)
  case (1 m)
  have ne: "show_nat k \<noteq> []" for k by (subst show_nat.simps) simp
  note e = "1.prems" [unfolded show_nat.simps [of m] show_nat.simps [of n]]
  show ?case
  proof (cases "m < 10 \<or> n < 10")
    case True
    with e ne show ?thesis
      by (cases "m < 10"; cases "n < 10")
         (auto dest: mk_byte_inj simp: append_eq_Cons_conv Cons_eq_append_conv)
  next
    case False
    with e have "show_nat (m div 10) = show_nat (n div 10)"
      and "mk_byte (48 + m mod 10) = mk_byte (48 + n mod 10)" by simp_all
    then have "m div 10 = n div 10" "m mod 10 = n mod 10"
      using "1.IH" False by (auto dest: mk_byte_inj)
    then show ?thesis by (metis div_mult_mod_eq)
  qed
qed

text \<open>Byte-wise lexicographic order, Go's \<open><\<close> on strings.\<close>

fun str_less :: "string \<Rightarrow> string \<Rightarrow> bool" where
  "str_less [] [] = False"
| "str_less [] (_ # _) = True"
| "str_less (_ # _) [] = False"
| "str_less (a # s) (b # t) = (byte a < byte b \<or> byte a = byte b \<and> str_less s t)"

lemma byte_inj: "byte a = byte b \<Longrightarrow> a = b"
  by (simp add: byte_def)

lemma str_less_irrefl [simp]: "\<not> str_less s s"
  by (induction s) auto

lemma str_less_trans: "str_less a b \<Longrightarrow> str_less b c \<Longrightarrow> str_less a c"
proof (induction a b arbitrary: c rule: str_less.induct)
  case (4 a s b t)
  then show ?case by (cases c) auto
qed (auto elim: str_less.elims)

lemma str_less_linear: "str_less s t \<or> s = t \<or> str_less t s"
proof (induction s t rule: str_less.induct)
  case (4 a s b t)
  then show ?case using byte_inj [of a b] by (cases "byte a" "byte b" rule: linorder_cases) auto
qed auto

section \<open>The strings package\<close>

definition has_prefix :: "string \<Rightarrow> string \<Rightarrow> bool" where
  "has_prefix s p \<longleftrightarrow> take (length p) s = p"

definition trim_prefix :: "string \<Rightarrow> string \<Rightarrow> string" where
  "trim_prefix s p = (if has_prefix s p then drop (length p) s else s)"

definition has_suffix :: "string \<Rightarrow> string \<Rightarrow> bool" where
  "has_suffix s p \<longleftrightarrow> length p \<le> length s \<and> drop (length s - length p) s = p"

definition trim_suffix :: "string \<Rightarrow> string \<Rightarrow> string" where
  "trim_suffix s p = (if has_suffix s p then take (length s - length p) s else s)"

fun str_contains :: "string \<Rightarrow> string \<Rightarrow> bool" where
  "str_contains [] p = (p = [])"
| "str_contains (c # s) p = (has_prefix (c # s) p \<or> str_contains s p)"

lemma has_prefix_iff: "has_prefix s p \<longleftrightarrow> (\<exists>t. s = p @ t)"
  unfolding has_prefix_def by (metis append_eq_conv_conj append_take_drop_id)

lemma str_contains_iff: "str_contains s p \<longleftrightarrow> (\<exists>a b. s = a @ p @ b)"
proof (induction s)
  case (Cons c s)
  have "(\<exists>a b. c # s = a @ p @ b) \<longleftrightarrow> (\<exists>b. c # s = p @ b) \<or> (\<exists>a b. s = a @ p @ b)"
    by (metis append_Cons append_Nil list.exhaust list.inject)
  with Cons show ?case by (simp add: has_prefix_iff)
qed simp

lemma has_suffix_append [simp]: "has_suffix (s @ p) p"
  by (simp add: has_suffix_def)

lemma trim_suffix_append [simp]: "trim_suffix (s @ p) p = s"
  by (simp add: trim_suffix_def)

lemma trim_prefix_append [simp]: "trim_prefix (p @ s) p = s"
  by (simp add: trim_prefix_def has_prefix_def)

end
