(* ===== verification/Go_Text.thy ===== *)
theory Go_Text
  imports Go_Strings
begin

text \<open>
  More of Go's \<^verbatim>\<open>strings\<close> package, as the proxies use it: \<^verbatim>\<open>ToLower\<close>, \<^verbatim>\<open>FieldsFunc\<close>, \<^verbatim>\<open>Join\<close>,
  \<^verbatim>\<open>Split\<close>, \<^verbatim>\<open>TrimSpace\<close> and \<^verbatim>\<open>Index\<close>. The proxies only look at the ASCII letters of a lowered
  text, so \<open>lower_rune\<close> is exact on the runes whose lower case is ASCII (the capitals, the dotted
  capital I and the Kelvin sign) and keeps every other rune.
\<close>

section \<open>Case and words\<close>

definition lower_rune :: "nat \<Rightarrow> nat" where
  "lower_rune r = (if 65 \<le> r \<and> r \<le> 90 then r + 32 else if r = 0x130 then 0x69
     else if r = 0x212A then 0x6B else r)"

definition lower_runes :: "string \<Rightarrow> nat list" where
  "lower_runes s = map lower_rune (runes s)"

definition to_lower :: "string \<Rightarrow> string" where
  "to_lower s = of_runes (lower_runes s)"

text \<open>\<^verbatim>\<open>FieldsFunc\<close>: the maximal runs of runes that are no separators.\<close>

function fields_func :: "(nat \<Rightarrow> bool) \<Rightarrow> nat list \<Rightarrow> nat list list" where
  "fields_func sep rs = (case dropWhile sep rs of
       [] \<Rightarrow> []
     | r # t \<Rightarrow> (r # takeWhile (\<lambda>x. \<not> sep x) t) # fields_func sep (dropWhile (\<lambda>x. \<not> sep x) t))"
  by auto
termination
proof (relation "measure (\<lambda>(sep, rs). length rs)", simp)
  fix sep :: "nat \<Rightarrow> bool" and rs r t
  assume "dropWhile sep rs = r # t"
  then have "length (dropWhile (\<lambda>x. \<not> sep x) t) < length rs"
    using length_dropWhile_le [of sep rs] length_dropWhile_le [of "\<lambda>x. \<not> sep x" t] by simp
  then show "((sep, dropWhile (\<lambda>x. \<not> sep x) t), sep, rs) \<in> measure (\<lambda>(sep, rs). length rs)" by simp
qed

declare fields_func.simps [simp del]

lemma fields_func_runs:
  "w \<in> set (fields_func sep rs) \<Longrightarrow> w \<noteq> [] \<and> set w \<subseteq> set rs \<and> (\<forall>r\<in>set w. \<not> sep r)"
proof (induction sep rs rule: fields_func.induct)
  case (1 sep rs)
  show ?case
  proof (cases "dropWhile sep rs")
    case Nil
    then show ?thesis using "1.prems" unfolding fields_func.simps [of sep rs] by (simp only: list.case) simp
  next
    case (Cons r t)
    have rt: "\<not> sep r" "set (r # t) \<subseteq> set rs"
      using Cons hd_dropWhile [of sep rs] set_dropWhileD [of _ sep rs] by (auto simp: Cons)
    consider "w = r # takeWhile (\<lambda>x. \<not> sep x) t" | "w \<in> set (fields_func sep (dropWhile (\<lambda>x. \<not> sep x) t))"
      using "1.prems" Cons by (auto simp: fields_func.simps [of sep rs])
    then show ?thesis
    proof cases
      case 1
      then show ?thesis using rt set_takeWhileD [of _ "\<lambda>x. \<not> sep x" t] by auto
    next
      case 2
      then show ?thesis using "1.IH" [OF Cons] rt set_dropWhileD [of _ "\<lambda>x. \<not> sep x" t] by fastforce
    qed
  qed
qed

lemma mk_byte_byte [simp]: "mk_byte (byte c) = c"
  by (simp add: mk_byte_def byte_def)

lemma of_runes_ascii: "list_all (\<lambda>c. byte c < 0x80) s \<Longrightarrow> of_runes (map byte s) = s"
  by (induction s) (simp_all add: encode_rune_def valid_rune_def)

section \<open>Joining, splitting, trimming\<close>

fun str_join :: "string list \<Rightarrow> string \<Rightarrow> string" where
  "str_join [] sep = []"
| "str_join [s] sep = s"
| "str_join (s # t # ss) sep = s @ sep @ str_join (t # ss) sep"

text \<open>\<^verbatim>\<open>Split\<close> at a single byte.\<close>

fun str_split :: "char \<Rightarrow> string \<Rightarrow> string list" where
  "str_split sep [] = [[]]"
| "str_split sep (c # s) = (if c = sep then [] # str_split sep s
     else (case str_split sep s of p # ps \<Rightarrow> (c # p) # ps | [] \<Rightarrow> [[c]]))"

lemma str_split_nonempty [simp]: "str_split sep s \<noteq> []"
  by (cases s) (auto split: list.split)

lemma str_split_free: "p \<in> set (str_split sep s) \<Longrightarrow> sep \<notin> set p"
  by (induction s arbitrary: p) (auto split: if_splits list.splits)

lemma str_join_split: "str_join (str_split sep s) [sep] = s"
proof (induction s)
  case (Cons c s)
  obtain p ps where p: "str_split sep s = p # ps" by (cases "str_split sep s") auto
  then show ?case using Cons by (cases ps) auto
qed simp

definition space_runes :: "nat list" where
  "space_runes = [9, 10, 11, 12, 13, 32, 0x85, 0xA0, 0x1680] @ [0x2000..<0x200B] @ [0x2028, 0x2029, 0x202F, 0x205F, 0x3000]"

definition space_seqs :: "string list" where
  "space_seqs = map encode_rune space_runes"

lemma encode_rune_nonempty [simp]: "encode_rune r \<noteq> []"
  by (simp add: encode_rune_def Let_def)

lemma find_space: "List.find P space_seqs = Some p \<Longrightarrow> p \<noteq> [] \<and> P p"
  by (auto simp: space_seqs_def find_Some_iff)

function trim_left :: "string \<Rightarrow> string" where
  "trim_left s = (case List.find (has_prefix s) space_seqs of
       None \<Rightarrow> s | Some p \<Rightarrow> trim_left (drop (length p) s))"
  by auto
termination
proof (relation "measure length", simp)
  fix s p assume "List.find (has_prefix s) space_seqs = Some p"
  then have "p \<noteq> []" "has_prefix s p" using find_space by blast+
  then show "(drop (length p) s, s) \<in> measure length" by (auto simp: has_prefix_iff)
qed

function trim_right :: "string \<Rightarrow> string" where
  "trim_right s = (case List.find (has_suffix s) space_seqs of
       None \<Rightarrow> s | Some p \<Rightarrow> trim_right (take (length s - length p) s))"
  by auto
termination
proof (relation "measure length", simp)
  fix s p assume "List.find (has_suffix s) space_seqs = Some p"
  then have "p \<noteq> []" "has_suffix s p" using find_space by blast+
  then show "(take (length s - length p) s, s) \<in> measure length"
    by (cases p) (auto simp: has_suffix_def)
qed

declare trim_left.simps [simp del] trim_right.simps [simp del]

definition trim_space :: "string \<Rightarrow> string" where
  "trim_space s = trim_right (trim_left s)"

lemma space_seq_bytes:
  assumes "p \<in> set space_seqs"
  shows "\<not> (32 < byte (hd p) \<and> byte (hd p) < 128)" "\<not> (32 < byte (last p) \<and> byte (last p) < 128)"
proof -
  obtain r where p: "p = encode_rune r" "r \<in> set space_runes" using assms by (auto simp: space_seqs_def)
  then consider "r \<le> 32" | "128 \<le> r" "r \<le> 0x3000" by (auto simp: space_runes_def)
  then have "\<not> (32 < byte (hd p) \<and> byte (hd p) < 128) \<and> \<not> (32 < byte (last p) \<and> byte (last p) < 128)"
  proof cases
    case 1
    then show ?thesis by (simp add: p(1) encode_rune_def valid_rune_def)
  next
    case 2
    then have "r div 4096 \<le> 3" "r div 64 \<le> 192" by (auto simp: div_le_mono [of r 12288 4096, simplified] div_le_mono [of r 12288 64, simplified])
    then show ?thesis using 2 by (auto simp: p(1) encode_rune_def valid_rune_def)
  qed
  then show "\<not> (32 < byte (hd p) \<and> byte (hd p) < 128)" "\<not> (32 < byte (last p) \<and> byte (last p) < 128)" by simp_all
qed

text \<open>A text that begins and ends with visible ASCII characters is left alone.\<close>

lemma trim_space_plain:
  assumes "s \<noteq> []" "32 < byte (hd s)" "byte (hd s) < 128" "32 < byte (last s)" "byte (last s) < 128"
  shows "trim_space s = s"
proof -
  have "\<not> has_prefix s p" if "p \<in> set space_seqs" for p
    using space_seq_bytes(1) [OF that] assms(2,3) find_space that
    by (auto simp: has_prefix_iff space_seqs_def)
  then have "List.find (has_prefix s) space_seqs = None" by (auto simp: find_None_iff)
  then have l: "trim_left s = s" by (subst trim_left.simps) simp
  have "\<not> has_suffix s p" if "p \<in> set space_seqs" for p
  proof
    assume "has_suffix s p"
    then have "s = take (length s - length p) s @ p" by (metis append_take_drop_id has_suffix_def)
    moreover have "p \<noteq> []" using that by (auto simp: space_seqs_def)
    ultimately have "last s = last p" by (metis last_appendR)
    then show False using space_seq_bytes(2) [OF that] assms(4,5) by simp
  qed
  then have "List.find (has_suffix s) space_seqs = None" by (auto simp: find_None_iff)
  then show ?thesis unfolding trim_space_def l by (subst trim_right.simps) simp
qed

text \<open>\<^verbatim>\<open>Index\<close> of a single byte.\<close>

fun str_index :: "string \<Rightarrow> char \<Rightarrow> nat option" where
  "str_index [] c = None"
| "str_index (d # s) c = (if d = c then Some 0 else map_option Suc (str_index s c))"

lemma str_index_take: "(case str_index s c of None \<Rightarrow> s | Some i \<Rightarrow> take i s) = takeWhile (\<lambda>d. d \<noteq> c) s"
  by (induction s) (auto split: option.splits)

end
