(* ===== verification/Go_Http.thy ===== *)
theory Go_Http
  imports Go_Text "HOL-Library.List_Lexorder" "HOL-Library.Char_ord"
begin

text \<open>
  What the HTTP programs use of \<^verbatim>\<open>net/http\<close>, \<^verbatim>\<open>net/url\<close> and \<^verbatim>\<open>encoding/json\<close>: decoded
  JSON values, requests and replies as data, and header maps. A header is a finite map from
  canonical names to the values in order; \<^verbatim>\<open>Get\<close>, \<^verbatim>\<open>Set\<close> and \<^verbatim>\<open>Del\<close> canonicalise their key.
  \<open>equal_fold\<close> is \<^verbatim>\<open>strings.EqualFold\<close> for an ASCII second argument, which is how it is called.
\<close>

section \<open>Messages\<close>

datatype json = JNull | JBool bool | JNum real | JStr string | JArr "json list" | JObj "(string, json) fmap"

type_synonym headers = "(string, string list) fmap"

text \<open>What an HTTP request comes to: no reply, or a status, the body with the error that ended its
  reading, and what the body decodes to.\<close>

datatype 'a reply = NoReply string | Reply int string "string option" "string + 'a"

text \<open>A reply that is passed through: status, headers and body.\<close>

datatype raw_reply = RawError string | Raw int headers string

text \<open>The body of a request, as reading and decoding it gave.\<close>

datatype 'r body = Unreadable | Undecodable | Decoded 'r

datatype 'b http_response = Failure int string | JSON 'b | Passed int headers string

record http_request =
  rq_Method :: string
  rq_URL :: string
  rq_Header :: headers
  rq_Body :: string

definition query_suffix :: "string \<Rightarrow> string" where
  "query_suffix raw = (if raw \<noteq> [] then ''?'' @ raw else [])"

section \<open>Header names\<close>

definition token_byte :: "char \<Rightarrow> bool" where
  "token_byte c \<longleftrightarrow> (48 \<le> byte c \<and> byte c \<le> 57) \<or> (65 \<le> byte c \<and> byte c \<le> 90)
     \<or> (97 \<le> byte c \<and> byte c \<le> 122) \<or> c \<in> set ''!#$%&*+-.^_|~'' \<or> byte c = 39 \<or> byte c = 96"

definition upper_byte :: "char \<Rightarrow> char" where
  "upper_byte c = (if 97 \<le> byte c \<and> byte c \<le> 122 then mk_byte (byte c - 32) else c)"

definition lower_byte :: "char \<Rightarrow> char" where
  "lower_byte c = (if 65 \<le> byte c \<and> byte c \<le> 90 then mk_byte (byte c + 32) else c)"

fun canon_bytes :: "bool \<Rightarrow> string \<Rightarrow> string" where
  "canon_bytes up [] = []"
| "canon_bytes up (c # s) =
     (let d = (if up then upper_byte c else lower_byte c) in d # canon_bytes (d = CHR ''-'') s)"

definition canon_key :: "string \<Rightarrow> string" where
  "canon_key k = (if list_all token_byte k then canon_bytes True k else k)"

definition fold_rune :: "nat \<Rightarrow> nat" where
  "fold_rune r = (if 65 \<le> r \<and> r \<le> 90 then r + 32 else if r = 0x17F then 115
     else if r = 0x212A then 107 else r)"

definition equal_fold :: "string \<Rightarrow> string \<Rightarrow> bool" where
  "equal_fold s t \<longleftrightarrow> map fold_rune (runes s) = map fold_rune (runes t)"

lemma change_case:
  assumes "byte c < 128"
  shows "byte (upper_byte c) < 128 \<and> fold_rune (byte (upper_byte c)) = fold_rune (byte c)"
    "byte (lower_byte c) < 128 \<and> fold_rune (byte (lower_byte c)) = fold_rune (byte c)"
  using assms by (auto simp: upper_byte_def lower_byte_def fold_rune_def)

lemma canon_bytes_fold:
  "list_all (\<lambda>c. byte c < 128) s \<Longrightarrow> list_all (\<lambda>c. byte c < 128) (canon_bytes up s)
    \<and> map (\<lambda>c. fold_rune (byte c)) (canon_bytes up s) = map (\<lambda>c. fold_rune (byte c)) s"
  by (induction up s rule: canon_bytes.induct) (auto simp: Let_def change_case)

lemma token_byte_ascii: "token_byte c \<Longrightarrow> byte c < 128"
  by (auto simp: token_byte_def) (simp_all add: byte_def)

text \<open>Canonical names differ from the original in case only.\<close>

lemma equal_fold_canon: "equal_fold k (canon_key k)"
proof (cases "list_all token_byte k")
  case True
  then have a: "list_all (\<lambda>c. byte c < 128) k" by (auto simp: list_all_iff token_byte_ascii)
  from canon_bytes_fold [OF this] a True show ?thesis
    by (simp add: equal_fold_def canon_key_def runes_ascii comp_def del: runes.simps)
qed (auto simp: equal_fold_def canon_key_def)

lemma equal_fold_trans: "equal_fold a b \<Longrightarrow> equal_fold b c \<Longrightarrow> equal_fold a c"
  by (simp add: equal_fold_def)

lemma equal_fold_sym: "equal_fold a b \<Longrightarrow> equal_fold b a"
  by (simp add: equal_fold_def)

section \<open>Header maps\<close>

definition hdr_get :: "headers \<Rightarrow> string \<Rightarrow> string" where
  "hdr_get h k = (case fm_get [] h (canon_key k) of [] \<Rightarrow> [] | v # _ \<Rightarrow> v)"

definition hdr_set :: "string \<Rightarrow> string \<Rightarrow> headers \<Rightarrow> headers" where
  "hdr_set k v h = fmupd (canon_key k) [v] h"

definition hdr_del :: "string \<Rightarrow> headers \<Rightarrow> headers" where
  "hdr_del k h = fmdrop (canon_key k) h"

definition hdr_add :: "string \<Rightarrow> string \<Rightarrow> headers \<Rightarrow> headers" where
  "hdr_add k v h = fmupd (canon_key k) (fm_get [] h (canon_key k) @ [v]) h"

lemma hdr_get_set [simp]: "hdr_get (hdr_set k v h) k = v"
  by (simp add: hdr_get_def hdr_set_def)

lemma hdr_get_del [simp]: "hdr_get (hdr_del k h) k = []"
  by (simp add: hdr_get_def hdr_del_def)

definition copy_headers :: "headers \<Rightarrow> headers" where
  "copy_headers h = fold (\<lambda>(k, vs) m. fold (\<lambda>v m. fmupd k (fm_get [] m k @ [v]) m) vs m) (sorted_list_of_fmap h) fmempty"

lemma fold_add_values:
  "fold (\<lambda>v m. fmupd k (fm_get [] m k @ [v]) m) vs m = (if vs = [] then m else fmupd k (fm_get [] m k @ vs) m)"
  by (induction vs arbitrary: m) auto

lemma copy_headers_fold:
  "distinct (map fst kvs) \<Longrightarrow> \<forall>(k, vs)\<in>set kvs. vs \<noteq> [] \<and> k |\<notin>| fmdom m \<Longrightarrow>
   fmlookup (fold (\<lambda>(k, vs) m. fold (\<lambda>v m. fmupd k (fm_get [] m k @ [v]) m) vs m) kvs m) k
     = (case map_of kvs k of Some vs \<Rightarrow> Some vs | None \<Rightarrow> fmlookup m k)"
proof (induction kvs arbitrary: m)
  case (Cons kv kvs)
  obtain j vs where kv: "kv = (j, vs)" by (cases kv)
  have "vs \<noteq> []" "fm_get [] m j = []"
    using Cons.prems(2) kv by (auto simp: fm_get_def fmdom_notD)
  moreover have "\<forall>(k, vs)\<in>set kvs. vs \<noteq> [] \<and> k |\<notin>| fmdom (fmupd j vs m)"
    using Cons.prems kv by (auto simp: image_iff)
  moreover have "map_of kvs j = None" using Cons.prems(1) kv by (simp add: map_of_eq_None_iff)
  ultimately show ?case
    using Cons.IH [of "fmupd j vs m"] Cons.prems(1) kv by (auto simp: fold_add_values split: option.split)
qed simp

lemma sorted_list_of_fmap_spec:
  "distinct (map fst (sorted_list_of_fmap m)) \<and> map_of (sorted_list_of_fmap m) = fmlookup m"
  by simp (simp add: sorted_list_of_fmap_def comp_def sorted_list_of_fset.rep_eq)

lemma copy_headers_same:
  assumes "\<forall>k vs. fmlookup h k = Some vs \<longrightarrow> vs \<noteq> []"
  shows "copy_headers h = h"
proof -
  have d: "distinct (map fst (sorted_list_of_fmap h))" "map_of (sorted_list_of_fmap h) = fmlookup h"
    using sorted_list_of_fmap_spec by blast+
  have "\<forall>(k, vs)\<in>set (sorted_list_of_fmap h). vs \<noteq> [] \<and> k |\<notin>| fmdom (fmempty :: headers)"
    using assms d by (auto dest!: map_of_is_SomeI [OF d(1)]) blast
  from copy_headers_fold [OF d(1) this] show ?thesis
    by (intro fmap_ext) (simp add: copy_headers_def d(2) split: option.split)
qed

end
