(* ===== verification/Blog_Sync.thy ===== *)
theory Blog_Sync
  imports Go_Http
begin

text \<open>
  \<^verbatim>\<open>blog-klimlive/internal/mastodon\<close>: the program that announces blog posts on Mastodon and records the
  id of the toot in the post. The files and the outcome of each write are part of the state, the
  Mastodon service answers every request as it likes, and \<open>yaml\<close> is the YAML package that reads a
  front matter. Paths are clean and free of glob characters; logging is not modelled.
\<close>

section \<open>Text\<close>

text \<open>The parts of a text before and after the first occurrence of a separator.\<close>

fun str_cut :: "string \<Rightarrow> string \<Rightarrow> (string \<times> string) option" where
  "str_cut sep [] = (if sep = [] then Some ([], []) else None)"
| "str_cut sep (c # s) = (if has_prefix (c # s) sep then Some ([], drop (length sep) (c # s))
     else map_option (\<lambda>(a, b). (c # a, b)) (str_cut sep s))"

text \<open>\<^verbatim>\<open>strings.Replace\<close> of the first occurrence.\<close>

definition replace_first :: "string \<Rightarrow> string \<Rightarrow> string \<Rightarrow> string" where
  "replace_first old new s = (case str_cut old s of None \<Rightarrow> s | Some (a, b) \<Rightarrow> a @ new @ b)"

abbreviation nl :: string where "nl \<equiv> [CHR 0x0A]"

definition marker :: string where "marker = nl @ ''---'' @ nl"

text \<open>The regular expression of the front matter: a first line of dashes, at least one byte as short as
  possible, a line of dashes, the rest.\<close>

definition front_matter :: "string \<Rightarrow> (string \<times> string) option" where
  "front_matter raw =
     (if has_prefix raw (''---'' @ nl)
      then (case drop 4 raw of
          [] \<Rightarrow> None
        | c # s \<Rightarrow> map_option (\<lambda>(a, b). (c # a, b)) (str_cut marker s))
      else None)"

definition composeToot :: "string \<Rightarrow> string \<Rightarrow> string \<Rightarrow> string option" where
  "composeToot title summary url =
     (let text = (if summary \<noteq> [] then title @ nl @ nl @ summary @ nl @ nl @ url else title @ nl @ nl @ url) in
      if length text > 500
      then (let maxSummary = 500 - int (length title) - int (length url) - 6 in
            if maxSummary > 3
            then (if nat maxSummary > length summary then None
                  else Some (title @ nl @ nl @ take (nat maxSummary) summary @ ''...'' @ nl @ nl @ url))
            else Some (title @ nl @ nl @ url))
      else Some text)"

section \<open>The Mastodon client\<close>

definition hex_upper :: "nat \<Rightarrow> char" where
  "hex_upper n = (if n < 10 then mk_byte (48 + n) else mk_byte (55 + n))"

definition query_escape :: "string \<Rightarrow> string" where
  "query_escape s = concat (map (\<lambda>c.
     if 48 \<le> byte c \<and> byte c \<le> 57 \<or> 65 \<le> byte c \<and> byte c \<le> 90 \<or> 97 \<le> byte c \<and> byte c \<le> 122 \<or> c \<in> set ''-_.~'' then [c]
     else if c = CHR '' '' then ''+''
     else [CHR ''%'', hex_upper (byte c div 16), hex_upper (byte c mod 16)]) s)"

record mastodonStatus =
  mt_ID :: string
  mt_Content :: string

record mastodon =
  ms_instanceURL :: string
  ms_accessToken :: string
  ms_creatable :: "http_request \<Rightarrow> string option"
  ms_account :: "nat \<Rightarrow> string reply"
  ms_statuses :: "nat \<Rightarrow> mastodonStatus list reply"
  ms_post :: "nat \<Rightarrow> mastodonStatus reply"
  ms_sent :: "http_request list"

text \<open>One authorised request: refused when it cannot be created, otherwise sent.\<close>

definition api_request :: "string \<Rightarrow> string \<Rightarrow> headers \<Rightarrow> string \<Rightarrow> mastodon \<Rightarrow> http_request" where
  "api_request meth path hdrs body m = \<lparr>rq_Method = meth, rq_URL = ms_instanceURL m @ path,
     rq_Header = hdr_set ''Authorization'' (''Bearer '' @ ms_accessToken m) hdrs, rq_Body = body\<rparr>"

definition api_call :: "(mastodon \<Rightarrow> nat \<Rightarrow> 'a reply) \<Rightarrow> string \<Rightarrow> string \<Rightarrow> http_request \<Rightarrow> mastodon
    \<Rightarrow> (string + 'a) \<times> mastodon" where
  "api_call service doing decoding req m = (case ms_creatable m req of
       Some err \<Rightarrow> (Inl (''create request: '' @ err), m)
     | None \<Rightarrow>
         (case service m (length (ms_sent m)) of
            NoReply err \<Rightarrow> Inl (doing @ '': '' @ err)
          | Reply status body _ val \<Rightarrow>
              if status \<noteq> 200 then Inl (''mastodon API returned '' @ show_int status @ '': '' @ body)
              else (case val of Inl err \<Rightarrow> Inl (decoding @ '': '' @ err) | Inr v \<Rightarrow> Inr v),
          m\<lparr>ms_sent := ms_sent m @ [req]\<rparr>))"

definition status_request :: "string \<Rightarrow> string \<Rightarrow> mastodon \<Rightarrow> http_request" where
  "status_request status visibility m = api_request ''POST'' ''/api/v1/statuses''
     (hdr_set ''Content-Type'' ''application/x-www-form-urlencoded'' fmempty)
     (''status='' @ query_escape status @ ''&visibility='' @ query_escape visibility) m"

definition PostStatus :: "string \<Rightarrow> string \<Rightarrow> mastodon \<Rightarrow> (string + string) \<times> mastodon" where
  "PostStatus status visibility m = (case api_call ms_post ''post status'' ''decode response''
       (status_request status visibility m) m of
       (Inl err, m) \<Rightarrow> (Inl err, m)
     | (Inr st, m) \<Rightarrow> (Inr (mt_ID st), m))"

definition verifyCredentials :: "mastodon \<Rightarrow> (string + string) \<times> mastodon" where
  "verifyCredentials m = api_call ms_account ''verify credentials'' ''decode account''
     (api_request ''GET'' ''/api/v1/accounts/verify_credentials'' fmempty [] m) m"

definition FindStatusByURL :: "string \<Rightarrow> mastodon \<Rightarrow> (string + string) \<times> mastodon" where
  "FindStatusByURL postURL m = (case verifyCredentials m of
       (Inl err, m) \<Rightarrow> (Inl err, m)
     | (Inr acct, m) \<Rightarrow>
         (case api_call ms_statuses ''fetch statuses'' ''decode statuses''
            (api_request ''GET'' (''/api/v1/accounts/'' @ acct @ ''/statuses?limit=40'') fmempty [] m) m of
            (Inl err, m) \<Rightarrow> (Inl err, m)
          | (Inr sts, m) \<Rightarrow> (Inr (case List.find (\<lambda>s. str_contains (mt_Content s) postURL) sts of
                None \<Rightarrow> [] | Some s \<Rightarrow> mt_ID s), m)))"

section \<open>Posts\<close>

record postFrontmatter =
  fm_Title :: string
  fm_Date :: string
  fm_Draft :: bool
  fm_Summary :: string
  fm_MastodonPostID :: string

text \<open>How a write ends: done, refused with the file as it was, or stopped with a part written.\<close>

datatype write_outcome = Written | WriteRefused | WriteStopped string

datatype sync_error = ReadError | NoFrontmatter | ParseError string | PostError string | WriteError

record blog =
  bl_fs :: "(string, string) fmap"
  bl_env :: "nat \<Rightarrow> write_outcome"
  bl_writes :: nat
  bl_api :: mastodon

definition write_file :: "string \<Rightarrow> string \<Rightarrow> blog \<Rightarrow> (sync_error + unit) \<times> blog" where
  "write_file path text b =
     (let b' = b\<lparr>bl_writes := Suc (bl_writes b)\<rparr> in
      case bl_env b (bl_writes b) of
        Written \<Rightarrow> (Inr (), b'\<lparr>bl_fs := fmupd path text (bl_fs b)\<rparr>)
      | WriteRefused \<Rightarrow> (Inl WriteError, b')
      | WriteStopped part \<Rightarrow> (Inl WriteError, b'\<lparr>bl_fs := fmupd path part (bl_fs b)\<rparr>))"

definition quoted :: "string \<Rightarrow> string" where
  "quoted s = CHR 0x22 # s @ [CHR 0x22]"

definition placeholder :: "string \<Rightarrow> string" where
  "placeholder i = ''mastodonPostId: '' @ quoted i"

definition setMastodonPostID :: "string \<Rightarrow> string \<Rightarrow> blog \<Rightarrow> (sync_error + unit) \<times> blog" where
  "setMastodonPostID path tootID b = (case fmlookup (bl_fs b) path of
       None \<Rightarrow> (Inl ReadError, b)
     | Some raw \<Rightarrow> (case front_matter raw of
           None \<Rightarrow> (Inl NoFrontmatter, b)
         | Some (front, rest) \<Rightarrow>
             write_file path (''---'' @ nl @ replace_first (placeholder []) (placeholder tootID) front @ marker @ rest) b))"

section \<open>Paths\<close>

definition path_join :: "string \<Rightarrow> string \<Rightarrow> string" where
  "path_join a b = (if a = [] then b else a @ ''/'' @ b)"

definition path_base :: "string \<Rightarrow> string" where
  "path_base p = rev (takeWhile (\<lambda>c. c \<noteq> CHR ''/'') (rev p))"

definition path_dir :: "string \<Rightarrow> string" where
  "path_dir p = (case dropWhile (\<lambda>c. c \<noteq> CHR ''/'') (rev p) of
       [] \<Rightarrow> ''.'' | [_] \<Rightarrow> ''/'' | _ # d \<Rightarrow> rev d)"

definition post_url :: "string \<Rightarrow> string \<Rightarrow> string" where
  "post_url blogBaseURL path =
     (let slug = trim_suffix (path_base path) ''.md'';
          slug = (if slug = ''index'' then path_base (path_dir path) else slug)
      in rev (dropWhile (\<lambda>c. c = CHR ''/'') (rev blogBaseURL)) @ ''/posts/'' @ slug @ ''/'')"

text \<open>The glob \<^verbatim>\<open>dir/index.*.md\<close>.\<close>

definition translation_files :: "string \<Rightarrow> (string, string) fmap \<Rightarrow> string list" where
  "translation_files dir fs = filter (\<lambda>p. path_dir p = dir \<and> has_prefix (path_base p) ''index.''
     \<and> has_suffix (path_base p) ''.md'' \<and> length (path_base p) \<ge> 9) (sorted_list_of_fset (fmdom fs))"

section \<open>Synchronisation\<close>

definition record_toot :: "string \<Rightarrow> string \<Rightarrow> blog \<Rightarrow> (sync_error + unit) \<times> blog" where
  "record_toot path tootID b = (case setMastodonPostID path tootID b of
       (Inl err, b) \<Rightarrow> (Inl err, b)
     | (Inr _, b) \<Rightarrow>
         (Inr (), fold (\<lambda>t b. snd (setMastodonPostID t tootID b)) (translation_files (path_dir path) (bl_fs b)) b))"

definition announce :: "string \<Rightarrow> string \<Rightarrow> postFrontmatter \<Rightarrow> blog \<Rightarrow> ((sync_error + unit) \<times> blog) option" where
  "announce path postURL fm b =
     (let (found, m) = FindStatusByURL postURL (bl_api b);
          b = b\<lparr>bl_api := m\<rparr>;
          existingID = (case found of Inl _ \<Rightarrow> [] | Inr i \<Rightarrow> i)
      in if existingID \<noteq> [] then Some (record_toot path existingID b)
         else do {
           text \<leftarrow> composeToot (fm_Title fm) (fm_Summary fm) postURL;
           Some (case PostStatus text ''public'' (bl_api b) of
               (Inl err, m) \<Rightarrow> (Inl (PostError err), b\<lparr>bl_api := m\<rparr>)
             | (Inr tootID, m) \<Rightarrow> record_toot path tootID (b\<lparr>bl_api := m\<rparr>))
         })"

definition syncPost :: "(string \<Rightarrow> string + postFrontmatter) \<Rightarrow> string \<Rightarrow> string \<Rightarrow> blog
    \<Rightarrow> ((sync_error + unit) \<times> blog) option" where
  "syncPost yaml blogBaseURL path b = (case fmlookup (bl_fs b) path of
       None \<Rightarrow> Some (Inl ReadError, b)
     | Some raw \<Rightarrow> (case front_matter raw of
           None \<Rightarrow> Some (Inl NoFrontmatter, b)
         | Some (front, _) \<Rightarrow> (case yaml front of
               Inl err \<Rightarrow> Some (Inl (ParseError err), b)
             | Inr fm \<Rightarrow>
                 if fm_Draft fm then Some (Inr (), b)
                 else if fm_MastodonPostID fm \<noteq> [] then Some (Inr (), b)
                 else announce path (post_url blogBaseURL path) fm b)))"

text \<open>The file of a directory entry (its name, and whether it is a directory), if it is a post.\<close>

definition post_path :: "string \<Rightarrow> (string, string) fmap \<Rightarrow> string \<times> bool \<Rightarrow> string option" where
  "post_path postsDir fs e = (case e of (name, isDir) \<Rightarrow>
     if isDir
     then (let p = path_join (path_join postsDir name) ''index.md'' in if p |\<in>| fmdom fs then Some p else None)
     else if has_suffix name ''.md''
     then (if length (filter (\<lambda>c. c = CHR ''.'') name) > 1 then None else Some (path_join postsDir name))
     else None)"

fun sync_entries :: "(string \<Rightarrow> string + postFrontmatter) \<Rightarrow> string \<Rightarrow> string \<Rightarrow> (string \<times> bool) list \<Rightarrow> blog
    \<Rightarrow> blog option" where
  "sync_entries yaml blogBaseURL postsDir [] b = Some b"
| "sync_entries yaml blogBaseURL postsDir (e # es) b = (case post_path postsDir (bl_fs b) e of
       None \<Rightarrow> sync_entries yaml blogBaseURL postsDir es b
     | Some path \<Rightarrow> do {
         (_, b) \<leftarrow> syncPost yaml blogBaseURL path b;
         sync_entries yaml blogBaseURL postsDir es b
       })"

text \<open>The whole run; \<open>readdir\<close> lists the directory or fails.\<close>

definition Sync :: "(string \<Rightarrow> string + postFrontmatter) \<Rightarrow> (string \<Rightarrow> string + (string \<times> bool) list) \<Rightarrow> string \<Rightarrow> string
    \<Rightarrow> blog \<Rightarrow> ((string + unit) \<times> blog) option" where
  "Sync yaml readdir contentDir blogBaseURL b =
     (let postsDir = path_join contentDir ''posts'' in
      case readdir postsDir of
        Inl err \<Rightarrow> Some (Inl (''read posts dir: '' @ err), b)
      | Inr es \<Rightarrow> do { b \<leftarrow> sync_entries yaml blogBaseURL postsDir es b; Some (Inr (), b) })"

end
