(* ===== verification/Blog_Main.thy ===== *)
theory Blog_Main
  imports Blog_Sync
begin

text \<open>
  The commands of the blog: \<^verbatim>\<open>cmd/sync\<close>, which announces the posts, and \<^verbatim>\<open>cmd/serve\<close> with the mux of
  \<^verbatim>\<open>internal/server\<close>. \<open>env\<close> is \<^verbatim>\<open>os.Getenv\<close>, empty for what is not set; the file server, the YAML
  package, the directory listing and the Mastodon service are parameters. The listening and the
  shutting down of \<^verbatim>\<open>cmd/serve\<close> are not modelled.
\<close>

definition envOr :: "(string \<Rightarrow> string) \<Rightarrow> string \<Rightarrow> string \<Rightarrow> string" where
  "envOr env key fallback = (let v = env key in if v \<noteq> [] then v else fallback)"

section \<open>The sync command\<close>

text \<open>\<^verbatim>\<open>log.Fatalf\<close> ends the program with a message.\<close>

definition requireEnv :: "(string \<Rightarrow> string) \<Rightarrow> string \<Rightarrow> string + string" where
  "requireEnv env key = (let v = env key in
     if v = [] then Inl (''required environment variable '' @ key @ '' is not set'') else Inr v)"

definition NewClient :: "string \<Rightarrow> string \<Rightarrow> mastodon \<Rightarrow> mastodon" where
  "NewClient instanceURL accessToken service = service\<lparr>ms_instanceURL := instanceURL, ms_accessToken := accessToken\<rparr>"

text \<open>How the command ends: a fatal message or the last line of the log; and what it did.\<close>

definition sync_main :: "(string \<Rightarrow> string) \<Rightarrow> (string \<Rightarrow> string + postFrontmatter)
    \<Rightarrow> (string \<Rightarrow> string + (string \<times> bool) list) \<Rightarrow> blog \<Rightarrow> ((string + string) \<times> blog) option" where
  "sync_main env yaml readdir b = (case requireEnv env ''MASTODON_INSTANCE_URL'' of
       Inl err \<Rightarrow> Some (Inl err, b)
     | Inr instanceURL \<Rightarrow> (case requireEnv env ''MASTODON_ACCESS_TOKEN'' of
           Inl err \<Rightarrow> Some (Inl err, b)
         | Inr accessToken \<Rightarrow>
             (let contentDir = envOr env ''CONTENT_DIR'' ''hugo/content'';
                  blogBaseURL = envOr env ''BLOG_BASE_URL'' ''https://blog.klimlive.de''
              in map_option (\<lambda>(r, b). (case r of
                     Inl err \<Rightarrow> (Inl (''sync failed: '' @ err), b)
                   | Inr _ \<Rightarrow> (Inr ''sync complete'', b)))
                   (Sync yaml readdir contentDir blogBaseURL (b\<lparr>bl_api := NewClient instanceURL accessToken (bl_api b)\<rparr>)))))"

section \<open>The serve command\<close>

datatype blog_reply = Answered int string | FromFiles string raw_reply | NotAllowed

definition blog_server :: "(string \<Rightarrow> http_request \<Rightarrow> raw_reply) \<Rightarrow> string \<Rightarrow> string \<Rightarrow> http_request \<Rightarrow> blog_reply" where
  "blog_server fileServer contentDir path r =
     (if rq_Method r \<noteq> ''GET'' \<and> rq_Method r \<noteq> ''HEAD'' then NotAllowed
      else if path = ''/healthz'' \<or> path = ''/readyz'' then Answered 200 ''ok''
      else FromFiles contentDir (fileServer contentDir r))"

definition serve_main :: "(string \<Rightarrow> string) \<Rightarrow> (string \<Rightarrow> http_request \<Rightarrow> raw_reply)
    \<Rightarrow> string \<times> (string \<Rightarrow> http_request \<Rightarrow> blog_reply)" where
  "serve_main env fileServer =
     (let contentDir = envOr env ''CONTENT_DIR'' ''/content''; listenAddr = envOr env ''LISTEN_ADDR'' '':8080''
      in (listenAddr, blog_server fileServer contentDir))"

end
