(* ===== verification/Blog_Spec.thy ===== *)
theory Blog_Spec
  imports Blog_Sync
begin

text \<open>
  What the announcement program promises: the length of a toot, the front matter after an id is
  recorded, and how often a post is announced.
\<close>

section \<open>Occurrences\<close>

lemma has_prefix_short: "has_prefix (x @ z) m \<Longrightarrow> length m \<le> length x \<Longrightarrow> has_prefix x m"
  by (simp add: has_prefix_def)

lemma contains_mono: "str_contains s m \<Longrightarrow> str_contains (x @ s) m" "str_contains s m \<Longrightarrow> str_contains (s @ z) m"
  unfolding str_contains_iff by (metis append.assoc)+

lemma contains_split: "str_contains (x @ c # z) m \<Longrightarrow> c \<notin> set m \<Longrightarrow> str_contains x m \<or> str_contains z m"
proof (induction x)
  case Nil
  then show ?case by (cases m) (auto simp: has_prefix_def)
next
  case (Cons d x)
  show ?case
  proof (cases "has_prefix ((d # x) @ c # z) m")
    case True
    have "length m \<le> length (d # x)"
    proof (rule ccontr)
      assume "\<not> length m \<le> length (d # x)"
      then obtain k where "length m = length (d # x) + Suc k" by (metis add_Suc_right less_natE not_le)
      then have "m = (d # x) @ c # take k z" using True by (simp add: has_prefix_def)
      then show False using Cons.prems(2) by (metis in_set_conv_decomp)
    qed
    then show ?thesis using has_prefix_short [OF True] by simp
  qed (use Cons in auto)
qed

lemma contains_skip: "m \<noteq> [] \<Longrightarrow> hd m \<notin> set w \<Longrightarrow> str_contains (w @ z) m = str_contains z m"
  by (induction w) (auto simp: has_prefix_def; cases m; auto)+

lemma str_cut_some: "str_cut sep s = Some (a, b) \<Longrightarrow> s = a @ sep @ b"
proof (induction sep s arbitrary: a b rule: str_cut.induct)
  case (2 sep c s)
  show ?case
  proof (cases "has_prefix (c # s) sep")
    case True
    then show ?thesis using 2 by (auto simp: has_prefix_iff)
  qed (use 2 in auto)
qed (simp split: if_splits)

lemma str_cut_none: "str_cut sep s = None \<longleftrightarrow> \<not> str_contains s sep"
  by (induction sep s rule: str_cut.induct) simp_all

text \<open>A cut is the first one: the separator does not occur earlier, not even overlapping the cut.\<close>

lemma butlast_prefix: "has_prefix (x @ butlast m) m \<Longrightarrow> m \<noteq> [] \<Longrightarrow> has_prefix (x @ m @ z) m"
  by (metis append.assoc append_butlast_last_id has_prefix_iff)

lemma str_cut_first: "str_cut sep s = Some (a, b) \<Longrightarrow> sep \<noteq> [] \<Longrightarrow> \<not> str_contains (a @ butlast sep) sep"
proof (induction sep s arbitrary: a b rule: str_cut.induct)
  case (2 sep c s)
  have short: "\<not> str_contains (butlast sep) sep"
  proof
    assume "str_contains (butlast sep) sep"
    then have "length sep \<le> length (butlast sep)" by (auto simp: str_contains_iff dest!: arg_cong [where f = length])
    then show False using length_greater_0_conv [of sep] "2.prems"(2) unfolding length_butlast by linarith
  qed
  show ?case
  proof (cases "has_prefix (c # s) sep")
    case True
    then show ?thesis using "2.prems" short by simp
  next
    case False
    then obtain a' where a': "a = c # a'" "str_cut sep s = Some (a', b)" using "2.prems"(1) by auto
    have "\<not> has_prefix (c # a' @ butlast sep) sep"
      using False butlast_prefix [of "c # a'" sep b] "2.prems"(2) str_cut_some [OF a'(2)] by auto
    then show ?thesis using "2.IH" [OF False a'(2) "2.prems"(2)] a'(1) by simp
  qed
qed simp

lemma str_cut_unique: "\<not> str_contains (a @ butlast sep) sep \<Longrightarrow> sep \<noteq> [] \<Longrightarrow> str_cut sep (a @ sep @ b) = Some (a, b)"
proof (induction a)
  case Nil
  then show ?case by (cases sep) (simp_all add: has_prefix_def)
next
  case (Cons c a)
  have "\<not> has_prefix (c # a @ sep @ b) sep"
  proof
    assume "has_prefix (c # a @ sep @ b) sep"
    moreover have "length sep \<le> length (c # a @ butlast sep)" using Cons.prems(2) by (cases sep) auto
    moreover have "c # a @ sep @ b = (c # a @ butlast sep) @ last sep # b" using Cons.prems(2) by simp
    ultimately have "has_prefix (c # a @ butlast sep) sep" by (metis has_prefix_short)
    then show False using Cons.prems(1) by simp
  qed
  then show ?case using Cons by simp
qed

section \<open>Front matter\<close>

lemma marker_facts: "marker \<noteq> []" "hd marker = CHR 0x0A" "set marker = {CHR 0x0A, CHR ''-'' }"
  "butlast marker = nl @ ''---''" "length marker = 5"
  by (auto simp: marker_def)

lemma front_matter_some:
  "front_matter raw = Some (front, rest) \<longleftrightarrow>
     raw = ''---'' @ nl @ front @ marker @ rest \<and> front \<noteq> [] \<and> \<not> str_contains (tl front @ butlast marker) marker"
proof
  assume a: "front_matter raw = Some (front, rest)"
  then obtain t where t: "raw = ''---'' @ nl @ t" by (auto simp: front_matter_def has_prefix_iff split: if_splits)
  with a obtain c s where "t = c # s" by (cases t) (auto simp: front_matter_def has_prefix_def)
  with a t obtain f where f: "front = c # f" "str_cut marker s = Some (f, rest)"
    by (auto simp: front_matter_def has_prefix_def)
  show "raw = ''---'' @ nl @ front @ marker @ rest \<and> front \<noteq> [] \<and> \<not> str_contains (tl front @ butlast marker) marker"
    using str_cut_some [OF f(2)] str_cut_first [OF f(2) marker_facts(1)] t f(1) \<open>t = c # s\<close> by simp
next
  assume a: "raw = ''---'' @ nl @ front @ marker @ rest \<and> front \<noteq> [] \<and> \<not> str_contains (tl front @ butlast marker) marker"
  then obtain c f where f: "front = c # f" by (cases front) auto
  then have "str_cut marker (f @ marker @ rest) = Some (f, rest)"
    using a str_cut_unique [of f marker rest] marker_facts(1) by simp
  then show "front_matter raw = Some (front, rest)" using a f by (simp add: front_matter_def has_prefix_def)
qed

text \<open>Replacing a text without line breaks that begins with a letter cannot create a marker.\<close>

lemma placeholder_shape: "placeholder i = CHR ''m'' # ''astodonPostId: '' @ quoted i"
  by (simp add: placeholder_def)

lemma no_new_marker:
  assumes "\<not> str_contains (x @ placeholder j @ b @ butlast marker) marker" "CHR 0x0A \<notin> set i"
  shows "\<not> str_contains (x @ placeholder i @ b @ butlast marker) marker"
    and "\<not> str_contains (tl (placeholder i) @ b @ butlast marker) marker"
proof -
  have x: "\<not> str_contains x marker" "\<not> str_contains (b @ butlast marker) marker"
    using assms(1) contains_mono by (blast, metis append.assoc contains_mono(1))
  have "hd marker \<notin> set (''astodonPostId: '' @ quoted i)" using assms(2) by (auto simp: marker_facts quoted_def)
  then have t: "\<not> str_contains ((''astodonPostId: '' @ quoted i) @ b @ butlast marker) marker"
    using contains_skip [OF marker_facts(1)] x(2) by blast
  then show "\<not> str_contains (tl (placeholder i) @ b @ butlast marker) marker"
    by (simp add: placeholder_shape)
  show "\<not> str_contains (x @ placeholder i @ b @ butlast marker) marker"
    using contains_split [of x "CHR ''m''" "(''astodonPostId: '' @ quoted i) @ b @ butlast marker" marker] x(1) t
    by (auto simp: placeholder_shape marker_facts)
qed

lemma replace_keeps_front:
  assumes "front_matter raw = Some (front, rest)" "CHR 0x0A \<notin> set i"
  shows "front_matter (''---'' @ nl @ replace_first (placeholder []) (placeholder i) front @ marker @ rest)
    = Some (replace_first (placeholder []) (placeholder i) front, rest)"
proof (cases "str_cut (placeholder []) front")
  case None
  then show ?thesis using assms by (simp add: replace_first_def front_matter_some)
next
  case (Some ab)
  obtain a b where ab: "ab = (a, b)" by (cases ab)
  have f: "front = a @ placeholder [] @ b" using str_cut_some Some ab by blast
  have no: "\<not> str_contains (tl front @ butlast marker) marker" using assms(1) by (simp add: front_matter_some)
  have "\<not> str_contains (tl (a @ placeholder i @ b) @ butlast marker) marker"
  proof (cases a)
    case Nil
    have "\<not> str_contains (b @ butlast marker) marker"
      using no f Nil contains_mono(1) by (metis append.assoc append_Nil placeholder_shape tl_append2 list.distinct(1))
    then have "\<not> str_contains (tl (placeholder i) @ b @ butlast marker) marker"
      using contains_skip [OF marker_facts(1), of "tl (placeholder i)"] assms(2)
      by (auto simp: marker_facts placeholder_shape quoted_def)
    then show ?thesis using Nil by (simp add: placeholder_shape)
  next
    case (Cons c a')
    then show ?thesis using no_new_marker(1) [of a' "[]" b i] no f assms(2) by simp
  qed
  then show ?thesis using Some ab by (simp add: replace_first_def front_matter_some placeholder_shape)
qed

lemma recorded_lemma:
  assumes "fmlookup (bl_fs b) path = Some raw" "front_matter raw = Some (front, rest)"
    "bl_env b (bl_writes b) = Written" "CHR 0x0A \<notin> set i" "setMastodonPostID path i b = (res, b')"
  shows "res = Inr () \<and> (\<exists>raw'. bl_fs b' = fmupd path raw' (bl_fs b)
      \<and> front_matter raw' = Some (replace_first (placeholder []) (placeholder i) front, rest)
      \<and> (\<not> str_contains front (placeholder []) \<longrightarrow> raw' = raw))"
proof -
  let ?raw' = "''---'' @ nl @ replace_first (placeholder []) (placeholder i) front @ marker @ rest"
  have "res = Inr ()" "bl_fs b' = fmupd path ?raw' (bl_fs b)"
    using assms(1-3,5) by (auto simp: setMastodonPostID_def write_file_def)
  moreover have "?raw' = raw" if "\<not> str_contains front (placeholder [])"
  proof -
    have "str_cut (placeholder []) front = None" using that str_cut_none by simp
    then show ?thesis using assms(2) by (simp add: replace_first_def front_matter_some)
  qed
  ultimately show ?thesis using replace_keeps_front [OF assms(2,4)] by blast
qed

text \<open>C40: recording an id keeps the document. A post whose id has been recorded still has a front matter and
  the same body; in the front matter only the first empty id has changed, and without one the file
  is rewritten as it was. No other file is touched.\<close>

theorem recorded_front_matter:
  assumes "fmlookup (bl_fs b) path = Some raw" "front_matter raw = Some (front, rest)"
    "bl_env b (bl_writes b) = Written" "CHR 0x0A \<notin> set i" "setMastodonPostID path i b = (res, b')"
  shows "res = Inr () \<and> (\<exists>raw'. bl_fs b' = fmupd path raw' (bl_fs b)
      \<and> front_matter raw' = Some (replace_first (placeholder []) (placeholder i) front, rest)
      \<and> (\<not> str_contains front (placeholder []) \<longrightarrow> raw' = raw))"
  using assms by (rule recorded_lemma)

section \<open>Length\<close>

lemma toot_length_lemma:
  assumes "full = (if summary = [] then title @ nl @ nl @ url else title @ nl @ nl @ summary @ nl @ nl @ url)"
  shows "\<exists>t. composeToot title summary url = Some t
    \<and> (length full \<le> 500 \<longrightarrow> t = full)
    \<and> (length full > 500 \<and> length title + length url < 491 \<longrightarrow>
         length t = 501 \<and> (\<exists>p. p \<noteq> [] \<and> has_prefix summary p \<and> t = title @ nl @ nl @ p @ ''...'' @ nl @ nl @ url))
    \<and> (length full > 500 \<and> length title + length url \<ge> 491 \<longrightarrow> t = title @ nl @ nl @ url)"
proof (cases "length full > 500 \<and> length title + length url < 491")
  case True
  then have s: "summary \<noteq> []" "length title + length summary + length url > 496"
    using assms by (auto split: if_splits)
  let ?n = "nat (500 - int (length title) - int (length url) - 6)"
  have n: "?n \<le> length summary" "?n > 3" "length title + ?n + length url = 494" using s True by linarith+
  have "composeToot title summary url = Some (title @ nl @ nl @ take ?n summary @ ''...'' @ nl @ nl @ url)"
    using True s n(1,2) assms by (simp add: composeToot_def)
  moreover have "length (title @ nl @ nl @ take ?n summary @ ''...'' @ nl @ nl @ url) = 501" using n by simp
  moreover have "has_prefix summary (take ?n summary)" "take ?n summary \<noteq> []"
    using n s by (auto simp: has_prefix_def min_def)
  ultimately show ?thesis using True by auto
next
  case False
  then show ?thesis using assms by (auto simp: composeToot_def Let_def)
qed

text \<open>The length of a toot. Composing never fails; a toot within 500 bytes is sent whole, and a longer one
  is either reduced to title and link or cut to 501 bytes, one more than intended.\<close>

theorem toot_length:
  assumes "full = (if summary = [] then title @ nl @ nl @ url else title @ nl @ nl @ summary @ nl @ nl @ url)"
  shows "\<exists>t. composeToot title summary url = Some t
    \<and> (length full \<le> 500 \<longrightarrow> t = full)
    \<and> (length full > 500 \<and> length title + length url < 491 \<longrightarrow>
         length t = 501 \<and> (\<exists>p. p \<noteq> [] \<and> has_prefix summary p \<and> t = title @ nl @ nl @ p @ ''...'' @ nl @ nl @ url))
    \<and> (length full > 500 \<and> length title + length url \<ge> 491 \<longrightarrow> t = title @ nl @ nl @ url)"
  using assms by (rule toot_length_lemma)

theorem toot_length_witness:
  "\<exists>t. composeToot ''T'' (replicate 600 CHR ''s'') ''https://b/posts/p/'' = Some t \<and> length t = 501"
  using toot_length [OF refl, of "''T''" "replicate 600 CHR ''s''" "''https://b/posts/p/''"] by auto

section \<open>Announcements\<close>

definition post_requests :: "mastodon \<Rightarrow> http_request list" where
  "post_requests m = filter (\<lambda>q. rq_Method q = ''POST'') (ms_sent m)"

abbreviation posted :: "blog \<Rightarrow> http_request list" where
  "posted b \<equiv> post_requests (bl_api b)"

text \<open>The part of the client that no call changes.\<close>

definition same_client :: "mastodon \<Rightarrow> mastodon \<Rightarrow> bool" where
  "same_client m m' \<longleftrightarrow> m'\<lparr>ms_sent := ms_sent m\<rparr> = m"

lemma same_client_simps:
  "same_client m m' \<Longrightarrow> ms_creatable m' = ms_creatable m \<and> ms_account m' = ms_account m
    \<and> ms_statuses m' = ms_statuses m \<and> ms_post m' = ms_post m \<and> ms_instanceURL m' = ms_instanceURL m
    \<and> ms_accessToken m' = ms_accessToken m"
  by (cases m, cases m') (simp add: same_client_def)

lemma same_client_trans: "same_client m m1 \<Longrightarrow> same_client m1 m2 \<Longrightarrow> same_client m m2"
  by (cases m, cases m1, cases m2) (simp add: same_client_def)

lemma api_call_sent:
  "api_call service doing dec req m = (x, m') \<Longrightarrow>
   same_client m m' \<and> (ms_sent m' = ms_sent m @ (if ms_creatable m req = None then [req] else []))
   \<and> (\<forall>v. x = Inr v \<longrightarrow> ms_creatable m req = None)"
  by (auto simp: api_call_def same_client_def split: option.splits)

lemma post_requests_call:
  assumes "api_call service doing dec req m = (x, m')"
  shows "post_requests m' = post_requests m @ (if ms_creatable m req = None \<and> rq_Method req = ''POST'' then [req] else [])"
  using api_call_sent [OF assms] by (simp add: post_requests_def)

text \<open>Looking a post up never posts.\<close>

lemma find_sent:
  assumes "FindStatusByURL u m = (x, m')"
  shows "same_client m m' \<and> post_requests m' = post_requests m"
proof -
  obtain a m1 where v: "verifyCredentials m = (a, m1)" by fastforce
  have v1: "same_client m m1" "post_requests m1 = post_requests m"
    using api_call_sent [OF v [unfolded verifyCredentials_def]] post_requests_call [OF v [unfolded verifyCredentials_def]]
    by (auto simp: api_request_def)
  show ?thesis
  proof (cases a)
    case (Inl e)
    then show ?thesis using assms v v1 by (simp add: FindStatusByURL_def)
  next
    case (Inr acct)
    let ?q = "api_request ''GET'' (''/api/v1/accounts/'' @ acct @ ''/statuses?limit=40'') fmempty [] m1"
    obtain c m2 where c: "api_call ms_statuses ''fetch statuses'' ''decode statuses'' ?q m1 = (c, m2)" by fastforce
    then have "m' = m2" using assms v Inr by (cases c) (auto simp: FindStatusByURL_def)
    then show ?thesis
      using api_call_sent [OF c] post_requests_call [OF c] v1 same_client_trans by (auto simp: api_request_def)
  qed
qed

lemma post_sent:
  assumes "PostStatus text vis m = (x, m')"
  shows "same_client m m'"
    "post_requests m' = post_requests m @ (if ms_creatable m (status_request text vis m) = None then [status_request text vis m] else [])"
proof -
  obtain c m1 where c: "api_call ms_post ''post status'' ''decode response'' (status_request text vis m) m = (c, m1)" by fastforce
  then have "m' = m1" using assms by (cases c) (auto simp: PostStatus_def)
  then show "same_client m m'"
    "post_requests m' = post_requests m @ (if ms_creatable m (status_request text vis m) = None then [status_request text vis m] else [])"
    using api_call_sent [OF c] post_requests_call [OF c] by (auto simp: status_request_def api_request_def)
qed

lemma status_request_cong: "same_client m m' \<Longrightarrow> status_request t v m' = status_request t v m"
  by (auto simp: status_request_def api_request_def dest: same_client_simps)

lemma setMastodonPostID_api [simp]: "bl_api (snd (setMastodonPostID p i b)) = bl_api b"
  by (auto simp: setMastodonPostID_def write_file_def Let_def split: option.split write_outcome.split)

lemma fold_set_api [simp]: "bl_api (fold (\<lambda>t b. snd (setMastodonPostID t i b)) ts b) = bl_api b"
  by (induction ts arbitrary: b) simp_all

lemma record_toot_api [simp]: "bl_api (snd (record_toot p i b)) = bl_api b"
  using setMastodonPostID_api [of p i b] by (cases "setMastodonPostID p i b") (auto simp: record_toot_def split: sum.split)

lemma composeToot_total: "\<exists>t. composeToot title summary url = Some t"
  using toot_length_lemma [OF refl] by blast

lemma announce_cases:
  "\<exists>res b'. announce path url fm b = Some (res, b') \<and> same_client (bl_api b) (bl_api b')
    \<and> (posted b' = posted b \<or> (\<exists>t. composeToot (fm_Title fm) (fm_Summary fm) url = Some t
          \<and> posted b' = posted b @ [status_request t ''public'' (bl_api b)]))"
proof -
  obtain f m where f: "FindStatusByURL url (bl_api b) = (f, m)" by fastforce
  note fs = find_sent [OF f]
  let ?e = "case f of Inl _ \<Rightarrow> [] | Inr i \<Rightarrow> i"
  show ?thesis
  proof (cases "?e = []")
    case False
    obtain res b' where r: "record_toot path ?e (b\<lparr>bl_api := m\<rparr>) = (res, b')" by fastforce
    then have "bl_api b' = m" using record_toot_api [of path ?e "b\<lparr>bl_api := m\<rparr>"] by simp
    then show ?thesis using False fs f r by (simp add: announce_def)
  next
    case True
    obtain t where t: "composeToot (fm_Title fm) (fm_Summary fm) url = Some t" using composeToot_total by blast
    obtain p m2 where p: "PostStatus t ''public'' m = (p, m2)" by fastforce
    note ps = post_sent [OF p] status_request_cong [of "bl_api b" m t "''public''"]
    have sc: "same_client (bl_api b) m2" using ps(1) fs same_client_trans by blast
    show ?thesis
    proof (cases p)
      case (Inl e)
      then show ?thesis using True t p f fs ps sc by (simp add: announce_def)
    next
      case (Inr i)
      obtain res b' where r: "record_toot path i (b\<lparr>bl_api := m2\<rparr>) = (res, b')" by fastforce
      then have "bl_api b' = m2" using record_toot_api [of path i "b\<lparr>bl_api := m2\<rparr>"] by simp
      then show ?thesis using Inr True t p f fs ps sc r by (simp add: announce_def)
    qed
  qed
qed

text \<open>A post is announced at most once per run, and only when it should be. Synchronising a post never
  fails on a slice; it sends no status unless the post has a readable front matter, is no draft and
  carries no id, and then at most one, the toot composed of its title, summary and link.\<close>

theorem announced_at_most_once:
  "\<exists>res b'. syncPost yaml base path b = Some (res, b')
    \<and> (posted b' = posted b \<or> (\<exists>raw front rest fm t. fmlookup (bl_fs b) path = Some raw
          \<and> front_matter raw = Some (front, rest) \<and> yaml front = Inr fm
          \<and> fm_Draft fm = False \<and> fm_MastodonPostID fm = []
          \<and> composeToot (fm_Title fm) (fm_Summary fm) (post_url base path) = Some t
          \<and> posted b' = posted b @ [status_request t ''public'' (bl_api b)]))"
  using announce_cases [of path "post_url base path" _ b]
  by (auto simp: syncPost_def split: option.split sum.split) metis

section \<open>Once and for all\<close>

lemma write_file_frame [simp]:
  "bl_api (snd (write_file p t b)) = bl_api b" "bl_env (snd (write_file p t b)) = bl_env b"
  "p \<noteq> q \<Longrightarrow> fmlookup (bl_fs (snd (write_file p t b))) q = fmlookup (bl_fs b) q"
  by (auto simp: write_file_def Let_def split: write_outcome.split)

lemma setMastodonPostID_frame [simp]:
  "bl_env (snd (setMastodonPostID p i b)) = bl_env b"
  "p \<noteq> q \<Longrightarrow> fmlookup (bl_fs (snd (setMastodonPostID p i b))) q = fmlookup (bl_fs b) q"
  by (auto simp: setMastodonPostID_def split: option.split)

lemma fold_set_frame:
  "bl_env (fold (\<lambda>t b. snd (setMastodonPostID t i b)) ts b) = bl_env b"
  "q \<notin> set ts \<Longrightarrow> fmlookup (bl_fs (fold (\<lambda>t b. snd (setMastodonPostID t i b)) ts b)) q = fmlookup (bl_fs b) q"
  by (induction ts arbitrary: b) auto

text \<open>The files that are posts: a page bundle, or a file of its own.\<close>

definition is_post :: "string \<Rightarrow> bool" where
  "is_post path \<longleftrightarrow> path_base path = ''index.md'' \<or> \<not> has_prefix (path_base path) ''index.''"

lemma post_no_translation: "is_post path \<Longrightarrow> path \<notin> set (translation_files dir fs)"
  by (auto simp: translation_files_def is_post_def)

lemma record_toot_recorded:
  assumes "fmlookup (bl_fs b) path = Some raw" "front_matter raw = Some (front, rest)" "is_post path"
    "bl_env b (bl_writes b) = Written" "CHR 0x0A \<notin> set i" "record_toot path i b = (res, b')"
  shows "res = Inr () \<and> bl_env b' = bl_env b \<and> (\<exists>raw'. fmlookup (bl_fs b') path = Some raw'
      \<and> front_matter raw' = Some (replace_first (placeholder []) (placeholder i) front, rest)
      \<and> (\<not> str_contains front (placeholder []) \<longrightarrow> raw' = raw))"
proof -
  obtain r b1 where s: "setMastodonPostID path i b = (r, b1)" by fastforce
  from recorded_lemma [OF assms(1,2,4,5) s] obtain raw' where r: "r = Inr ()" "bl_fs b1 = fmupd path raw' (bl_fs b)"
    "front_matter raw' = Some (replace_first (placeholder []) (placeholder i) front, rest)"
    "\<not> str_contains front (placeholder []) \<longrightarrow> raw' = raw" by blast
  let ?ts = "translation_files (path_dir path) (bl_fs b1)"
  have b': "b' = fold (\<lambda>t b. snd (setMastodonPostID t i b)) ?ts b1" "res = Inr ()"
    using assms(6) s r(1) by (auto simp: record_toot_def)
  have "bl_env b1 = bl_env b" using s setMastodonPostID_frame(1) [of path i b] by simp
  then show ?thesis
    using r b' fold_set_frame(1) [of i ?ts b1] fold_set_frame(2) [OF post_no_translation [OF assms(3)], of i] by auto
qed

text \<open>Ids as Mastodon issues them: not empty, one line.\<close>

definition toot_id :: "string \<Rightarrow> bool" where
  "toot_id i \<longleftrightarrow> i \<noteq> [] \<and> CHR 0x0A \<notin> set i"

definition issues_ids :: "mastodon \<Rightarrow> bool" where
  "issues_ids m \<longleftrightarrow> (\<forall>n st body e s. ms_post m n = Reply st body e (Inr s) \<longrightarrow> toot_id (mt_ID s))
     \<and> (\<forall>n st body e ss. ms_statuses m n = Reply st body e (Inr ss) \<longrightarrow> (\<forall>s\<in>set ss. toot_id (mt_ID s)))"

lemma api_call_value:
  "api_call service doing dec req m = (Inr v, m') \<Longrightarrow> \<exists>body e. service m (length (ms_sent m)) = Reply 200 body e (Inr v)"
  by (auto simp: api_call_def split: option.splits reply.splits if_splits sum.splits)

lemma find_id:
  assumes "FindStatusByURL u m = (Inr i, m')" "issues_ids m"
  shows "i = [] \<or> toot_id i"
proof -
  obtain a m1 where v: "verifyCredentials m = (Inr a, m1)"
    using assms(1) by (auto simp: FindStatusByURL_def split: prod.splits sum.splits)
  obtain ss m2 where c: "api_call ms_statuses ''fetch statuses'' ''decode statuses''
      (api_request ''GET'' (''/api/v1/accounts/'' @ a @ ''/statuses?limit=40'') fmempty [] m1) m1 = (Inr ss, m2)"
    and i: "i = (case List.find (\<lambda>s. str_contains (mt_Content s) u) ss of None \<Rightarrow> [] | Some s \<Rightarrow> mt_ID s)"
    using assms(1) v by (auto simp: FindStatusByURL_def split: prod.splits sum.splits)
  have "ms_statuses m1 = ms_statuses m"
    using api_call_sent [OF v [unfolded verifyCredentials_def]] same_client_simps by blast
  then have "\<forall>s\<in>set ss. toot_id (mt_ID s)"
    using api_call_value [OF c] assms(2) by (auto simp: issues_ids_def)
  then show ?thesis using i by (auto simp: find_Some_iff split: option.splits)
qed

lemma post_id:
  assumes "PostStatus t v m = (Inr i, m')" "issues_ids m"
  shows "toot_id i"
proof -
  obtain s m1 where c: "api_call ms_post ''post status'' ''decode response'' (status_request t v m) m = (Inr s, m1)"
    "i = mt_ID s"
    using assms(1) by (auto simp: PostStatus_def split: prod.splits sum.splits)
  from api_call_value [OF c(1)] c(2) assms(2) show ?thesis by (auto simp: issues_ids_def)
qed

lemma issues_ids_cong: "same_client m m' \<Longrightarrow> issues_ids m' = issues_ids m"
  by (auto simp: issues_ids_def dest: same_client_simps)

lemma announce_toot:
  assumes "announce path url fm b = Some (Inr (), b')" "issues_ids (bl_api b)"
  shows "\<exists>i m. toot_id i \<and> record_toot path i (b\<lparr>bl_api := m\<rparr>) = (Inr (), b')"
proof -
  obtain f m where f: "FindStatusByURL url (bl_api b) = (f, m)" by fastforce
  note fs = find_sent [OF f]
  let ?e = "case f of Inl _ \<Rightarrow> [] | Inr i \<Rightarrow> i"
  show ?thesis
  proof (cases "?e = []")
    case False
    then have "toot_id ?e" using find_id [of url "bl_api b" _ m] f assms(2) by (cases f) auto
    moreover have "record_toot path ?e (b\<lparr>bl_api := m\<rparr>) = (Inr (), b')" using False assms(1) f by (simp add: announce_def)
    ultimately show ?thesis by blast
  next
    case True
    obtain t where t: "composeToot (fm_Title fm) (fm_Summary fm) url = Some t" using composeToot_total by blast
    obtain p m2 where p: "PostStatus t ''public'' m = (p, m2)" by fastforce
    obtain i where i: "p = Inr i" using assms(1) True t p f by (cases p) (auto simp: announce_def)
    then have "record_toot path i (b\<lparr>bl_api := m2\<rparr>) = (Inr (), b')" using assms(1) True t p f by (simp add: announce_def)
    moreover have "toot_id i" using post_id p i fs issues_ids_cong assms(2) by blast
    ultimately show ?thesis by blast
  qed
qed


section \<open>Posts that are announced again\<close>

text \<open>A service whose recent statuses do not mention the post and that accepts every status.\<close>

definition forgets :: "string \<Rightarrow> mastodon \<Rightarrow> bool" where
  "forgets url m \<longleftrightarrow> (\<forall>q. ms_creatable m q = None) \<and> (\<forall>n. \<exists>s. ms_post m n = Reply 200 [] None (Inr s) \<and> toot_id (mt_ID s))
     \<and> (\<forall>n. \<exists>ss. ms_statuses m n = Reply 200 [] None (Inr ss) \<and> (\<forall>s\<in>set ss. \<not> str_contains (mt_Content s) url))"

lemma forgets_cong: "same_client m m' \<Longrightarrow> forgets url m' = forgets url m"
  by (auto simp: forgets_def dest: same_client_simps)

lemma forgets_find:
  assumes "forgets url m" "FindStatusByURL url m = (f, m')"
  shows "(case f of Inl _ \<Rightarrow> [] | Inr i \<Rightarrow> i) = []"
proof (cases f)
  case (Inr i)
  then obtain a m1 where v: "verifyCredentials m = (Inr a, m1)"
    using assms(2) by (auto simp: FindStatusByURL_def split: prod.splits sum.splits)
  obtain ss m2 where c: "api_call ms_statuses ''fetch statuses'' ''decode statuses''
      (api_request ''GET'' (''/api/v1/accounts/'' @ a @ ''/statuses?limit=40'') fmempty [] m1) m1 = (Inr ss, m2)"
    and i: "i = (case List.find (\<lambda>s. str_contains (mt_Content s) url) ss of None \<Rightarrow> [] | Some s \<Rightarrow> mt_ID s)"
    using assms(2) v Inr by (auto simp: FindStatusByURL_def split: prod.splits sum.splits)
  have "forgets url m1"
    using api_call_sent [OF v [unfolded verifyCredentials_def]] forgets_cong assms(1) by blast
  then have "\<forall>s\<in>set ss. \<not> str_contains (mt_Content s) url"
    using api_call_value [OF c] unfolding forgets_def by (metis reply.inject(2) sum.inject(2))
  then have "List.find (\<lambda>s. str_contains (mt_Content s) url) ss = None" by (simp add: find_None_iff)
  then show ?thesis using i Inr by simp
qed simp

lemma forgets_post:
  assumes "forgets url m"
  shows "\<exists>i m'. PostStatus t v m = (Inr i, m') \<and> toot_id i \<and> same_client m m'
    \<and> post_requests m' = post_requests m @ [status_request t v m]"
proof -
  obtain i m' where p: "PostStatus t v m = (Inr i, m')" "toot_id i"
  proof -
    obtain s where s: "ms_post m (length (ms_sent m)) = Reply 200 [] None (Inr s)" "toot_id (mt_ID s)"
      using assms unfolding forgets_def by blast
    have "ms_creatable m q = None" for q using assms by (simp add: forgets_def)
    then show thesis using s that by (simp add: PostStatus_def api_call_def)
  qed
  moreover have "ms_creatable m q = None" for q using assms by (simp add: forgets_def)
  ultimately show ?thesis using post_sent [OF p(1)] by auto
qed

text \<open>A post whose front matter has no empty id to fill in.\<close>

definition unrecordable :: "(string \<Rightarrow> string + postFrontmatter) \<Rightarrow> string \<Rightarrow> postFrontmatter \<Rightarrow> blog \<Rightarrow> bool" where
  "unrecordable yaml path fm b \<longleftrightarrow> is_post path \<and> (\<forall>n. bl_env b n = Written)
     \<and> (\<exists>raw front rest. fmlookup (bl_fs b) path = Some raw \<and> front_matter raw = Some (front, rest)
          \<and> \<not> str_contains front (placeholder []) \<and> yaml front = Inr fm)
     \<and> \<not> fm_Draft fm \<and> fm_MastodonPostID fm = []"

lemma unrecorded_again:
  assumes "unrecordable yaml path fm b" "forgets (post_url base path) (bl_api b)"
    "composeToot (fm_Title fm) (fm_Summary fm) (post_url base path) = Some t"
  shows "\<exists>b'. syncPost yaml base path b = Some (Inr (), b') \<and> unrecordable yaml path fm b'
    \<and> same_client (bl_api b) (bl_api b') \<and> posted b' = posted b @ [status_request t ''public'' (bl_api b)]"
proof -
  obtain raw front rest where r: "fmlookup (bl_fs b) path = Some raw" "front_matter raw = Some (front, rest)"
    "\<not> str_contains front (placeholder [])" "yaml front = Inr fm"
    using assms(1) unfolding unrecordable_def by blast
  have k: "is_post path" "\<forall>n. bl_env b n = Written" "\<not> fm_Draft fm" "fm_MastodonPostID fm = []"
    using assms(1) unfolding unrecordable_def by blast+
  obtain f m where f: "FindStatusByURL (post_url base path) (bl_api b) = (f, m)" by fastforce
  have m: "same_client (bl_api b) m" "post_requests m = posted b" using find_sent [OF f] by auto
  have e: "(case f of Inl _ \<Rightarrow> [] | Inr i \<Rightarrow> i) = []" by (rule forgets_find [OF assms(2) f])
  have "forgets (post_url base path) m" using forgets_cong [OF m(1)] assms(2) by simp
  from forgets_post [OF this, of t "''public''"] obtain i m2 where p: "PostStatus t ''public'' m = (Inr i, m2)" "toot_id i"
    "same_client m m2" "post_requests m2 = post_requests m @ [status_request t ''public'' m]" by blast
  let ?b = "b\<lparr>bl_api := m2\<rparr>"
  obtain res b' where rt: "record_toot path i ?b = (res, b')" by fastforce
  from record_toot_recorded [OF _ r(2) k(1) _ _ rt] r(1) k(2) p(2) obtain raw' where b':
    "res = Inr ()" "bl_env b' = bl_env b" "fmlookup (bl_fs b') path = Some raw'" "raw' = raw"
    using r(3) by (auto simp: toot_id_def)
  have api: "bl_api b' = m2" using record_toot_api [of path i ?b] rt by simp
  have "syncPost yaml base path b = Some (Inr (), b')"
    using r k f e assms(3) p(1) rt b'(1) by (simp add: syncPost_def announce_def)
  moreover have "unrecordable yaml path fm b'"
    using r k b' unfolding unrecordable_def by auto
  moreover have "status_request t ''public'' m = status_request t ''public'' (bl_api b)"
    using status_request_cong [OF m(1)] .
  ultimately show ?thesis using api p(3,4) m same_client_trans by (intro exI [of _ b']) auto
qed

text \<open>A toot that cannot be recorded is sent again. For a post whose front matter has no literal empty
  \<^verbatim>\<open>mastodonPostId\<close>, recording reports success without changing the file, and once the toot is no
  longer among the recent statuses every run announces the post anew.\<close>

theorem unrecorded_toot_repeats:
  assumes "unrecordable yaml path fm b" "forgets (post_url base path) (bl_api b)"
  shows "\<exists>b1 b2 q. syncPost yaml base path b = Some (Inr (), b1) \<and> syncPost yaml base path b1 = Some (Inr (), b2)
    \<and> posted b2 = posted b @ [q, q]"
proof -
  obtain t where t: "composeToot (fm_Title fm) (fm_Summary fm) (post_url base path) = Some t"
    using composeToot_total by blast
  from unrecorded_again [OF assms t] obtain b1 where b1: "syncPost yaml base path b = Some (Inr (), b1)"
    "unrecordable yaml path fm b1" "same_client (bl_api b) (bl_api b1)"
    "posted b1 = posted b @ [status_request t ''public'' (bl_api b)]" by blast
  have "forgets (post_url base path) (bl_api b1)" using forgets_cong [OF b1(3)] assms(2) by simp
  from unrecorded_again [OF b1(2) this t] obtain b2 where "syncPost yaml base path b1 = Some (Inr (), b2)"
    "posted b2 = posted b1 @ [status_request t ''public'' (bl_api b1)]" by blast
  then show ?thesis using b1 status_request_cong [OF b1(3)] by auto
qed

section \<open>Witnesses\<close>

definition sample_yaml :: "string \<Rightarrow> string + postFrontmatter" where
  "sample_yaml front = Inr \<lparr>fm_Title = ''x'', fm_Date = [], fm_Draft = False, fm_Summary = [],
     fm_MastodonPostID = butlast (drop 17 front)\<rparr>"

definition sample_path :: string where "sample_path = ''posts/p/index.md''"

definition sample_raw :: "string \<Rightarrow> string" where
  "sample_raw front = ''---'' @ nl @ front @ marker @ ''text''"

definition sample_blog :: "string \<Rightarrow> blog" where
  "sample_blog front = \<lparr>bl_fs = fmupd sample_path (sample_raw front) fmempty, bl_env = (\<lambda>_. Written), bl_writes = 0,
     bl_api = \<lparr>ms_instanceURL = ''https://m'', ms_accessToken = ''t'', ms_creatable = (\<lambda>_. None),
       ms_account = (\<lambda>_. Reply 200 [] None (Inr ''7'')), ms_statuses = (\<lambda>_. Reply 200 [] None (Inr [])),
       ms_post = (\<lambda>_. Reply 200 [] None (Inr \<lparr>mt_ID = ''9'', mt_Content = []\<rparr>)), ms_sent = []\<rparr>\<rparr>"

lemma sample_post: "is_post sample_path"
  by (simp add: is_post_def path_base_def sample_path_def)

lemma sample_front: "front_matter (sample_raw (placeholder [])) = Some (placeholder [], ''text'')"
  "front_matter (sample_raw ''a'') = Some (''a'', ''text'')"
  by (simp_all add: front_matter_some sample_raw_def placeholder_def quoted_def marker_def has_prefix_def)

lemma sample_file: "fmlookup (bl_fs (sample_blog front)) sample_path = Some (sample_raw front)"
  by (simp add: sample_blog_def)

lemma sample_forgets: "forgets url (bl_api (sample_blog front))"
  by (simp add: forgets_def sample_blog_def toot_id_def)

lemma sample_run:
  assumes "front_matter (sample_raw front) = Some (front, ''text'')" "butlast (drop 17 front) = []"
  shows "\<exists>b'. syncPost sample_yaml base sample_path (sample_blog front) = Some (Inr (), b')"
proof -
  let ?b = "sample_blog front" and ?url = "post_url base sample_path"
  obtain t where t: "composeToot ''x'' [] ?url = Some t" using composeToot_total by blast
  obtain f m where f: "FindStatusByURL ?url (bl_api ?b) = (f, m)" by fastforce
  have e: "(case f of Inl _ \<Rightarrow> [] | Inr i \<Rightarrow> i) = []" by (rule forgets_find [OF sample_forgets f])
  have "forgets ?url m" using forgets_cong find_sent [OF f] sample_forgets by blast
  from forgets_post [OF this, of t "''public''"] obtain i m2 where p: "PostStatus t ''public'' m = (Inr i, m2)" "toot_id i"
    by blast
  obtain res b' where rt: "record_toot sample_path i (?b\<lparr>bl_api := m2\<rparr>) = (res, b')" by fastforce
  from record_toot_recorded [OF _ assms(1) sample_post _ _ rt] p(2) have "res = Inr ()"
    by (simp add: sample_file toot_id_def) (simp add: sample_blog_def)
  then show ?thesis
    using assms f e t p(1) rt by (simp add: syncPost_def sample_file) (simp add: sample_yaml_def announce_def)
qed

theorem recorded_front_matter_witness:
  "\<exists>raw'. fmlookup (bl_fs (snd (setMastodonPostID sample_path ''9'' (sample_blog (placeholder []))))) sample_path = Some raw'
     \<and> front_matter raw' = Some (placeholder ''9'', ''text'')"
proof -
  obtain res b' where s: "setMastodonPostID sample_path ''9'' (sample_blog (placeholder [])) = (res, b')" by fastforce
  have "replace_first (placeholder []) (placeholder ''9'') (placeholder []) = placeholder ''9''"
    by (simp add: replace_first_def placeholder_def quoted_def has_prefix_def)
  then show ?thesis
    using recorded_front_matter [OF sample_file sample_front(1) _ _ s] unfolding s by (auto simp: sample_blog_def)
qed


theorem unrecorded_toot_repeats_witness:
  "\<exists>b1 b2 q. syncPost sample_yaml ''https://b'' sample_path (sample_blog ''a'') = Some (Inr (), b1)
     \<and> syncPost sample_yaml ''https://b'' sample_path b1 = Some (Inr (), b2) \<and> posted b2 = [q, q]"
proof -
  have "unrecordable sample_yaml sample_path
      \<lparr>fm_Title = ''x'', fm_Date = [], fm_Draft = False, fm_Summary = [], fm_MastodonPostID = []\<rparr> (sample_blog ''a'')"
    using sample_front(2) sample_post
    by (simp add: unrecordable_def sample_file) (simp add: sample_blog_def sample_yaml_def placeholder_def has_prefix_def)
  from unrecorded_toot_repeats [OF this sample_forgets] show ?thesis
    by (simp add: sample_blog_def post_requests_def)
qed

end
