(* ===== verification/Go_Float.thy ===== *)
theory Go_Float
  imports Prelude "HOL-Library.Log_Nat"
begin

text \<open>
  Go's \<^verbatim>\<open>float64\<close> and \<^verbatim>\<open>float32\<close> arithmetic. A finite binary64 value is the real number it denotes; every
  operation computes exactly and then rounds to nearest, ties to even (\<open>rnd64\<close>), which is what
  IEEE 754 requires of \<open>+ - * /\<close>. Subnormals are covered (the exponent stops at \<open>-1022\<close>);
  overflow to infinity is not: the bounds proved in \<^verbatim>\<open>World\<close> keep every value of the
  simulation far below \<open>2 ^ 1024\<close>. The two zeros are one real number, and no operation fuses a
  multiplication with an addition (the amd64 and wasm targets the program ships for never do).
\<close>

type_synonym f64 = real
type_synonym f32 = real

section \<open>Rounding\<close>

text \<open>Round to an integer, ties to even.\<close>

definition rne :: "real \<Rightarrow> int" where
  "rne x = (let f = \<lfloor>x\<rfloor>; r = x - of_int f in
     if r < 1 / 2 then f else if 1 / 2 < r then f + 1 else if even f then f else f + 1)"

text \<open>The binary exponent of a positive number.\<close>

definition ilog2 :: "real \<Rightarrow> int" where
  "ilog2 x = (if 1 \<le> x then int (floorlog 2 (nat \<lfloor>x\<rfloor>)) - 1
              else - int (floorlog 2 (nat (\<lceil>1 / x\<rceil> - 1))))"

definition ulp64 :: "real \<Rightarrow> real" where
  "ulp64 x = 2 powi (max (ilog2 \<bar>x\<bar>) (-1022) - 52)"

definition rnd64 :: "real \<Rightarrow> f64" where
  "rnd64 x = (if x = 0 then 0 else of_int (rne (x / ulp64 x)) * ulp64 x)"

definition ulp32 :: "real \<Rightarrow> real" where
  "ulp32 x = 2 powi (max (ilog2 \<bar>x\<bar>) (-126) - 23)"

definition rnd32 :: "real \<Rightarrow> f32" where
  "rnd32 x = (if x = 0 then 0 else of_int (rne (x / ulp32 x)) * ulp32 x)"

definition fadd :: "f64 \<Rightarrow> f64 \<Rightarrow> f64" where "fadd a b = rnd64 (a + b)"
definition fsub :: "f64 \<Rightarrow> f64 \<Rightarrow> f64" where "fsub a b = rnd64 (a - b)"
definition fmul :: "f64 \<Rightarrow> f64 \<Rightarrow> f64" where "fmul a b = rnd64 (a * b)"
definition fdiv :: "f64 \<Rightarrow> f64 \<Rightarrow> f64" where "fdiv a b = rnd64 (a / b)"

definition fadd32 :: "f32 \<Rightarrow> f32 \<Rightarrow> f32" where "fadd32 a b = rnd32 (a + b)"
definition fsub32 :: "f32 \<Rightarrow> f32 \<Rightarrow> f32" where "fsub32 a b = rnd32 (a - b)"
definition fmul32 :: "f32 \<Rightarrow> f32 \<Rightarrow> f32" where "fmul32 a b = rnd32 (a * b)"
definition fdiv32 :: "f32 \<Rightarrow> f32 \<Rightarrow> f32" where "fdiv32 a b = rnd32 (a / b)"

text \<open>\<^verbatim>\<open>math.Round\<close>: half away from zero, exact on binary64.\<close>

definition go_round :: "f64 \<Rightarrow> int" where
  "go_round x = (if 0 \<le> x then \<lfloor>x + 1 / 2\<rfloor> else - \<lfloor>- x + 1 / 2\<rfloor>)"

text \<open>Conversion to an integer type truncates towards zero.\<close>

definition go_trunc :: "f64 \<Rightarrow> int" where
  "go_trunc x = (if 0 \<le> x then \<lfloor>x\<rfloor> else - \<lfloor>- x\<rfloor>)"

section \<open>Rounding to an integer\<close>

lemma rne_of_int [simp]: "rne (of_int n) = n"
  by (simp add: rne_def)

lemma rne_bounds: "\<lfloor>x\<rfloor> \<le> rne x" "rne x \<le> \<lfloor>x\<rfloor> + 1"
  by (auto simp: rne_def Let_def)

lemma rne_error: "\<bar>of_int (rne x) - x\<bar> \<le> 1 / 2"
proof -
  have "of_int \<lfloor>x\<rfloor> \<le> x" "x < of_int \<lfloor>x\<rfloor> + 1" by linarith+
  then show ?thesis by (auto simp: rne_def Let_def)
qed

lemma rne_mono: "x \<le> y \<Longrightarrow> rne x \<le> rne y"
proof -
  assume le: "x \<le> y"
  then have fl: "\<lfloor>x\<rfloor> \<le> \<lfloor>y\<rfloor>" by (rule floor_mono)
  show ?thesis
  proof (cases "\<lfloor>x\<rfloor> = \<lfloor>y\<rfloor>")
    case True
    with le show ?thesis by (auto simp: rne_def Let_def)
  next
    case False
    with fl have "\<lfloor>x\<rfloor> + 1 \<le> \<lfloor>y\<rfloor>" by simp
    with rne_bounds show ?thesis by (meson order_trans)
  qed
qed

lemma rne_minus: "rne (- x) = - rne x"
proof (cases "x = of_int \<lfloor>x\<rfloor>")
  case True
  then show ?thesis by (metis of_int_minus rne_of_int)
next
  case False
  then have f: "\<lfloor>- x\<rfloor> = - \<lfloor>x\<rfloor> - 1" by linarith
  show ?thesis unfolding rne_def Let_def f by auto
qed

section \<open>The exponent\<close>

lemma floorlog2_bounds:
  assumes "0 < n"
  shows "2 ^ (floorlog 2 n - 1) \<le> n" "n < 2 ^ floorlog 2 n" "0 < floorlog 2 n"
  using floorlog_bounds [of n 2] assms by (auto simp: floorlog_def)

lemma ilog2_ge1:
  assumes "1 \<le> x"
  shows "2 powi (ilog2 x) \<le> x \<and> x < 2 powi (ilog2 x + 1)"
proof -
  let ?n = "nat \<lfloor>x\<rfloor>"
  have n: "0 < ?n" using assms by linarith
  have rn: "real ?n = of_int \<lfloor>x\<rfloor>" using assms by simp
  have e: "ilog2 x = int (floorlog 2 ?n - 1)" "ilog2 x + 1 = int (floorlog 2 ?n)"
    using assms floorlog2_bounds(3) [OF n] by (auto simp: ilog2_def)
  have "real (2 ^ (floorlog 2 ?n - 1)) \<le> real ?n"
    using floorlog2_bounds(1) [OF n] by (simp only: of_nat_le_iff)
  then have lo: "2 ^ (floorlog 2 ?n - 1) \<le> (of_int \<lfloor>x\<rfloor> :: real)"
    by (simp only: rn of_nat_power of_nat_numeral)
  have "real (?n + 1) \<le> real (2 ^ floorlog 2 ?n)"
    using floorlog2_bounds(2) [OF n] by (simp only: of_nat_le_iff)
  then have hi: "of_int \<lfloor>x\<rfloor> + 1 \<le> (2 ^ floorlog 2 ?n :: real)"
    by (simp only: rn of_nat_power of_nat_numeral of_nat_add of_nat_1)
  have "2 ^ (floorlog 2 ?n - 1) \<le> x" "x < 2 ^ floorlog 2 ?n"
    using lo hi by linarith+
  then have "2 powi ilog2 x \<le> x" and "x < 2 powi (ilog2 x + 1)"
    by (simp_all only: e(1) power_int_of_nat, simp only: e(2) [unfolded e(1)] power_int_of_nat)
  then show ?thesis by simp
qed

lemma ilog2_lt1:
  assumes "0 < x" "x < 1"
  shows "2 powi (ilog2 x) \<le> x \<and> x < 2 powi (ilog2 x + 1)"
proof -
  let ?y = "1 / x"
  let ?n = "nat (\<lceil>?y\<rceil> - 1)"
  have y: "1 < ?y" using assms by simp
  then have n: "0 < ?n" by linarith
  let ?k = "floorlog 2 ?n"
  have rn: "real ?n = of_int \<lceil>?y\<rceil> - 1" using y by linarith
  have e: "ilog2 x = - int ?k" "ilog2 x + 1 = - int (?k - 1)"
    using assms floorlog2_bounds(3) [OF n] by (auto simp: ilog2_def)
  have "real (2 ^ (?k - 1)) \<le> real ?n"
    using floorlog2_bounds(1) [OF n] by (simp only: of_nat_le_iff)
  moreover have "of_int \<lceil>?y\<rceil> - 1 < ?y" "?y \<le> of_int \<lceil>?y\<rceil>" by linarith+
  ultimately have "2 ^ (?k - 1) < ?y" using rn by simp
  then have lt: "x < 1 / 2 ^ (?k - 1)" using assms by (simp add: field_simps)
  have "real (?n + 1) \<le> real (2 ^ ?k)"
    using floorlog2_bounds(2) [OF n] by (simp only: of_nat_le_iff)
  moreover have "?y \<le> of_int \<lceil>?y\<rceil>" by linarith
  ultimately have "?y \<le> 2 ^ ?k" using rn by (simp only: of_nat_add of_nat_power of_nat_numeral of_nat_1)
  then have le: "1 / 2 ^ ?k \<le> x" using assms by (simp add: field_simps)
  have "2 powi ilog2 x \<le> x" by (simp only: e(1) power_int_minus_divide power_int_of_nat le)
  moreover have "x < 2 powi (ilog2 x + 1)"
    by (simp only: e(2) power_int_minus_divide power_int_of_nat lt)
  ultimately show ?thesis by simp
qed

lemma ilog2_bounds: "0 < x \<Longrightarrow> 2 powi (ilog2 x) \<le> x \<and> x < 2 powi (ilog2 x + 1)"
  by (cases "1 \<le> x") (auto simp: ilog2_ge1 ilog2_lt1)

lemma pow2_mono: "a \<le> b \<Longrightarrow> (2::real) powi a \<le> 2 powi b"
  by (rule power_int_increasing) auto

lemma pow2_strict: "(2::real) powi a < 2 powi b \<longleftrightarrow> a < b"
  using power_int_strict_increasing [of a b "2::real"] power_int_increasing [of b a "2::real"]
  by (metis linorder_not_less one_less_numeral_iff order_less_imp_le semiring_norm(76))

lemma pow2_pos: "0 < (2::real) powi a"
  by simp

lemma ilog2_eqI: "2 powi e \<le> x \<Longrightarrow> x < 2 powi (e + 1) \<Longrightarrow> ilog2 x = e"
proof -
  assume a: "2 powi e \<le> x" "x < 2 powi (e + 1)"
  then have "0 < x" using pow2_pos [of e] by linarith
  from ilog2_bounds [OF this] a have "(2::real) powi e < 2 powi (ilog2 x + 1)"
    and "(2::real) powi (ilog2 x) < 2 powi (e + 1)" by linarith+
  then show ?thesis by (simp add: pow2_strict)
qed

lemma ilog2_mono: "0 < x \<Longrightarrow> x \<le> y \<Longrightarrow> ilog2 x \<le> ilog2 y"
proof -
  assume a: "0 < x" "x \<le> y"
  then have "(2::real) powi (ilog2 x) < 2 powi (ilog2 y + 1)"
    using ilog2_bounds [of x] ilog2_bounds [of y] by linarith
  then show ?thesis by (simp add: pow2_strict)
qed

section \<open>Rounding to a width\<close>

lemma pow2_split: "a \<le> b \<Longrightarrow> (2::real) powi b = of_int (2 ^ nat (b - a)) * 2 powi a"
proof -
  assume "a \<le> b"
  then have "b = int (nat (b - a)) + a" by simp
  then have "(2::real) powi b = 2 powi int (nat (b - a)) * 2 powi a"
    by (metis power_int_add zero_neq_numeral)
  then show ?thesis by (simp only: power_int_of_nat of_int_power of_int_numeral)
qed

lemma rne_abs_le: "\<bar>x\<bar> \<le> of_int n \<Longrightarrow> \<bar>rne x\<bar> \<le> n"
proof -
  assume "\<bar>x\<bar> \<le> of_int n"
  then have "x \<le> of_int n" "of_int (- n) \<le> x" by auto
  then have "rne x \<le> n" "- n \<le> rne x"
    using rne_mono [of x "of_int n"] rne_mono [of "of_int (- n)" x] rne_of_int by metis+
  then show ?thesis by simp
qed

text \<open>Rounding to a format: \<open>p\<close> bits after the leading one, exponents from \<open>emin\<close>. The laws are proved
  once for both widths.\<close>

locale float_format =
  fixes ulp rnd :: "real \<Rightarrow> real" and p :: nat and emin :: int
  assumes ulp_eq: "ulp x = 2 powi (max (ilog2 \<bar>x\<bar>) emin - int p)"
    and rnd_eq: "rnd x = (if x = 0 then 0 else of_int (rne (x / ulp x)) * ulp x)"
begin

lemma ulp_pos: "0 < ulp x"
  by (simp add: ulp_eq)

lemma ulp_nonzero: "ulp x \<noteq> 0"
  using ulp_pos [of x] by linarith

lemma ulp_minus: "ulp (- x) = ulp x"
  by (simp add: ulp_eq)

lemma ulp_mono: "0 < x \<Longrightarrow> x \<le> y \<Longrightarrow> ulp x \<le> ulp y"
  using ilog2_mono [of x y] by (auto simp: ulp_eq intro!: pow2_mono)

lemma ulp_eqI: "2 powi e \<le> \<bar>x\<bar> \<Longrightarrow> \<bar>x\<bar> < 2 powi (e + 1) \<Longrightarrow> emin \<le> e \<Longrightarrow> ulp x = 2 powi (e - int p)"
  by (simp add: ulp_eq ilog2_eqI max_def)

lemma ulp_le:
  assumes "\<bar>x\<bar> < 2 powi e" "emin < e" "x \<noteq> 0"
  shows "ulp x \<le> 2 powi (e - 1 - int p)"
proof -
  have "2 powi ilog2 \<bar>x\<bar> \<le> \<bar>x\<bar>" using ilog2_bounds [of "\<bar>x\<bar>"] assms(3) by simp
  then have "(2::real) powi ilog2 \<bar>x\<bar> < 2 powi e" using assms(1) by linarith
  then show ?thesis using assms(2) by (auto simp: ulp_eq pow2_strict intro!: pow2_mono)
qed

lemma rnd_zero: "rnd 0 = 0"
  by (simp add: rnd_eq)

lemma rnd_minus: "rnd (- x) = - rnd x"
  by (simp add: rnd_eq rne_minus ulp_minus)

lemma rnd_error: "\<bar>rnd x - x\<bar> \<le> ulp x / 2"
proof (cases "x = 0")
  case False
  have "rnd x - x = (of_int (rne (x / ulp x)) - x / ulp x) * ulp x"
    using False ulp_nonzero [of x] by (simp add: rnd_eq algebra_simps)
  then have "\<bar>rnd x - x\<bar> = \<bar>of_int (rne (x / ulp x)) - x / ulp x\<bar> * ulp x"
    using ulp_pos [of x] by (simp add: abs_mult)
  also have "\<dots> \<le> 1 / 2 * ulp x"
    by (rule mult_right_mono [OF rne_error]) (simp add: ulp_pos less_imp_le)
  finally show ?thesis by simp
qed (simp add: rnd_zero ulp_pos less_imp_le)

text \<open>A number that is a multiple of its own ulp is a value of the format: it is not changed.\<close>

lemma rnd_multiple: "x = of_int n * ulp x \<Longrightarrow> rnd x = x"
proof -
  assume a: "x = of_int n * ulp x"
  then have "x / ulp x = of_int n" by (metis nonzero_mult_div_cancel_right ulp_nonzero)
  then have "rnd x = (if x = 0 then 0 else of_int n * ulp x)" by (simp add: rnd_eq)
  with a show ?thesis by (metis (full_types))
qed

text \<open>Dyadic numbers with few significant bits are exact.\<close>

lemma rnd_dyadic:
  assumes "x = of_int m * 2 powi e" "\<bar>m\<bar> < 2 ^ Suc p" "emin - int p \<le> e"
  shows "rnd x = x"
proof (cases "x = 0")
  case False
  define k where "k = max (ilog2 \<bar>x\<bar>) emin - int p"
  have "\<bar>x\<bar> = of_int \<bar>m\<bar> * 2 powi e" using assms(1) by (simp add: abs_mult)
  also have "\<dots> < 2 powi (int p + 1) * 2 powi e"
  proof (rule mult_strict_right_mono)
    have "real_of_int \<bar>m\<bar> < of_int (2 ^ Suc p)" using assms(2) by (simp only: of_int_less_iff)
    then show "real_of_int \<bar>m\<bar> < 2 powi (int p + 1)" by (simp add: power_int_add)
  qed simp
  also have "\<dots> = 2 powi (int p + 1 + e)" by (rule power_int_add [symmetric]) simp
  finally have "\<bar>x\<bar> < 2 powi (int p + 1 + e)" .
  moreover have "2 powi ilog2 \<bar>x\<bar> \<le> \<bar>x\<bar>" using ilog2_bounds [of "\<bar>x\<bar>"] False by simp
  ultimately have "(2::real) powi ilog2 \<bar>x\<bar> < 2 powi (int p + 1 + e)" by linarith
  then have "ilog2 \<bar>x\<bar> < int p + 1 + e" by (simp only: pow2_strict)
  then have k: "k \<le> e" using assms(3) by (simp add: k_def)
  have "x = of_int m * (of_int (2 ^ nat (e - k)) * 2 powi k)"
    using assms(1) pow2_split [OF k] by simp
  then have "x = of_int (m * 2 ^ nat (e - k)) * ulp x"
    by (simp add: ulp_eq k_def mult.assoc)
  then show ?thesis by (rule rnd_multiple)
qed (simp add: rnd_zero)

text \<open>A rounded value is a value of the format: rounding twice changes nothing.\<close>

lemma rnd_idem: "rnd (rnd x) = rnd x"
proof (cases "x = 0")
  case False
  define k where "k = max (ilog2 \<bar>x\<bar>) emin - int p"
  have u: "ulp x = 2 powi k" by (simp add: ulp_eq k_def)
  define n where "n = rne (x / ulp x)"
  have r: "rnd x = of_int n * 2 powi k" using False by (simp add: rnd_eq n_def u)
  have "\<bar>x\<bar> < 2 powi (ilog2 \<bar>x\<bar> + 1)" using ilog2_bounds [of "\<bar>x\<bar>"] False by simp
  also have "\<dots> \<le> 2 powi (int (Suc p) + k)" by (rule pow2_mono) (simp add: k_def)
  also have "\<dots> = 2 powi int (Suc p) * 2 powi k" by (rule power_int_add) simp
  also have "\<dots> = 2 ^ Suc p * ulp x" by (simp only: u power_int_of_nat)
  finally have "\<bar>x / ulp x\<bar> \<le> of_int (2 ^ Suc p)"
    using ulp_pos [of x] by (simp add: abs_divide pos_divide_le_eq)
  then have "\<bar>n\<bar> \<le> 2 ^ Suc p" unfolding n_def by (rule rne_abs_le)
  then consider "\<bar>n\<bar> < 2 ^ Suc p" | s where "n = s * 2 ^ Suc p" "\<bar>s\<bar> = 1"
    by (cases "0 \<le> n") (fastforce, metis abs_1 abs_minus_cancel abs_of_neg linorder_not_le minus_equation_iff mult_1 mult_minus_left order_less_le)
  then show ?thesis
  proof cases
    case 1
    then show ?thesis using rnd_dyadic [OF r] by (simp add: k_def)
  next
    case 2
    have "rnd x = of_int s * (2 ^ Suc p * 2 powi k)" by (simp add: r 2(1))
    also have "(2::real) ^ Suc p * 2 powi k = 2 powi (int (Suc p) + k)"
      by (simp only: power_int_add power_int_of_nat zero_neq_numeral [symmetric] simp_thms)
    finally have "rnd x = of_int s * 2 powi (int (Suc p) + k)" .
    from rnd_dyadic [OF this] 2(2) one_less_power [of "2::int" "Suc p"] show ?thesis by (simp add: k_def)
  qed
qed (simp add: rnd_zero)

lemma rnd_le_multiple:
  assumes "x \<le> of_int n * ulp x"
  shows "rnd x \<le> of_int n * ulp x"
proof (cases "x = 0")
  case False
  from assms have "x / ulp x \<le> of_int n" by (simp add: pos_divide_le_eq ulp_pos)
  then have "rne (x / ulp x) \<le> n" using rne_mono by fastforce
  then have "of_int (rne (x / ulp x)) * ulp x \<le> of_int n * ulp x"
    by (intro mult_right_mono) (simp_all add: ulp_pos less_imp_le)
  with False show ?thesis by (simp add: rnd_eq)
qed (use assms in \<open>simp add: rnd_zero\<close>)

lemma rnd_ge_multiple: "of_int n * ulp x \<le> x \<Longrightarrow> of_int n * ulp x \<le> rnd x"
  using rnd_le_multiple [of "- x" "- n"] by (simp add: rnd_minus ulp_minus)

lemma rnd_nonneg: "0 \<le> x \<Longrightarrow> 0 \<le> rnd x"
  using rnd_ge_multiple [of 0 x] by simp

lemma rnd_mono_pos:
  assumes "0 < x" "x \<le> y"
  shows "rnd x \<le> rnd y"
proof (cases "ulp x = ulp y")
  case True
  from assms(2) have "x / ulp y \<le> y / ulp y" by (simp add: divide_right_mono ulp_pos less_imp_le)
  then have "rne (x / ulp y) \<le> rne (y / ulp y)" by (rule rne_mono)
  with assms True show ?thesis by (simp add: rnd_eq mult_right_mono ulp_pos less_imp_le)
next
  case False
  define e where "e = ilog2 y"
  have le: "ilog2 x \<le> e" unfolding e_def by (rule ilog2_mono [OF assms])
  have ex: "max (ilog2 x) emin < e"
    using False le assms
    by (cases "ilog2 x = e") (auto simp: ulp_eq e_def max_def split: if_splits)
  have "y < 2 powi (e + 1)" and ley: "2 powi e \<le> y"
    using ilog2_bounds [of y] assms by (auto simp: e_def)
  have "x < 2 powi (ilog2 x + 1)" using ilog2_bounds [of x] assms by blast
  also have "\<dots> \<le> 2 powi e" using ex by (intro pow2_mono) simp
  finally have lex: "x \<le> 2 powi e" by simp
  define k where "k = max (ilog2 x) emin - int p"
  have "ulp x = 2 powi k" using assms by (simp add: ulp_eq k_def)
  moreover have "k \<le> e" using ex unfolding k_def by linarith
  ultimately obtain n where n: "2 powi e = of_int n * ulp x"
    using pow2_split by metis
  have "emin < e" using ex by linarith
  then have "ulp y = 2 powi (e - int p)" using assms by (simp add: ulp_eq max_def flip: e_def)
  moreover have "e - int p \<le> e" by simp
  ultimately obtain m where m: "2 powi e = of_int m * ulp y"
    using pow2_split by metis
  have "rnd x \<le> 2 powi e" using rnd_le_multiple [of x n] lex n by simp
  also have "\<dots> \<le> rnd y" using rnd_ge_multiple [of m y] ley m by simp
  finally show ?thesis .
qed

lemma rnd_mono:
  assumes "x \<le> y"
  shows "rnd x \<le> rnd y"
proof -
  consider "0 < x" | "x \<le> 0" "0 \<le> y" | "y < 0" by linarith
  then show ?thesis
  proof cases
    case 1
    then show ?thesis using assms by (rule rnd_mono_pos)
  next
    case 2
    then have "0 \<le> rnd (- x)" "0 \<le> rnd y" by (simp_all add: rnd_nonneg)
    then show ?thesis by (simp add: rnd_minus)
  next
    case 3
    then have "rnd (- y) \<le> rnd (- x)" using assms by (intro rnd_mono_pos) auto
    then show ?thesis by (simp add: rnd_minus)
  qed
qed

lemma rnd_error_le:
  assumes "\<bar>x\<bar> < 2 powi e" "emin < e"
  shows "\<bar>rnd x - x\<bar> \<le> 2 powi (e - 2 - int p)"
proof (cases "x = 0")
  case False
  have "\<bar>rnd x - x\<bar> \<le> ulp x / 2" by (rule rnd_error)
  also have "\<dots> \<le> 2 powi (e - 1 - int p) / 2" using ulp_le [OF assms False] by simp
  also have "\<dots> = 2 powi (e - 2 - int p)"
    using power_int_diff [of "2::real" "e - 1 - int p" 1] by (simp add: algebra_simps)
  finally show ?thesis .
qed (simp add: rnd_zero)

end

text \<open>The two widths.\<close>

interpretation b64: float_format ulp64 rnd64 52 "- 1022"
  by unfold_locales (simp_all add: ulp64_def rnd64_def)

interpretation b32: float_format ulp32 rnd32 23 "- 126"
  by unfold_locales (simp_all add: ulp32_def rnd32_def)

lemmas ulp64_pos [simp] = b64.ulp_pos
lemmas ulp64_neq_0 [simp] = b64.ulp_nonzero
lemmas ulp64_minus [simp] = b64.ulp_minus
lemmas ulp64_mono = b64.ulp_mono
lemmas rnd64_0 [simp] = b64.rnd_zero
lemmas rnd32_0 [simp] = b32.rnd_zero
lemmas rnd64_minus = b64.rnd_minus
lemmas rnd64_error = b64.rnd_error
lemmas rnd64_multiple = b64.rnd_multiple
lemmas rnd64_idem = b64.rnd_idem
lemmas rnd64_le_multiple = b64.rnd_le_multiple
lemmas rnd64_ge_multiple = b64.rnd_ge_multiple
lemmas rnd64_nonneg = b64.rnd_nonneg
lemmas rnd64_mono = b64.rnd_mono
lemmas rnd32_mono = b32.rnd_mono

lemma ulp64_eqI:
  "2 powi e \<le> \<bar>x\<bar> \<Longrightarrow> \<bar>x\<bar> < 2 powi (e + 1) \<Longrightarrow> -1022 \<le> e \<Longrightarrow> ulp64 x = 2 powi (e - 52)"
  using b64.ulp_eqI by simp

lemma ulp64_le: "\<bar>x\<bar> < 2 powi e \<Longrightarrow> -1021 \<le> e \<Longrightarrow> x \<noteq> 0 \<Longrightarrow> ulp64 x \<le> 2 powi (e - 53)"
  using b64.ulp_le [of x e] by (simp add: algebra_simps)

lemma rnd64_dyadic: "x = of_int m * 2 powi e \<Longrightarrow> \<bar>m\<bar> < 2 ^ 53 \<Longrightarrow> -1074 \<le> e \<Longrightarrow> rnd64 x = x"
  using b64.rnd_dyadic [of x m e] by simp

lemma rnd64_of_int: "\<bar>n\<bar> < 2 ^ 53 \<Longrightarrow> rnd64 (of_int n) = of_int n"
  by (rule rnd64_dyadic [of _ n 0]) auto

lemma rnd32_dyadic: "x = of_int m * 2 powi e \<Longrightarrow> \<bar>m\<bar> < 2 ^ 24 \<Longrightarrow> -149 \<le> e \<Longrightarrow> rnd32 x = x"
  using b32.rnd_dyadic [of x m e] by simp

lemma rnd32_of_int: "\<bar>n\<bar> < 2 ^ 24 \<Longrightarrow> rnd32 (of_int n) = of_int n"
  by (rule rnd32_dyadic [of _ n 0]) auto

text \<open>Bounds by exact values, the form the component proofs use.\<close>

definition f64_exact :: "real \<Rightarrow> bool" where
  "f64_exact x \<longleftrightarrow> rnd64 x = x"

lemma rnd64_le: "x \<le> c \<Longrightarrow> f64_exact c \<Longrightarrow> rnd64 x \<le> c"
  using rnd64_mono [of x c] by (simp add: f64_exact_def)

lemma rnd64_ge: "c \<le> x \<Longrightarrow> f64_exact c \<Longrightarrow> c \<le> rnd64 x"
  using rnd64_mono [of c x] by (simp add: f64_exact_def)

lemma f64_exact_numeral [simp]:
  "numeral k < (2 :: int) ^ 53 \<Longrightarrow> f64_exact (numeral k)"
  "numeral k < (2 :: int) ^ 53 \<Longrightarrow> f64_exact (- numeral k)"
  "f64_exact 0" "f64_exact 1" "f64_exact (- 1)"
  using rnd64_of_int [of "numeral k"] rnd64_of_int [of 1] rnd64_of_int [of "- 1"]
  by (auto simp: f64_exact_def rnd64_minus)

lemma f64_exact_rnd64 [simp]:
  "f64_exact (rnd64 x)" "f64_exact (fadd a b)" "f64_exact (fsub a b)"
  "f64_exact (fmul a b)" "f64_exact (fdiv a b)"
  by (simp_all add: f64_exact_def rnd64_idem fadd_def fsub_def fmul_def fdiv_def)

lemma rnd64_error_le: "\<bar>x\<bar> < 2 powi e \<Longrightarrow> -1021 \<le> e \<Longrightarrow> \<bar>rnd64 x - x\<bar> \<le> 2 powi (e - 54)"
  using b64.rnd_error_le [of x e] by (simp add: algebra_simps)

lemmas f64_ops = fadd_def fsub_def fmul_def fdiv_def

lemma fadd_mono: "a \<le> a' \<Longrightarrow> b \<le> b' \<Longrightarrow> fadd a b \<le> fadd a' b'"
  by (simp add: fadd_def rnd64_mono add_mono)

lemma fsub_mono: "a \<le> a' \<Longrightarrow> fsub a b \<le> fsub a' b"
  by (simp add: fsub_def rnd64_mono)

end
