(* ===== verification/Rng.thy ===== *)
theory Rng
  imports Go_Float
begin

unbundle bit_operations_syntax

text \<open>
  The splitmix64 generator: \<^verbatim>\<open>internal/game/rng.go\<close> and its twin in the client's scenery
  (\<^verbatim>\<open>internal/client/draw/themes.go\<close>). The state is the one \<^verbatim>\<open>uint64\<close> field; \<open>rng_next\<close>
  returns the value and the new state. The lemmas show that the output function is a
  bijection of the 64-bit words, so a stream has the full period, and the ranges of
  \<^verbatim>\<open>Float\<close> and \<^verbatim>\<open>Range\<close> under binary64 rounding.
\<close>

section \<open>The generator\<close>

definition splitmix_gamma :: u64 where
  "splitmix_gamma = 0x9E3779B97F4A7C15"

definition rng_next :: "u64 \<Rightarrow> u64 \<times> u64" where
  "rng_next state =
     (let state = state + splitmix_gamma;
          z = state;
          z = (z XOR drop_bit 30 z) * 0xBF58476D1CE4E5B9;
          z = (z XOR drop_bit 27 z) * 0x94D049BB133111EB
      in (z XOR drop_bit 31 z, state))"

definition rng_float :: "u64 \<Rightarrow> f64 \<times> u64" where
  "rng_float state = (let (v, state) = rng_next state
     in (fdiv (rnd64 (real (unat (drop_bit 11 v)))) (2 ^ 53), state))"

definition rng_range :: "f64 \<Rightarrow> f64 \<Rightarrow> u64 \<Rightarrow> f64 \<times> u64" where
  "rng_range lo hi state = (let (f, state) = rng_float state
     in (fadd lo (fmul (fsub hi lo) f), state))"

text \<open>The scenery's local copy of the generator.\<close>

definition mix_next :: "u64 \<Rightarrow> u64 \<times> u64" where
  "mix_next m =
     (let m = m + 0x9E3779B97F4A7C15;
          z = m;
          z = (z XOR drop_bit 30 z) * 0xBF58476D1CE4E5B9;
          z = (z XOR drop_bit 27 z) * 0x94D049BB133111EB
      in (z XOR drop_bit 31 z, m))"

text \<open>The first \<open>n\<close> values of a stream, with the state left behind.\<close>

fun rng_stream :: "nat \<Rightarrow> u64 \<Rightarrow> u64 list \<times> u64" where
  "rng_stream 0 s = ([], s)"
| "rng_stream (Suc n) s = (let (v, s) = rng_next s; (vs, s) = rng_stream n s in (v # vs, s))"

section \<open>The output function is a bijection\<close>

lemma unat_drop_bit: "unat (drop_bit k (w :: u64)) = unat w div 2 ^ k"
  by (subst unat_drop_bit_eq) (rule drop_bit_eq_div)

lemma xorshift_inj:
  fixes x y :: u64
  assumes "x XOR drop_bit k x = y XOR drop_bit k y" "0 < k"
  shows "x = y"
proof -
  let ?d = "x XOR y"
  have e: "x XOR y = drop_bit k x XOR drop_bit k y"
  proof (rule bit_eqI)
    fix n
    have "bit (x XOR drop_bit k x) n = bit (y XOR drop_bit k y) n" using assms(1) by simp
    then show "bit (x XOR y) n = bit (drop_bit k x XOR drop_bit k y) n"
      by (auto simp: bit_simps)
  qed
  have "?d = drop_bit k ?d" unfolding drop_bit_xor by (rule e)
  then have n: "unat ?d = unat ?d div 2 ^ k" by (metis unat_drop_bit)
  have "unat ?d = 0"
  proof (rule ccontr)
    assume "unat ?d \<noteq> 0"
    moreover have "(1::nat) < 2 ^ k" using assms(2) by (intro one_less_power) auto
    ultimately have "unat ?d div 2 ^ k < unat ?d" by (intro div_less_dividend) auto
    with n show False by simp
  qed
  then have d: "?d = 0" by (simp add: unat_eq_0)
  show ?thesis
  proof (rule bit_eqI)
    fix n
    have "\<not> bit (x XOR y) n" using d by simp
    then show "bit x n = bit y n" by (simp add: bit_xor_iff)
  qed
qed

text \<open>An odd multiplier has an inverse, so multiplication by it is injective.\<close>

lemma mult_inj:
  fixes a b :: u64
  assumes "x * a = y * a" "a * b = 1"
  shows "x = y"
proof -
  have "x = (x * a) * b" using assms(2) by (simp add: mult.assoc)
  also have "\<dots> = y" using assms by (simp add: mult.assoc)
  finally show ?thesis .
qed

lemma splitmix_inverses:
  "(0xBF58476D1CE4E5B9 :: u64) * 10871156337175269513 = 1"
  "(0x94D049BB133111EB :: u64) * 3573116690164977347 = 1"
  "splitmix_gamma * 17428512612931826493 = 1"
  by (simp_all add: splitmix_gamma_def)

lemma rng_next_inj: "fst (rng_next s) = fst (rng_next t) \<Longrightarrow> s = t"
  unfolding rng_next_def Let_def fst_conv
  by (drule xorshift_inj, simp, drule mult_inj [OF _ splitmix_inverses(2)],
      drule xorshift_inj, simp, drule mult_inj [OF _ splitmix_inverses(1)],
      drule xorshift_inj, simp_all)

lemma rng_next_surj: "\<exists>s. fst (rng_next s) = v"
proof -
  have "inj (\<lambda>s. fst (rng_next s))" by (auto intro: injI rng_next_inj)
  then have "surj (\<lambda>s. fst (rng_next s))" by (rule finite_UNIV_inj_surj [OF finite])
  then show ?thesis by (metis surjD)
qed

lemma rng_next_state: "snd (rng_next s) = s + splitmix_gamma"
  by (simp add: rng_next_def Let_def)

lemma rng_stream_nth:
  "i < n \<Longrightarrow> fst (rng_stream n s) ! i = fst (rng_next (s + of_nat i * splitmix_gamma))"
proof (induction n arbitrary: s i)
  case (Suc n)
  have "fst (rng_stream (Suc n) s)
      = fst (rng_next s) # fst (rng_stream n (s + splitmix_gamma))"
    by (simp add: case_prod_unfold Let_def rng_next_state)
  with Suc show ?case
    by (cases i) (simp_all add: algebra_simps)
qed simp

lemma rng_stream_length: "length (fst (rng_stream n s)) = n"
  by (induction n arbitrary: s) (simp_all add: case_prod_unfold Let_def)

lemma of_nat_u64_inj: "(of_nat i :: u64) = of_nat j \<Longrightarrow> i < 2 ^ 64 \<Longrightarrow> j < 2 ^ 64 \<Longrightarrow> i = j"
  by (simp add: word_of_nat_eq_iff take_bit_nat_eq_self)

lemma rng_stream_distinct: "n \<le> 2 ^ 64 \<Longrightarrow> distinct (fst (rng_stream n s))"
proof (unfold distinct_conv_nth rng_stream_length, intro allI impI)
  fix i j assume n: "n \<le> 2 ^ 64" and i: "i < n" and j: "j < n" and ne: "i \<noteq> j"
  show "fst (rng_stream n s) ! i \<noteq> fst (rng_stream n s) ! j"
  proof
    assume "fst (rng_stream n s) ! i = fst (rng_stream n s) ! j"
    then have "(of_nat i :: u64) * splitmix_gamma = of_nat j * splitmix_gamma"
      using rng_next_inj rng_stream_nth [OF i] rng_stream_nth [OF j] by force
    then have "(of_nat i :: u64) = of_nat j" by (rule mult_inj [OF _ splitmix_inverses(3)])
    with n i j ne show False using of_nat_u64_inj [of i j] by simp
  qed
qed

section \<open>Ranges\<close>

lemma rng_float_exact:
  "fst (rng_float s) = real (unat (drop_bit 11 (fst (rng_next s)))) / 2 ^ 53"
  "unat (drop_bit 11 (fst (rng_next s))) < 2 ^ 53"
proof -
  define n where "n = unat (drop_bit 11 (fst (rng_next s)))"
  have "unat (fst (rng_next s)) < 2 ^ 64" using unsigned_less [of "fst (rng_next s)"] by simp
  then have n: "n < 2 ^ 53" by (simp add: n_def unat_drop_bit)
  then show "unat (drop_bit 11 (fst (rng_next s))) < 2 ^ 53" by (simp only: n_def)
  have "rnd64 (real n) = real n" using rnd64_of_int [of "int n"] n by simp
  moreover have "rnd64 (real n / 2 ^ 53) = real n / 2 ^ 53"
  proof (rule rnd64_dyadic [of _ "int n" "-53"])
    show "\<bar>int n\<bar> < 2 ^ 53" using n by simp
  qed (simp_all add: power_int_minus_divide)
  moreover have "fst (rng_float s) = rnd64 (rnd64 (real n) / 2 ^ 53)"
    by (simp only: rng_float_def case_prod_unfold Let_def fst_conv fdiv_def n_def)
  ultimately have "fst (rng_float s) = real n / 2 ^ 53" by (simp only:)
  then show "fst (rng_float s) = real (unat (drop_bit 11 (fst (rng_next s)))) / 2 ^ 53"
    by (simp only: n_def)
qed

lemma rng_float_range: "0 \<le> fst (rng_float s)" "fst (rng_float s) < 1"
proof -
  define n where "n = unat (drop_bit 11 (fst (rng_next s)))"
  have f: "fst (rng_float s) = real n / 2 ^ 53" and "n < 2 ^ 53"
    using rng_float_exact [of s] by (simp_all only: n_def)
  then have "real n < real (2 ^ 53)" by (simp only: of_nat_less_iff)
  then show "fst (rng_float s) < 1" by (simp add: f divide_less_eq)
  show "0 \<le> fst (rng_float s)" by (simp add: f)
qed

lemma rng_range_bounds:
  assumes "lo \<le> hi" "f64_exact lo" "f64_exact hi" "f64_exact (hi - lo)"
  shows "lo \<le> fst (rng_range lo hi s)" "fst (rng_range lo hi s) \<le> hi"
proof -
  define f where "f = fst (rng_float s)"
  have f: "0 \<le> f" "f \<le> 1" using rng_float_range [of s] by (auto simp: f_def)
  have d: "fsub hi lo = hi - lo" using assms(4) by (simp add: fsub_def f64_exact_def)
  have "0 \<le> (hi - lo) * f" "(hi - lo) * f \<le> hi - lo"
    using f assms(1) by (auto simp: mult_left_le)
  then have m: "0 \<le> fmul (hi - lo) f" "fmul (hi - lo) f \<le> hi - lo"
    using assms(4) by (auto simp: fmul_def rnd64_nonneg intro: rnd64_le)
  have r: "fst (rng_range lo hi s) = fadd lo (fmul (hi - lo) f)"
    by (simp add: rng_range_def case_prod_unfold Let_def d f_def)
  show "lo \<le> fst (rng_range lo hi s)" unfolding r fadd_def
    using m assms(2) by (intro rnd64_ge) auto
  show "fst (rng_range lo hi s) \<le> hi" unfolding r fadd_def
    using m assms(3) by (intro rnd64_le) auto
qed

end
