(* ===== verification/Protocol.thy ===== *)
theory Protocol
  imports Rng Go_Strings
begin

text \<open>
  \<^verbatim>\<open>internal/protocol\<close>, the leaf package shared by server and client: the tuning
  constants (\<^verbatim>\<open>const.go\<close>; untyped constants are rounded to binary64 where the code uses
  them as \<^verbatim>\<open>float64\<close>), themes, birds, wire messages and the username rule. JSON is not
  modelled: a frame is the value it carries, since \<^verbatim>\<open>mustMarshal\<close> is injective on it.
\<close>

section \<open>Constants\<close>

definition CanvasW :: int where [simp]: "CanvasW = 480"
definition CanvasH :: int where [simp]: "CanvasH = 800"
definition ViewMinW :: int where [simp]: "ViewMinW = 360"
definition ViewMaxW :: int where [simp]: "ViewMaxW = 3200"

definition TickHz :: int where [simp]: "TickHz = 60"
definition Gravity :: f64 where "Gravity = rnd64 (42 / 100)"
definition FlapImpulse :: f64 where "FlapImpulse = rnd64 (- (72 / 10))"
definition TerminalVel :: f64 where [simp]: "TerminalVel = 8"
definition BirdX :: f64 where [simp]: "BirdX = 120"
definition BirdRadius :: f64 where [simp]: "BirdRadius = 11"
definition PipeWidth :: f64 where [simp]: "PipeWidth = 80"
definition PipeGap :: f64 where [simp]: "PipeGap = 156"
definition PipeSpacing :: f64 where [simp]: "PipeSpacing = 260"
definition ScrollSpeed :: f64 where "ScrollSpeed = rnd64 (31 / 10)"
definition FirstPipeX :: f64 where [simp]: "FirstPipeX = 440"
definition GapYMin :: f64 where [simp]: "GapYMin = 168"
definition GapYMax :: f64 where [simp]: "GapYMax = 552"
definition MaxGapDelta :: f64 where [simp]: "MaxGapDelta = 240"
definition GroundY :: f64 where [simp]: "GroundY = 720"
definition CeilingY :: f64 where [simp]: "CeilingY = 11"
definition SpawnY :: f64 where [simp]: "SpawnY = 400"
definition FlapAnimTicks :: u64 where [simp]: "FlapAnimTicks = 12"

definition RampEveryTicks :: u64 where [simp]: "RampEveryTicks = 900"
definition RampSpeedMult :: f64 where [simp]: "RampSpeedMult = 17 / 16"
definition RampSpeedCap :: f64 where "RampSpeedCap = rnd64 (465 / 100)"
definition RampGapShrink :: f64 where [simp]: "RampGapShrink = 2"
definition RampGapFloor :: f64 where [simp]: "RampGapFloor = 144"
definition MaxRaceTicks :: u64 where [simp]: "MaxRaceTicks = 120 * 60"

definition SnapshotHz :: int where [simp]: "SnapshotHz = 30"
definition InterpDelayMs :: int where [simp]: "InterpDelayMs = 90"
definition SnapGapMs :: int where [simp]: "SnapGapMs = 150"
definition RingLen :: nat where [simp]: "RingLen = 8"

definition MaxPlayers :: int where [simp]: "MaxPlayers = 64"
definition MaxNameLen :: nat where [simp]: "MaxNameLen = 16"
definition FlapRateLimit :: int where [simp]: "FlapRateLimit = 20"
definition MaxTopEntries :: nat where [simp]: "MaxTopEntries = 50"
definition MaxLeaderboardRows :: nat where [simp]: "MaxLeaderboardRows = 8"

text \<open>The race states, \<^verbatim>\<open>uint8\<close> constants on the wire.\<close>

datatype race_state = StWaiting | StCountdown | StRacing | StFinished

lemma Gravity_bounds: "41 / 100 \<le> Gravity" "Gravity \<le> 43 / 100"
  and FlapImpulse_bounds: "- 8 \<le> FlapImpulse" "FlapImpulse \<le> - 7"
  and ScrollSpeed_bounds: "3 \<le> ScrollSpeed" "ScrollSpeed \<le> 4"
  and RampSpeedCap_bounds: "4 \<le> RampSpeedCap" "RampSpeedCap \<le> 5" "ScrollSpeed \<le> RampSpeedCap"
  unfolding Gravity_def FlapImpulse_def ScrollSpeed_def RampSpeedCap_def
  by (code_simp)+

section \<open>Themes\<close>

type_synonym Theme = u8

definition ThemeDesert :: Theme where [simp]: "ThemeDesert = 0"
definition ThemeClouds :: Theme where [simp]: "ThemeClouds = 1"
definition ThemeForest :: Theme where [simp]: "ThemeForest = 2"
definition ThemeUnderwater :: Theme where [simp]: "ThemeUnderwater = 3"
definition ThemeCount :: Theme where [simp]: "ThemeCount = 4"

definition theme_valid :: "Theme \<Rightarrow> bool" where
  "theme_valid t \<longleftrightarrow> t < ThemeCount"

definition theme_string :: "Theme \<Rightarrow> string" where
  "theme_string t =
     (if t = ThemeDesert then ''desert''
      else if t = ThemeClouds then ''clouds''
      else if t = ThemeForest then ''forest''
      else if t = ThemeUnderwater then ''underwater''
      else ''unknown'')"

definition ThemeFromString :: "string \<Rightarrow> Theme \<times> bool" where
  "ThemeFromString s =
     (if s = ''desert'' then (ThemeDesert, True)
      else if s = ''clouds'' then (ThemeClouds, True)
      else if s = ''forest'' then (ThemeForest, True)
      else if s = ''underwater'' then (ThemeUnderwater, True)
      else (0, False))"

lemma theme_valid_cases: "theme_valid t \<Longrightarrow> t = 0 \<or> t = 1 \<or> t = 2 \<or> t = 3"
proof -
  assume "theme_valid t"
  then have "unat t < 4" by (simp add: theme_valid_def word_less_nat_alt)
  then have "unat t = 0 \<or> unat t = 1 \<or> unat t = 2 \<or> unat t = 3" by linarith
  then have "unat t = unat (0 :: u8) \<or> unat t = unat (1 :: u8)
      \<or> unat t = unat (2 :: u8) \<or> unat t = unat (3 :: u8)" by simp
  then show ?thesis by (simp only: word_unat_eq_iff)
qed

section \<open>Birds\<close>

record Bird =
  Palette :: u8
  Accessory :: u8

definition PaletteCount :: u64 where [simp]: "PaletteCount = 12"
definition AccessoryCount :: u64 where [simp]: "AccessoryCount = 4"

definition bird_valid :: "Bird \<Rightarrow> bool" where
  "bird_valid b \<longleftrightarrow> Palette b < 12 \<and> Accessory b < 4"

definition draw_bird :: "('s \<Rightarrow> u64 \<times> 's) \<Rightarrow> 's \<Rightarrow> Bird \<times> 's" where
  "draw_bird next s = (let (p, s) = next s; (a, s) = next s
     in (\<lparr>Palette = ucast (p mod PaletteCount), Accessory = ucast (a mod AccessoryCount)\<rparr>, s))"

text \<open>The loop of \<^verbatim>\<open>RandomBird\<close> with \<open>n\<close> tries left; \<open>taken\<close> may be nil.\<close>

fun random_bird_loop ::
  "nat \<Rightarrow> ('s \<Rightarrow> u64 \<times> 's) \<Rightarrow> (Bird \<Rightarrow> bool) option \<Rightarrow> 's \<Rightarrow> Bird \<times> 's" where
  "random_bird_loop 0 next taken s = draw_bird next s"
| "random_bird_loop (Suc n) next taken s =
     (let (b, s) = draw_bird next s in
      if (case taken of None \<Rightarrow> True | Some f \<Rightarrow> \<not> f b) then (b, s)
      else random_bird_loop n next taken s)"

definition RandomBird :: "('s \<Rightarrow> u64 \<times> 's) \<Rightarrow> (Bird \<Rightarrow> bool) option \<Rightarrow> 's \<Rightarrow> Bird \<times> 's" where
  "RandomBird next taken s = random_bird_loop 32 next taken s"

lemma ucast_mod_less:
  fixes v :: u64 and n :: nat
  assumes "0 < n" "n < 256"
  shows "unat (ucast (v mod word_of_nat n) :: u8) < n"
proof -
  have n: "unat (word_of_nat n :: u64) = n"
    using assms by (simp add: unat_of_nat)
  have lt: "unat (v mod word_of_nat n) < n"
    using assms n by (simp add: unat_mod_distrib)
  have "unat (ucast (v mod word_of_nat n) :: u8) = unat (v mod word_of_nat n) mod 256"
    by (simp add: unsigned_ucast_eq take_bit_eq_mod)
  also have "\<dots> \<le> unat (v mod word_of_nat n)" by (rule mod_less_eq_dividend)
  finally show ?thesis using lt by linarith
qed

lemma draw_bird_valid: "bird_valid (fst (draw_bird next s))"
  using ucast_mod_less [of 12] ucast_mod_less [of 4]
  by (simp add: draw_bird_def bird_valid_def case_prod_unfold Let_def word_less_nat_alt)

lemma random_bird_loop_valid: "bird_valid (fst (random_bird_loop n next taken s))"
  by (induction n arbitrary: s) (simp_all add: draw_bird_valid case_prod_unfold Let_def)

section \<open>Wire values\<close>

record BirdSnap =
  bs_ID :: u64
  bs_Name :: string
  bs_Y :: f64
  bs_Vy :: f64
  bs_Score :: int
  bs_Dead :: bool
  bs_Left :: bool
  bs_Flap :: bool
  bs_Pal :: u8
  bs_Acc :: u8

record PipeSnap =
  ps_ID :: u64
  ps_X :: f64
  ps_G :: f64
  ps_H :: f64

record ResultSnap =
  rs_ID :: u64
  rs_Name :: string
  rs_Score :: int
  rs_Rank :: int
  rs_Left :: bool

record Snapshot =
  sn_Now :: int
  sn_Tick :: u64
  sn_St :: race_state
  sn_GoAt :: int
  sn_Theme :: u8
  sn_Seed :: u64
  sn_Dist :: f64
  sn_Wait :: int
  sn_Birds :: "BirdSnap list"
  sn_Pipes :: "PipeSnap list"
  sn_Res :: "ResultSnap list"

text \<open>\<^verbatim>\<open>time.Time\<close> values are the Unix milliseconds they are built from.\<close>

record TopEntry =
  te_Name :: string
  te_Score :: int
  te_Theme :: string
  te_At :: int

record WelcomeMsg =
  wm_You :: u64
  wm_Name :: string
  wm_Bird :: Bird
  wm_Now :: int
  wm_St :: race_state
  wm_GoAt :: int
  wm_Theme :: u8
  wm_Seed :: u64
  wm_Spect :: bool

text \<open>The server's frames, tagged on the wire by \<^verbatim>\<open>TWelcome\<close>, \<^verbatim>\<open>TSnapshot\<close>, \<^verbatim>\<open>TError\<close>.\<close>

datatype frame = FWelcome WelcomeMsg | FSnapshot Snapshot | FError string

section \<open>The username rule\<close>

definition trim_spaces :: "nat list \<Rightarrow> nat list" where
  "trim_spaces name = rev (dropWhile is_space (rev (dropWhile is_space name)))"

definition ValidateName :: "(nat \<Rightarrow> bool) \<Rightarrow> string \<Rightarrow> string \<times> bool" where
  "ValidateName tbl s = (let name = trim_spaces (runes s) in
     if length name = 0 \<or> length name > MaxNameLen then (of_runes name, False)
     else if list_ex (\<lambda>r. \<not> is_print tbl r) name then (of_runes name, False)
     else (of_runes name, True))"

lemma trim_spaces_set: "set (trim_spaces xs) \<subseteq> set xs"
  by (auto simp: trim_spaces_def dest!: set_dropWhileD)

lemma list_all_trim_spaces: "list_all P xs \<Longrightarrow> list_all P (trim_spaces xs)"
  using trim_spaces_set [of xs] by (auto simp: list_all_iff)

lemma dropWhile_idem: "dropWhile P (dropWhile P xs) = dropWhile P xs"
  by (induction xs) auto

lemma dropWhile_rev_dropWhile_rev:
  "dropWhile P xs = xs \<Longrightarrow> dropWhile P (rev (dropWhile P (rev xs))) = rev (dropWhile P (rev xs))"
proof (cases xs)
  case (Cons a ys)
  assume "dropWhile P xs = xs"
  with Cons have na: "\<not> P a" by (metis dropWhile_eq_Cons_conv hd_Cons_tl list.distinct(1) list.inject)
  have "dropWhile P (rev ys @ [a]) = dropWhile P (rev ys) @ [a]"
    using na by (induction "rev ys" arbitrary: ys rule: list.induct)
      (simp, simp add: dropWhile_append)
  with na Cons show ?thesis by simp
qed simp

lemma trim_spaces_idem: "trim_spaces (trim_spaces xs) = trim_spaces xs"
  unfolding trim_spaces_def
  by (subst dropWhile_rev_dropWhile_rev) (simp_all add: dropWhile_idem)

text \<open>The runes of an accepted name: the cleaned input.\<close>

lemma runes_ValidateName: "runes (fst (ValidateName tbl s)) = trim_spaces (runes s)"
  by (simp add: ValidateName_def Let_def runes_of_runes list_all_trim_spaces runes_valid)

lemma ValidateName_ok_iff:
  "snd (ValidateName tbl s) \<longleftrightarrow> (let name = trim_spaces (runes s) in
     name \<noteq> [] \<and> length name \<le> MaxNameLen \<and> list_all (is_print tbl) name)"
  by (auto simp: ValidateName_def Let_def list_all_iff list_ex_iff)

text \<open>An accepted name is a fixed point of the rule.\<close>

lemma ValidateName_fixed:
  assumes "snd (ValidateName tbl s)"
  shows "ValidateName tbl (fst (ValidateName tbl s)) = (fst (ValidateName tbl s), True)"
proof -
  let ?v = "fst (ValidateName tbl s)"
  have e: "fst (ValidateName tbl x) = of_runes (trim_spaces (runes x))" for x
    by (simp add: ValidateName_def Let_def)
  have t: "trim_spaces (runes ?v) = trim_spaces (runes s)" by (simp add: runes_ValidateName trim_spaces_idem)
  have "snd (ValidateName tbl ?v)" using assms by (simp add: ValidateName_ok_iff Let_def t)
  moreover have "fst (ValidateName tbl ?v) = ?v" unfolding e [of ?v] t by (rule e [symmetric])
  ultimately show ?thesis by (simp add: prod_eq_iff)
qed

lemma ValidateName_nonempty:
  assumes "snd (ValidateName tbl s)"
  shows "fst (ValidateName tbl s) \<noteq> []"
proof
  assume "fst (ValidateName tbl s) = []"
  then have "trim_spaces (runes s) = []" using runes_ValidateName [of tbl s] by simp
  then show False using assms by (simp add: ValidateName_ok_iff)
qed

end
