(* ===== verification/World.thy ===== *)
theory World
  imports Protocol
begin

text \<open>
  \<^verbatim>\<open>internal/game/world.go\<close>: the authoritative 60 Hz simulation. The world is a record, the
  map of birds a finite map from ids, and \<open>Step\<close> runs the code's phases in its order: ramp,
  impulses and physics, scrolling, spawning ahead, then collisions and scoring. A bird missing
  from the map would be a nil dereference and the spawn loop has no static bound, so the
  functions that touch them return an option; the invariant below shows they always return.
\<close>

section \<open>State\<close>

record BirdState =
  b_ID :: u64
  b_Name :: string
  b_Pal :: u8
  b_Acc :: u8
  b_Y :: f64
  b_Vy :: f64
  b_Score :: int
  b_Dead :: bool
  b_DeathTick :: u64
  b_Left :: bool
  b_LastFlap :: u64
  b_NextPipeID :: u64

record Pipe =
  p_ID :: u64
  p_X :: f64
  p_GapY :: f64
  p_GapH :: f64

record World =
  w_Tick :: u64
  w_Scroll :: f64
  w_Gap :: f64
  w_Dist :: f64
  w_Pipes :: "Pipe list"
  w_Order :: "u64 list"
  w_Birds :: "(u64, BirdState) fmap"
  w_rng :: u64
  w_nextPipeID :: u64
  w_lastGapY :: f64

definition NewWorld :: "u64 \<Rightarrow> World" where
  "NewWorld seed = \<lparr>w_Tick = 0, w_Scroll = ScrollSpeed, w_Gap = PipeGap, w_Dist = 0, w_Pipes = [],
     w_Order = [], w_Birds = fmempty, w_rng = seed, w_nextPipeID = 0, w_lastGapY = SpawnY\<rparr>"

section \<open>Racers\<close>

definition AddBird :: "u64 \<Rightarrow> string \<Rightarrow> u8 \<Rightarrow> u8 \<Rightarrow> World \<Rightarrow> World" where
  "AddBird i name pal acc w =
     (if i |\<in>| fmdom (w_Birds w) then w
      else w\<lparr>w_Birds := fmupd i \<lparr>b_ID = i, b_Name = name, b_Pal = pal, b_Acc = acc,
                 b_Y = SpawnY, b_Vy = 0, b_Score = 0, b_Dead = False, b_DeathTick = 0,
                 b_Left = False, b_LastFlap = 0, b_NextPipeID = 1\<rparr> (w_Birds w),
             w_Order := w_Order w @ [i]\<rparr>)"

definition RemoveBird :: "u64 \<Rightarrow> World \<Rightarrow> World" where
  "RemoveBird i w =
     (if i |\<notin>| fmdom (w_Birds w) then w
      else w\<lparr>w_Birds := fmdrop i (w_Birds w), w_Order := remove1 i (w_Order w)\<rparr>)"

definition KillLeft :: "u64 \<Rightarrow> World \<Rightarrow> World" where
  "KillLeft i w = (case fmlookup (w_Birds w) i of
       None \<Rightarrow> w
     | Some b \<Rightarrow> if b_Dead b then w
        else w\<lparr>w_Birds := fmupd i (b\<lparr>b_Dead := True, b_Left := True, b_DeathTick := w_Tick w\<rparr>)
                          (w_Birds w)\<rparr>)"

definition Alive :: "World \<Rightarrow> nat" where
  "Alive w = fcard (ffilter (\<lambda>i. \<not> b_Dead (the (fmlookup (w_Birds w) i))) (fmdom (w_Birds w)))"

definition RacerCount :: "World \<Rightarrow> nat" where
  "RacerCount w = fcard (fmdom (w_Birds w))"

definition IsRacer :: "World \<Rightarrow> u64 \<Rightarrow> bool" where
  "IsRacer w i \<longleftrightarrow> i |\<in>| fmdom (w_Birds w)"

section \<open>One tick\<close>

definition clampf :: "f64 \<Rightarrow> f64 \<Rightarrow> f64 \<Rightarrow> f64" where
  "clampf v lo hi = (if v < lo then lo else if v > hi then hi else v)"

text \<open>The tick counter and the difficulty ramp.\<close>

definition ramp :: "World \<Rightarrow> World" where
  "ramp w = (let w = w\<lparr>w_Tick := w_Tick w + 1\<rparr> in
     if w_Tick w mod RampEveryTicks = 0
     then w\<lparr>w_Scroll := min (fmul (w_Scroll w) RampSpeedMult) RampSpeedCap,
            w_Gap := max (fsub (w_Gap w) RampGapShrink) RampGapFloor\<rparr>
     else w)"

text \<open>Impulse and physics of one bird.\<close>

definition fly :: "u64 \<Rightarrow> u64 fset \<Rightarrow> u64 \<Rightarrow> BirdState \<Rightarrow> BirdState" where
  "fly tick flaps i b =
     (if b_Dead b then b else
      let b = (if i |\<in>| flaps then b\<lparr>b_Vy := FlapImpulse, b_LastFlap := tick\<rparr> else b);
          b = b\<lparr>b_Vy := min (fadd (b_Vy b) Gravity) TerminalVel\<rparr>;
          b = b\<lparr>b_Y := fadd (b_Y b) (b_Vy b)\<rparr>
      in if b_Y b < CeilingY
         then (let b = b\<lparr>b_Y := CeilingY\<rparr> in if b_Vy b < 0 then b\<lparr>b_Vy := 0\<rparr> else b)
         else b)"

text \<open>Scrolling drops the pipes that have fully passed.\<close>

definition scroll :: "World \<Rightarrow> World" where
  "scroll w = w\<lparr>w_Pipes := filter (\<lambda>p. p_X p > - PipeWidth)
                             (map (\<lambda>p. p\<lparr>p_X := fsub (p_X p) (w_Scroll w)\<rparr>) (w_Pipes w)),
                w_Dist := fadd (w_Dist w) (w_Scroll w)\<rparr>"

definition spawnPipe :: "f64 \<Rightarrow> World \<Rightarrow> World" where
  "spawnPipe x w =
     (let (g, rng) = rng_range GapYMin GapYMax (w_rng w);
          g = clampf g (fsub (w_lastGapY w) MaxGapDelta) (fadd (w_lastGapY w) MaxGapDelta);
          g = clampf g GapYMin GapYMax;
          next = w_nextPipeID w + 1
      in w\<lparr>w_rng := rng, w_lastGapY := g, w_nextPipeID := next,
           w_Pipes := w_Pipes w @ [\<lparr>p_ID = next, p_X = x, p_GapY = g, p_GapH = w_Gap w\<rparr>]\<rparr>)"

definition nextX :: "World \<Rightarrow> f64" where
  "nextX w = (if w_Pipes w = [] then FirstPipeX else fadd (p_X (last (w_Pipes w))) PipeSpacing)"

partial_function (option) spawn_ahead :: "World \<Rightarrow> World option" where
  "spawn_ahead w =
     (if nextX w \<ge> of_int ViewMaxW + PipeSpacing then Some w
      else spawn_ahead (spawnPipe (nextX w) w))"

definition circleRect :: "f64 \<Rightarrow> f64 \<Rightarrow> f64 \<Rightarrow> f64 \<Rightarrow> f64 \<Rightarrow> f64 \<Rightarrow> f64 \<Rightarrow> bool" where
  "circleRect cx cy r x0 y0 x1 y1 =
     (let px = clampf cx x0 x1; py = clampf cy y0 y1;
          dx = fsub cx px; dy = fsub cy py
      in fadd (fmul dx dx) (fmul dy dy) < fmul r r)"

definition kill :: "u64 \<Rightarrow> BirdState \<Rightarrow> BirdState" where
  "kill tick b = b\<lparr>b_Dead := True, b_DeathTick := tick\<rparr>"

definition hits :: "f64 \<Rightarrow> Pipe \<Rightarrow> bool" where
  "hits y p =
     (if p_X p > BirdX + BirdRadius \<or> fadd (p_X p) PipeWidth < BirdX - BirdRadius then False
      else let top = fsub (p_GapY p) (fdiv (p_GapH p) 2);
               bot = fadd (p_GapY p) (fdiv (p_GapH p) 2)
           in circleRect BirdX y BirdRadius (p_X p) 0 (fadd (p_X p) PipeWidth) top
            \<or> circleRect BirdX y BirdRadius (p_X p) bot (fadd (p_X p) PipeWidth) GroundY)"

definition score_pipe :: "BirdState \<Rightarrow> Pipe \<Rightarrow> BirdState" where
  "score_pipe b p =
     (if p_ID p = b_NextPipeID b \<and> fadd (p_X p) PipeWidth < BirdX - BirdRadius
      then b\<lparr>b_Score := b_Score b + 1, b_NextPipeID := b_NextPipeID b + 1\<rparr> else b)"

text \<open>Ground, pipes, then scoring for a survivor.\<close>

definition settle :: "u64 \<Rightarrow> Pipe list \<Rightarrow> u64 \<Rightarrow> BirdState \<Rightarrow> BirdState" where
  "settle tick pipes i b =
     (if b_Dead b then b
      else if fadd (b_Y b) BirdRadius \<ge> GroundY then kill tick b
      else if list_ex (hits (b_Y b)) pipes then kill tick b
      else foldl score_pipe b pipes)"

definition Step :: "u64 fset \<Rightarrow> World \<Rightarrow> World option" where
  "Step flaps w = do {
     let w = ramp w;
     birds \<leftarrow> update_each (fly (w_Tick w) flaps) (w_Order w) (w_Birds w);
     let w = scroll (w\<lparr>w_Birds := birds\<rparr>);
     w \<leftarrow> spawn_ahead w;
     birds \<leftarrow> update_each (settle (w_Tick w) (w_Pipes w)) (w_Order w) (w_Birds w);
     Some (w\<lparr>w_Birds := birds\<rparr>)
   }"

section \<open>Snapshots\<close>

definition round2 :: "f64 \<Rightarrow> f64" where
  "round2 v = fdiv (rnd64 (of_int (go_trunc (fadd (fmul v 100) (1 / 2))))) 100"

definition bird_snap :: "u64 \<Rightarrow> BirdState \<Rightarrow> BirdSnap" where
  "bird_snap tick b = \<lparr>bs_ID = b_ID b, bs_Name = b_Name b, bs_Y = round2 (b_Y b),
     bs_Vy = round2 (b_Vy b), bs_Score = b_Score b, bs_Dead = b_Dead b, bs_Left = b_Left b,
     bs_Flap = (b_LastFlap b \<noteq> 0 \<and> tick - b_LastFlap b < FlapAnimTicks),
     bs_Pal = b_Pal b, bs_Acc = b_Acc b\<rparr>"

definition BirdSnaps :: "World \<Rightarrow> BirdSnap list option" where
  "BirdSnaps w = those (map (\<lambda>i. map_option (bird_snap (w_Tick w)) (fmlookup (w_Birds w) i))
                            (w_Order w))"

definition pipe_snap :: "Pipe \<Rightarrow> PipeSnap" where
  "pipe_snap p = \<lparr>ps_ID = p_ID p, ps_X = round2 (p_X p), ps_G = round2 (p_GapY p),
     ps_H = round2 (p_GapH p)\<rparr>"

fun pipe_snaps :: "Pipe list \<Rightarrow> PipeSnap list" where
  "pipe_snaps [] = []"
| "pipe_snaps (p # ps) =
     (if p_X p \<le> - PipeWidth then pipe_snaps ps
      else if p_X p \<ge> of_int ViewMaxW + 2 * PipeSpacing then []
      else pipe_snap p # pipe_snaps ps)"

definition PipeSnaps :: "World \<Rightarrow> PipeSnap list" where
  "PipeSnaps w = pipe_snaps (w_Pipes w)"

end
