(* ===== verification/World_Inv.thy ===== *)
theory World_Inv
  imports World
begin

text \<open>
  The invariant of a running world and its preservation by every operation of
  \<^verbatim>\<open>internal/game/world.go\<close>: the pipe list (positions sorted, ids consecutive, gaps inside
  the playfield and close to their neighbours), the birds (position, speed and score bounds, and
  a live bird's score as the number of pipes that have passed it), and the totality of one tick.
\<close>

section \<open>Invariants\<close>

definition passed :: "Pipe \<Rightarrow> bool" where
  "passed p \<longleftrightarrow> fadd (p_X p) PipeWidth < BirdX - BirdRadius"

definition pipe_ok :: "Pipe \<Rightarrow> bool" where
  "pipe_ok p \<longleftrightarrow> - PipeWidth < p_X p \<and> p_X p < of_int ViewMaxW + PipeSpacing
     \<and> GapYMin \<le> p_GapY p \<and> p_GapY p \<le> GapYMax \<and> RampGapFloor \<le> p_GapH p \<and> p_GapH p \<le> PipeGap"

definition gap_close :: "f64 \<Rightarrow> f64 \<Rightarrow> bool" where
  "gap_close a b \<longleftrightarrow> fsub a MaxGapDelta \<le> b \<and> b \<le> fadd a MaxGapDelta"

definition pipe_ids :: "World \<Rightarrow> nat list" where
  "pipe_ids w = map (\<lambda>p. unat (p_ID p)) (w_Pipes w)"

definition pipes_inv :: "World \<Rightarrow> bool" where
  "pipes_inv w \<longleftrightarrow> list_all pipe_ok (w_Pipes w)
     \<and> sorted_wrt (\<lambda>p q. p_X p \<le> p_X q) (w_Pipes w)
     \<and> successively (\<lambda>p q. gap_close (p_GapY p) (p_GapY q)) (w_Pipes w)
     \<and> length (w_Pipes w) \<le> unat (w_nextPipeID w)
     \<and> pipe_ids w = [Suc (unat (w_nextPipeID w)) - length (w_Pipes w) ..< Suc (unat (w_nextPipeID w))]
     \<and> (w_Pipes w \<noteq> [] \<longrightarrow> p_GapY (last (w_Pipes w)) = w_lastGapY w)
     \<and> GapYMin \<le> w_lastGapY w \<and> w_lastGapY w \<le> GapYMax
     \<and> 3 \<le> w_Scroll w \<and> w_Scroll w \<le> RampSpeedCap
     \<and> RampGapFloor \<le> w_Gap w \<and> w_Gap w \<le> PipeGap"

text \<open>The pipes that have passed the birds' column, dropped ones included.\<close>

definition passed_count :: "World \<Rightarrow> nat" where
  "passed_count w = unat (w_nextPipeID w) - length (filter (\<lambda>p. \<not> passed p) (w_Pipes w))"

definition bird_inv :: "u64 \<Rightarrow> nat \<Rightarrow> BirdState \<Rightarrow> bool" where
  "bird_inv tick cnt b \<longleftrightarrow> - 8 \<le> b_Vy b \<and> b_Vy b \<le> TerminalVel \<and> CeilingY \<le> b_Y b \<and> b_Y b < GroundY
     \<and> (b_Left b \<longrightarrow> b_Dead b) \<and> b_DeathTick b \<le> tick \<and> b_LastFlap b \<le> tick
     \<and> 0 \<le> b_Score b \<and> b_Score b \<le> int cnt
     \<and> (\<not> b_Dead b \<longrightarrow> b_DeathTick b = 0 \<and> fadd (b_Y b) BirdRadius < GroundY
          \<and> b_Score b = int cnt \<and> unat (b_NextPipeID b) = Suc cnt)"

definition birds_wf :: "World \<Rightarrow> bool" where
  "birds_wf w \<longleftrightarrow> distinct (w_Order w) \<and> set (w_Order w) = fset (fmdom (w_Birds w))
     \<and> (\<forall>i b. fmlookup (w_Birds w) i = Some b \<longrightarrow> b_ID b = i)"

definition world_inv :: "World \<Rightarrow> bool" where
  "world_inv w \<longleftrightarrow> birds_wf w \<and> pipes_inv w \<and> unat (w_nextPipeID w) \<le> 13 * unat (w_Tick w)
     \<and> (\<forall>i b. fmlookup (w_Birds w) i = Some b \<longrightarrow> bird_inv (w_Tick w) (passed_count w) b)"

section \<open>Lists\<close>

lemma successively_append_single:
  "successively P (xs @ [y]) \<longleftrightarrow> successively P xs \<and> (xs \<noteq> [] \<longrightarrow> P (last xs) y)"
  by (cases xs rule: rev_cases) (auto simp: successively_append_iff)

lemma successively_drop: "successively P xs \<Longrightarrow> successively P (drop n xs)"
  by (metis append_take_drop_id successively_append_iff)

lemma filter_sorted_dropWhile:
  fixes f :: "'a \<Rightarrow> real"
  shows "sorted_wrt (\<lambda>p q. f p \<le> f q) xs \<Longrightarrow> filter (\<lambda>p. c < f p) xs = dropWhile (\<lambda>p. f p \<le> c) xs"
proof (induction xs)
  case (Cons a xs)
  show ?case
  proof (cases "f a \<le> c")
    case False
    with Cons.prems have "\<forall>x\<in>set (a # xs). c < f x" by fastforce
    then have "filter (\<lambda>p. c < f p) (a # xs) = a # xs" by (subst filter_id_conv) blast
    with False show ?thesis by simp
  qed (use Cons in auto)
qed simp

lemma dropWhile_drop: "\<exists>n. dropWhile P xs = drop n xs \<and> n \<le> length xs"
  by (metis dropWhile_eq_drop length_takeWhile_le)

section \<open>Spawning\<close>

lemma fadd_spacing:
  assumes "- 80 < x" "x < 3460"
  shows "x + 259 \<le> fadd x PipeSpacing" "fadd x PipeSpacing \<le> x + 261"
proof -
  have "\<bar>x + 260\<bar> < 2 powi 12" using assms by simp
  from rnd64_error_le [OF this] have "\<bar>fadd x 260 - (x + 260)\<bar> \<le> 2 powi (12 - 54)"
    by (simp add: fadd_def)
  also have "(2::real) powi (12 - 54) \<le> 1" by (simp add: power_int_minus_divide)
  finally show "x + 259 \<le> fadd x PipeSpacing" "fadd x PipeSpacing \<le> x + 261" by auto
qed

lemma clampf_range: "lo \<le> hi \<Longrightarrow> lo \<le> clampf v lo hi \<and> clampf v lo hi \<le> hi"
  by (simp add: clampf_def)

lemma spawn_gap:
  fixes v l0 :: f64
  assumes "GapYMin \<le> l0" "l0 \<le> GapYMax"
  defines "g \<equiv> clampf (clampf v (fsub l0 MaxGapDelta) (fadd l0 MaxGapDelta)) GapYMin GapYMax"
  shows "GapYMin \<le> g" "g \<le> GapYMax" "gap_close l0 g"
proof -
  have lo: "fsub l0 240 \<le> 312"
    unfolding fsub_def using assms by (intro rnd64_le) auto
  have hi: "408 \<le> fadd l0 240"
    unfolding fadd_def using assms by (intro rnd64_ge) auto
  show "GapYMin \<le> g" "g \<le> GapYMax" by (auto simp: g_def clampf_def)
  show "gap_close l0 g" using lo hi by (auto simp: g_def clampf_def gap_close_def)
qed

text \<open>Two neighbouring gap centres differ by at most the limit, up to one rounding.\<close>

lemma gap_close_real:
  assumes "gap_close a b" "GapYMin \<le> a" "a \<le> GapYMax"
  shows "\<bar>b - a\<bar> \<le> MaxGapDelta + 1 / 2 ^ 44"
proof -
  have "\<bar>a - 240\<bar> < 2 powi 10" "\<bar>a + 240\<bar> < 2 powi 10" using assms by auto
  from this [THEN rnd64_error_le]
  have "\<bar>fsub a 240 - (a - 240)\<bar> \<le> 1 / 2 ^ 44" "\<bar>fadd a 240 - (a + 240)\<bar> \<le> 1 / 2 ^ 44"
    by (simp_all add: fadd_def fsub_def power_int_minus_divide)
  moreover have "fsub a 240 \<le> b" "b \<le> fadd a 240"
    using assms(1) by (simp_all add: gap_close_def)
  ultimately have "b - a \<le> 240 + 1 / 2 ^ 44" "a - b \<le> 240 + 1 / 2 ^ 44"
    unfolding abs_le_iff by linarith+
  then show ?thesis by (simp only: MaxGapDelta_def)
qed

lemma spawnPipe_frame [simp]:
  "w_Birds (spawnPipe x w) = w_Birds w" "w_Order (spawnPipe x w) = w_Order w"
  "w_Tick (spawnPipe x w) = w_Tick w" "w_Scroll (spawnPipe x w) = w_Scroll w"
  "w_Gap (spawnPipe x w) = w_Gap w" "w_nextPipeID (spawnPipe x w) = w_nextPipeID w + 1"
  "w_Dist (spawnPipe x w) = w_Dist w"
  by (simp_all add: spawnPipe_def case_prod_unfold Let_def)

lemma spawnPipe_pipes:
  "\<exists>p. w_Pipes (spawnPipe x w) = w_Pipes w @ [p] \<and> p_ID p = w_nextPipeID w + 1 \<and> p_X p = x
     \<and> p_GapH p = w_Gap w \<and> p_GapY p = w_lastGapY (spawnPipe x w)"
  by (simp add: spawnPipe_def case_prod_unfold Let_def)

lemma spawnPipe_gap:
  assumes "GapYMin \<le> w_lastGapY w" "w_lastGapY w \<le> GapYMax"
  shows "GapYMin \<le> w_lastGapY (spawnPipe x w)" "w_lastGapY (spawnPipe x w) \<le> GapYMax"
    "gap_close (w_lastGapY w) (w_lastGapY (spawnPipe x w))"
  using spawn_gap [OF assms] by (simp_all add: spawnPipe_def case_prod_unfold Let_def)

lemma upt_append_id: "l \<le> n \<Longrightarrow> [Suc n - l..<Suc n] @ [Suc n] = [Suc (Suc n) - Suc l..<Suc (Suc n)]"
  by simp

lemma spawnPipe_inv:
  assumes inv: "pipes_inv w" and x: "x < 3460" "- 80 < x"
    and ls: "w_Pipes w \<noteq> [] \<Longrightarrow> p_X (last (w_Pipes w)) \<le> x"
    and n: "unat (w_nextPipeID w) < 2 ^ 63"
  shows "pipes_inv (spawnPipe x w)"
proof -
  obtain p where p: "w_Pipes (spawnPipe x w) = w_Pipes w @ [p]" "p_ID p = w_nextPipeID w + 1"
    "p_X p = x" "p_GapH p = w_Gap w" "p_GapY p = w_lastGapY (spawnPipe x w)"
    using spawnPipe_pipes by blast
  have gap: "GapYMin \<le> w_lastGapY w" "w_lastGapY w \<le> GapYMax"
    using inv by (auto simp: pipes_inv_def)
  note g = spawnPipe_gap [OF gap, of x]
  have nxt: "unat (w_nextPipeID w + 1) = Suc (unat (w_nextPipeID w))"
    by (rule unat_Suc_less [OF n]) simp
  have all: "p_X q \<le> x" if "q \<in> set (w_Pipes w)" for q
  proof -
    from that obtain ys l where ys: "w_Pipes w = ys @ [l]" by (metis list.set_cases rev_exhaust empty_iff empty_set)
    with inv that have "p_X q \<le> p_X l" by (auto simp: pipes_inv_def sorted_wrt_append)
    with ls ys show ?thesis by simp
  qed
  have "pipe_ok p" using inv x g p by (simp add: pipe_ok_def pipes_inv_def)
  moreover have "pipe_ids (spawnPipe x w) = pipe_ids w @ [Suc (unat (w_nextPipeID w))]"
    by (simp add: pipe_ids_def p nxt)
  ultimately show ?thesis
    using inv all g p nxt upt_append_id
    unfolding pipes_inv_def
    by (simp add: sorted_wrt_append successively_append_single del: upt_Suc)
qed

lemma nextX_bounds:
  assumes "pipes_inv w"
  shows "179 \<le> nextX w" "w_Pipes w \<noteq> [] \<Longrightarrow> p_X (last (w_Pipes w)) \<le> nextX w"
proof -
  have "pipe_ok p" if "p \<in> set (w_Pipes w)" for p
    using assms that by (simp add: pipes_inv_def list_all_iff)
  then have ok: "pipe_ok (last (w_Pipes w))" if "w_Pipes w \<noteq> []" using that by simp
  have X: "- 80 < p_X (last (w_Pipes w))" "p_X (last (w_Pipes w)) < 3460" if "w_Pipes w \<noteq> []"
    using ok [OF that] by (simp_all add: pipe_ok_def)
  show "179 \<le> nextX w" "w_Pipes w \<noteq> [] \<Longrightarrow> p_X (last (w_Pipes w)) \<le> nextX w"
    using fadd_spacing [OF X] X by (auto simp: nextX_def)
qed

lemma nextX_spawnPipe [simp]: "nextX (spawnPipe x w) = fadd x PipeSpacing"
  using spawnPipe_pipes [of x w] by (auto simp: nextX_def)

definition spawned :: "nat \<Rightarrow> World \<Rightarrow> World \<Rightarrow> bool" where
  "spawned m w w' \<longleftrightarrow> pipes_inv w' \<and> 3460 \<le> nextX w'
     \<and> w_Birds w' = w_Birds w \<and> w_Order w' = w_Order w \<and> w_Tick w' = w_Tick w
     \<and> w_Scroll w' = w_Scroll w \<and> w_Gap w' = w_Gap w \<and> w_Dist w' = w_Dist w
     \<and> (\<exists>new. w_Pipes w' = w_Pipes w @ new \<and> length new \<le> m
            \<and> unat (w_nextPipeID w') = unat (w_nextPipeID w) + length new
            \<and> (\<forall>p\<in>set new. 179 \<le> p_X p))"

lemma spawn_ahead_spawned:
  "pipes_inv w \<Longrightarrow> 3460 - nextX w \<le> 259 * real m \<Longrightarrow> unat (w_nextPipeID w) + m < 2 ^ 63 \<Longrightarrow>
   \<exists>w'. spawn_ahead w = Some w' \<and> spawned m w w'"
proof (induction m arbitrary: w)
  case 0
  then have "spawn_ahead w = Some w" by (subst spawn_ahead.simps) simp
  with 0 show ?case by (auto simp: spawned_def)
next
  case (Suc m)
  show ?case
  proof (cases "3460 \<le> nextX w")
    case True
    then have "spawn_ahead w = Some w" by (subst spawn_ahead.simps) simp
    with True Suc.prems(1) show ?thesis by (auto simp: spawned_def)
  next
    case False
    define v where "v = spawnPipe (nextX w) w"
    note nx = nextX_bounds [OF Suc.prems(1)]
    have x: "- 80 < nextX w" "nextX w < 3460" using nx False by auto
    have inv: "pipes_inv v"
      unfolding v_def using nx x Suc.prems by (intro spawnPipe_inv) auto
    have n: "unat (w_nextPipeID v) = Suc (unat (w_nextPipeID w))"
      using Suc.prems(3) by (simp add: v_def unat_Suc_less [of _ "2 ^ 63"])
    have "3460 - nextX v \<le> 259 * real m"
      using fadd_spacing(1) [OF x] Suc.prems(2) by (simp add: v_def)
    from Suc.IH [OF inv this] n Suc.prems(3)
    obtain w' where w': "spawn_ahead v = Some w'" "spawned m v w'" by auto
    have "spawn_ahead w = Some w'"
      using False w'(1) by (subst spawn_ahead.simps) (simp add: v_def)
    moreover obtain p where p: "w_Pipes v = w_Pipes w @ [p]" "p_X p = nextX w"
      unfolding v_def using spawnPipe_pipes by blast
    from w'(2) obtain new where new: "w_Pipes w' = w_Pipes w @ (p # new)" "length new \<le> m"
      "unat (w_nextPipeID w') = unat (w_nextPipeID w) + length (p # new)"
      "\<forall>q\<in>set (p # new). 179 \<le> p_X q"
      using n p nx by (auto simp: spawned_def)
    with w'(2) have "spawned (Suc m) w w'"
      unfolding spawned_def v_def spawnPipe_frame by (intro conjI exI [of _ "p # new"]) auto
    ultimately show ?thesis by blast
  qed
qed

text \<open>Thirteen pipes are always enough.\<close>

lemma spawn_ahead_total:
  assumes "pipes_inv w" "unat (w_nextPipeID w) < 2 ^ 62"
  shows "\<exists>w'. spawn_ahead w = Some w' \<and> spawned 13 w w'"
  using assms nextX_bounds(1) [OF assms(1)] by (intro spawn_ahead_spawned) auto

lemma not_passed_ahead: "179 \<le> p_X p \<Longrightarrow> \<not> passed p"
proof -
  assume "179 \<le> p_X p"
  then have "259 \<le> fadd (p_X p) 80" unfolding fadd_def by (intro rnd64_ge) auto
  then show ?thesis by (simp add: passed_def)
qed

lemma unpassed_le_next: "pipes_inv w \<Longrightarrow> length (filter P (w_Pipes w)) \<le> unat (w_nextPipeID w)"
  by (meson length_filter_le order_trans pipes_inv_def)

lemma spawned_passed_count:
  assumes "spawned m w w'"
  shows "passed_count w' = passed_count w"
proof -
  from assms obtain new where new: "w_Pipes w' = w_Pipes w @ new"
    "unat (w_nextPipeID w') = unat (w_nextPipeID w) + length new" "\<forall>p\<in>set new. 179 \<le> p_X p"
    by (auto simp: spawned_def)
  have "filter (\<lambda>p. \<not> passed p) new = new"
    using new(3) not_passed_ahead by (simp add: filter_id_conv)
  with new show ?thesis by (simp add: passed_count_def)
qed

section \<open>Ramp and scrolling\<close>

lemma ramp_frame [simp]:
  "w_Birds (ramp w) = w_Birds w" "w_Order (ramp w) = w_Order w" "w_Pipes (ramp w) = w_Pipes w"
  "w_nextPipeID (ramp w) = w_nextPipeID w" "w_Tick (ramp w) = w_Tick w + 1"
  "w_lastGapY (ramp w) = w_lastGapY w" "w_rng (ramp w) = w_rng w" "w_Dist (ramp w) = w_Dist w"
  by (simp_all add: ramp_def Let_def)

lemma ramp_bounds:
  assumes "3 \<le> w_Scroll w" "w_Scroll w \<le> RampSpeedCap" "RampGapFloor \<le> w_Gap w" "w_Gap w \<le> PipeGap"
  shows "3 \<le> w_Scroll (ramp w)" "w_Scroll (ramp w) \<le> RampSpeedCap"
    "RampGapFloor \<le> w_Gap (ramp w)" "w_Gap (ramp w) \<le> PipeGap"
    "f64_exact (w_Scroll w) \<Longrightarrow> w_Scroll w \<le> w_Scroll (ramp w)"
    "f64_exact (w_Gap w) \<Longrightarrow> w_Gap (ramp w) \<le> w_Gap w"
proof -
  have s: "3 \<le> fmul (w_Scroll w) (17 / 16)"
    unfolding fmul_def using assms(1) by (intro rnd64_ge) auto
  have g: "fsub (w_Gap w) 2 \<le> 156"
    unfolding fsub_def using assms(4) by (intro rnd64_le) auto
  show "3 \<le> w_Scroll (ramp w)" "w_Scroll (ramp w) \<le> RampSpeedCap"
    "RampGapFloor \<le> w_Gap (ramp w)" "w_Gap (ramp w) \<le> PipeGap"
    using s g assms RampSpeedCap_bounds by (auto simp: ramp_def Let_def)
  show "w_Scroll w \<le> w_Scroll (ramp w)" if "f64_exact (w_Scroll w)"
    using that assms(1,2) by (auto simp: ramp_def Let_def fmul_def intro: rnd64_ge)
  show "w_Gap (ramp w) \<le> w_Gap w" if "f64_exact (w_Gap w)"
    using that assms(3) by (auto simp: ramp_def Let_def fsub_def intro: rnd64_le)
qed

lemma ramp_inv: "pipes_inv w \<Longrightarrow> pipes_inv (ramp w)"
  using ramp_bounds [of w] by (simp add: pipes_inv_def pipe_ids_def)

lemma passed_count_cong:
  "w_Pipes v = w_Pipes w \<Longrightarrow> w_nextPipeID v = w_nextPipeID w \<Longrightarrow> passed_count v = passed_count w"
  by (simp add: passed_count_def)

lemma pipes_inv_birds [simp]: "pipes_inv (w\<lparr>w_Birds := B\<rparr>) = pipes_inv w"
  by (simp add: pipes_inv_def pipe_ids_def)

definition scroll_pipe :: "f64 \<Rightarrow> Pipe \<Rightarrow> Pipe" where
  "scroll_pipe v p = p\<lparr>p_X := fsub (p_X p) v\<rparr>"

lemma scroll_pipe_frame [simp]:
  "p_ID (scroll_pipe v p) = p_ID p" "p_GapY (scroll_pipe v p) = p_GapY p"
  "p_GapH (scroll_pipe v p) = p_GapH p" "p_X (scroll_pipe v p) = fsub (p_X p) v"
  by (simp_all add: scroll_pipe_def)

lemma scroll_x:
  assumes "- 80 < x" "x < 3460" "3 \<le> v" "v \<le> 5"
  shows "x - 6 \<le> fsub x v" "fsub x v \<le> x - 2"
proof -
  have "\<bar>x - v\<bar> < 2 powi 12" using assms by simp
  from rnd64_error_le [OF this] have "\<bar>fsub x v - (x - v)\<bar> \<le> 2 powi (12 - 54)"
    by (simp add: fsub_def)
  also have "(2::real) powi (12 - 54) \<le> 1" by (simp add: power_int_minus_divide)
  finally show "x - 6 \<le> fsub x v" "fsub x v \<le> x - 2" using assms by auto
qed

lemma scroll_pipes:
  "w_Pipes (scroll w) = filter (\<lambda>p. - 80 < p_X p) (map (scroll_pipe (w_Scroll w)) (w_Pipes w))"
  by (simp add: scroll_def scroll_pipe_def [abs_def])

lemma scroll_frame [simp]:
  "w_Birds (scroll w) = w_Birds w" "w_Order (scroll w) = w_Order w"
  "w_nextPipeID (scroll w) = w_nextPipeID w" "w_Tick (scroll w) = w_Tick w"
  "w_lastGapY (scroll w) = w_lastGapY w" "w_Scroll (scroll w) = w_Scroll w"
  "w_Gap (scroll w) = w_Gap w" "w_Dist (scroll w) = fadd (w_Dist w) (w_Scroll w)"
  by (simp_all add: scroll_def)

lemma scroll_drops:
  assumes "pipes_inv w"
  obtains k where "k \<le> length (w_Pipes w)"
    "w_Pipes (scroll w) = drop k (map (scroll_pipe (w_Scroll w)) (w_Pipes w))"
proof -
  let ?ps = "map (scroll_pipe (w_Scroll w)) (w_Pipes w)"
  have "sorted_wrt (\<lambda>p q. p_X p \<le> p_X q) (w_Pipes w)" using assms by (simp add: pipes_inv_def)
  then have "sorted_wrt (\<lambda>p q. p_X p \<le> p_X q) ?ps"
    unfolding sorted_wrt_map by (rule sorted_wrt_mono_rel [rotated]) (simp add: fsub_mono)
  then have "w_Pipes (scroll w) = dropWhile (\<lambda>p. p_X p \<le> - 80) ?ps"
    unfolding scroll_pipes by (rule filter_sorted_dropWhile)
  then show thesis using dropWhile_drop [of _ ?ps] that by (metis length_map)
qed

lemma drop_upt_ids:
  "k \<le> l \<Longrightarrow> l \<le> n \<Longrightarrow> drop k [Suc n - l..<Suc n] = [Suc n - (l - k)..<Suc n]"
  by (simp add: drop_upt del: upt_Suc)

lemma scroll_inv:
  assumes "pipes_inv w"
  shows "pipes_inv (scroll w)"
proof -
  let ?f = "scroll_pipe (w_Scroll w)"
  obtain k where k: "k \<le> length (w_Pipes w)" "w_Pipes (scroll w) = drop k (map ?f (w_Pipes w))"
    using assms by (rule scroll_drops)
  have ids: "pipe_ids (scroll w) = drop k (pipe_ids w)"
    by (simp add: pipe_ids_def k drop_map [symmetric] comp_def)
  have "sorted_wrt (\<lambda>p q. p_X p \<le> p_X q) (w_Pipes w)" using assms by (simp add: pipes_inv_def)
  then have "sorted_wrt (\<lambda>p q. p_X p \<le> p_X q) (map ?f (w_Pipes w))"
    unfolding sorted_wrt_map by (rule sorted_wrt_mono_rel [rotated]) (simp add: fsub_mono)
  then have sorted: "sorted_wrt (\<lambda>p q. p_X p \<le> p_X q) (w_Pipes (scroll w))"
    unfolding k by (rule sorted_wrt_drop)
  have gaps: "successively (\<lambda>p q. gap_close (p_GapY p) (p_GapY q)) (w_Pipes (scroll w))"
    unfolding k using assms by (intro successively_drop) (simp add: pipes_inv_def successively_map)
  have v: "3 \<le> w_Scroll w" "w_Scroll w \<le> 5"
    using assms RampSpeedCap_bounds by (auto simp: pipes_inv_def)
  have "pipe_ok (?f p)" if "pipe_ok p" "- 80 < p_X (?f p)" for p
    using that scroll_x [OF _ _ v, of "p_X p"] by (auto simp: pipe_ok_def)
  then have ok: "list_all pipe_ok (w_Pipes (scroll w))"
    using assms by (auto simp: scroll_pipes list_all_iff pipes_inv_def)
  have last: "p_GapY (List.last (w_Pipes (scroll w))) = w_lastGapY w" if "w_Pipes (scroll w) \<noteq> []"
    using that assms by (cases "w_Pipes w = []") (auto simp: k last_drop last_map pipes_inv_def)
  have "length (w_Pipes w) \<le> unat (w_nextPipeID w)" using assms by (simp add: pipes_inv_def)
  with k have len: "length (w_Pipes (scroll w)) \<le> unat (w_nextPipeID w)"
    "length (w_Pipes (scroll w)) = length (w_Pipes w) - k"
    "k \<le> length (w_Pipes w)" "length (w_Pipes w) \<le> unat (w_nextPipeID w)" by simp_all
  have "pipe_ids (scroll w) = [Suc (unat (w_nextPipeID w)) - length (w_Pipes (scroll w))
      ..< Suc (unat (w_nextPipeID w))]"
    using assms len drop_upt_ids [OF len(3,4)] unfolding ids by (simp add: pipes_inv_def)
  with ok sorted gaps last len assms show ?thesis by (simp add: pipes_inv_def)
qed

text \<open>A pipe that has passed stays passed, and only passed pipes are dropped.\<close>

lemma passed_scroll:
  assumes "pipe_ok p" "3 \<le> v" "v \<le> 5"
  shows "passed p \<Longrightarrow> passed (scroll_pipe v p)" "\<not> passed p \<Longrightarrow> - 80 < p_X (scroll_pipe v p)"
proof -
  have x: "- 80 < p_X p" "p_X p < 3460" using assms(1) by (simp_all add: pipe_ok_def)
  note s = scroll_x [OF x assms(2,3)]
  show "passed (scroll_pipe v p)" if "passed p"
    using that fadd_mono [of "p_X (scroll_pipe v p)" "p_X p" 80 80] s by (simp add: passed_def)
  show "- 80 < p_X (scroll_pipe v p)" if "\<not> passed p"
  proof (rule ccontr)
    assume "\<not> - 80 < p_X (scroll_pipe v p)"
    then have "p_X p \<le> - 74" using s by simp
    then have "fadd (p_X p) 80 \<le> 6" unfolding fadd_def by (intro rnd64_le) auto
    with that show False by (simp add: passed_def)
  qed
qed

lemma length_filter_mono: "(\<And>x. x \<in> set xs \<Longrightarrow> P x \<Longrightarrow> Q x) \<Longrightarrow> length (filter P xs) \<le> length (filter Q xs)"
  by (induction xs) (auto simp: le_SucI)

lemma scroll_passed_count:
  assumes "pipes_inv w"
  shows "passed_count w \<le> passed_count (scroll w)"
    "unat (w_nextPipeID w) - length (w_Pipes (scroll w)) \<le> passed_count w"
proof -
  have v: "3 \<le> w_Scroll w" "w_Scroll w \<le> 5"
    using assms RampSpeedCap_bounds by (auto simp: pipes_inv_def)
  have ok: "pipe_ok p" if "p \<in> set (w_Pipes w)" for p
    using assms that by (simp add: pipes_inv_def list_all_iff)
  have "length (filter (\<lambda>p. \<not> passed p) (w_Pipes (scroll w)))
      \<le> length (filter (\<lambda>p. \<not> passed p) (w_Pipes w))"
    unfolding scroll_pipes filter_filter filter_map length_map comp_def
    by (rule length_filter_mono) (use passed_scroll(1) [OF ok v] in auto)
  then show "passed_count w \<le> passed_count (scroll w)" by (simp add: passed_count_def)
  have "length (filter (\<lambda>p. \<not> passed p) (w_Pipes w)) \<le> length (w_Pipes (scroll w))"
    unfolding scroll_pipes filter_map length_map comp_def
    by (rule length_filter_mono) (use passed_scroll(2) [OF ok v] in auto)
  then show "unat (w_nextPipeID w) - length (w_Pipes (scroll w)) \<le> passed_count w"
    by (simp add: passed_count_def)
qed

section \<open>Flight, collisions and scoring\<close>

lemma fly_dead [simp]: "b_Dead b \<Longrightarrow> fly t flaps i b = b"
  by (simp add: fly_def)

lemma fly_frame [simp]:
  "b_ID (fly t flaps i b) = b_ID b" "b_Dead (fly t flaps i b) = b_Dead b"
  "b_Score (fly t flaps i b) = b_Score b" "b_NextPipeID (fly t flaps i b) = b_NextPipeID b"
  "b_Left (fly t flaps i b) = b_Left b" "b_DeathTick (fly t flaps i b) = b_DeathTick b"
  "b_Name (fly t flaps i b) = b_Name b" "b_Pal (fly t flaps i b) = b_Pal b"
  "b_Acc (fly t flaps i b) = b_Acc b"
  by (simp_all add: fly_def Let_def)

lemma fly_bounds:
  assumes "\<not> b_Dead b" "- 8 \<le> b_Vy b" "b_Vy b \<le> 8" "CeilingY \<le> b_Y b" "fadd (b_Y b) BirdRadius < GroundY"
  shows "- 8 \<le> b_Vy (fly t flaps i b)" "b_Vy (fly t flaps i b) \<le> 8"
    "CeilingY \<le> b_Y (fly t flaps i b)" "b_Y (fly t flaps i b) < GroundY"
proof -
  have Y: "b_Y b < 709"
  proof (rule ccontr)
    assume "\<not> b_Y b < 709"
    then have "720 \<le> fadd (b_Y b) 11" unfolding fadd_def by (intro rnd64_ge) auto
    with assms(5) show False by simp
  qed
  have ge: "- 8 \<le> fadd v Gravity" if "- 8 \<le> v" for v
    unfolding fadd_def using that Gravity_bounds by (intro rnd64_ge) auto
  have le: "fadd y v \<le> 717" if "y < 709" "v \<le> 8" for y v
    unfolding fadd_def using that by (intro rnd64_le) auto
  note bs = ge [of "b_Vy b"] ge [of FlapImpulse] le [OF Y] FlapImpulse_bounds
  show "- 8 \<le> b_Vy (fly t flaps i b)" "b_Vy (fly t flaps i b) \<le> 8"
    using assms bs by (auto simp: fly_def Let_def)
  show "CeilingY \<le> b_Y (fly t flaps i b)"
    by (use assms in \<open>auto simp: fly_def Let_def\<close>)
  have "b_Y (fly t flaps i b) \<le> 717"
    using assms(1) le [OF Y] by (auto simp: fly_def Let_def)
  then show "b_Y (fly t flaps i b) < GroundY" by simp
qed

lemma fly_LastFlap: "b_LastFlap b \<le> t \<Longrightarrow> b_LastFlap (fly t flaps i b) \<le> t"
  by (simp add: fly_def Let_def)

text \<open>Scoring over pipes that have all passed, with consecutive ids, then over pipes ahead.\<close>

lemma score_passed:
  assumes "\<And>p. p \<in> set ps \<Longrightarrow> passed p" "map (\<lambda>p. unat (p_ID p)) ps = [a..<a + length ps]"
    "a \<le> unat (b_NextPipeID b)" "unat (b_NextPipeID b) \<le> a + length ps" "a + length ps < 2 ^ 64"
  shows "foldl score_pipe b ps = b\<lparr>b_Score := b_Score b + int (a + length ps - unat (b_NextPipeID b)),
     b_NextPipeID := word_of_nat (a + length ps)\<rparr>"
  using assms
proof (induction ps arbitrary: a b)
  case Nil
  then have a: "unat (b_NextPipeID b) = a" by simp
  then have "word_of_nat a = b_NextPipeID b" by auto
  with a show ?case by simp
next
  case (Cons p ps)
  have a: "unat (p_ID p) = a" and ids: "map (\<lambda>p. unat (p_ID p)) ps = [Suc a..<Suc a + length ps]"
    using Cons.prems(2) by (simp_all add: upt_conv_Cons del: upt_Suc)
  have pass: "fadd (p_X p) PipeWidth < BirdX - BirdRadius"
    using Cons.prems(1) [of p] by (simp add: passed_def)
  show ?case
  proof (cases "unat (b_NextPipeID b) = a")
    case True
    then have eq: "p_ID p = b_NextPipeID b" using a by (simp add: word_unat_eq_iff)
    let ?b = "b\<lparr>b_Score := b_Score b + 1, b_NextPipeID := b_NextPipeID b + 1\<rparr>"
    have n: "unat (b_NextPipeID ?b) = Suc a"
      using True Cons.prems(5) by (simp add: unat_Suc_less [of _ "2 ^ 64 - 1"])
    have "score_pipe b p = ?b" using eq pass by (simp add: score_pipe_def)
    moreover have "foldl score_pipe ?b ps = ?b\<lparr>b_Score := b_Score ?b + int (Suc a + length ps - unat (b_NextPipeID ?b)),
        b_NextPipeID := word_of_nat (Suc a + length ps)\<rparr>"
      by (rule Cons.IH) (use Cons.prems ids n in auto)
    ultimately show ?thesis using n True by simp
  next
    case False
    then have "p_ID p \<noteq> b_NextPipeID b" using a by auto
    then have "score_pipe b p = b" by (simp add: score_pipe_def)
    moreover have "foldl score_pipe b ps = b\<lparr>b_Score := b_Score b + int (Suc a + length ps - unat (b_NextPipeID b)),
        b_NextPipeID := word_of_nat (Suc a + length ps)\<rparr>"
      by (rule Cons.IH) (use Cons.prems ids False in auto)
    ultimately show ?thesis by simp
  qed
qed

lemma score_ahead: "(\<And>p. p \<in> set ps \<Longrightarrow> \<not> passed p) \<Longrightarrow> foldl score_pipe b ps = b"
  by (induction ps) (auto simp: score_pipe_def passed_def)

lemma sorted_passed_split:
  assumes "sorted_wrt (\<lambda>p q. p_X p \<le> p_X q) ps"
  obtains xs ys where "ps = xs @ ys" "\<And>p. p \<in> set xs \<Longrightarrow> passed p" "\<And>p. p \<in> set ys \<Longrightarrow> \<not> passed p"
proof -
  have "\<not> passed p" if "p \<in> set (dropWhile passed ps)" for p
  proof -
    let ?d = "dropWhile passed ps"
    have ne: "?d \<noteq> []" using that by (metis empty_iff empty_set)
    have "sorted_wrt (\<lambda>p q. p_X p \<le> p_X q) ?d"
      using assms dropWhile_drop [of passed ps] sorted_wrt_drop by metis
    then have "p_X (hd ?d) \<le> p_X p" using that ne by (cases ?d) auto
    moreover have "\<not> passed (hd ?d)" using ne by (rule hd_dropWhile)
    ultimately show ?thesis
      using fadd_mono [of "p_X (hd ?d)" "p_X p" 80 80] by (simp add: passed_def)
  qed
  moreover have "passed p" if "p \<in> set (takeWhile passed ps)" for p
    using that by (rule set_takeWhileD [THEN conjunct2])
  ultimately show thesis using that [of "takeWhile passed ps" "dropWhile passed ps"] by simp
qed

text \<open>The scoring loop brings a live bird up to the number of pipes that have passed.\<close>

lemma score_fold:
  assumes inv: "pipes_inv w" and n: "unat (w_nextPipeID w) < 2 ^ 62"
    and b: "b_Score b = int c" "unat (b_NextPipeID b) = Suc c"
    and c: "c \<le> passed_count w" "unat (w_nextPipeID w) - length (w_Pipes w) \<le> c"
  shows "\<exists>nx. foldl score_pipe b (w_Pipes w)
      = b\<lparr>b_Score := int (passed_count w), b_NextPipeID := nx\<rparr> \<and> unat nx = Suc (passed_count w)"
proof -
  obtain xs ys where xy: "w_Pipes w = xs @ ys" "\<And>p. p \<in> set xs \<Longrightarrow> passed p"
    "\<And>p. p \<in> set ys \<Longrightarrow> \<not> passed p"
    using inv sorted_passed_split [of "w_Pipes w"] by (auto simp: pipes_inv_def)
  define a where "a = Suc (unat (w_nextPipeID w)) - length (w_Pipes w)"
  have len: "length (w_Pipes w) \<le> unat (w_nextPipeID w)" using inv by (simp add: pipes_inv_def)
  have "filter (\<lambda>p. \<not> passed p) (w_Pipes w) = ys"
    using xy by (simp add: filter_id_conv filter_empty_conv)
  then have cnt: "passed_count w = unat (w_nextPipeID w) - length ys" by (simp add: passed_count_def)
  then have ax: "a + length xs = Suc (passed_count w)"
    using len xy(1) by (simp add: a_def)
  have "pipe_ids w = [a..<a + length (w_Pipes w)]"
    using inv len by (simp add: pipes_inv_def a_def del: upt_Suc)
  then have ids: "map (\<lambda>p. unat (p_ID p)) xs = [a..<a + length xs]"
    by (simp add: pipe_ids_def xy(1) add.assoc [symmetric] upt_add_eq_append [of a "a + length xs" "length ys"])
  have "foldl score_pipe b xs = b\<lparr>b_Score := b_Score b + int (a + length xs - unat (b_NextPipeID b)),
     b_NextPipeID := word_of_nat (a + length xs)\<rparr>"
    using xy(2) ids by (rule score_passed) (use b c ax n len cnt in \<open>auto simp: a_def\<close>)
  moreover have "unat (word_of_nat (Suc (passed_count w)) :: u64) = Suc (passed_count w)"
    using n cnt by (simp add: unat_of_nat del: of_nat_Suc)
  ultimately show ?thesis
    unfolding ax using xy b c(1) by (auto simp: score_ahead of_nat_diff)
qed

section \<open>One tick\<close>

text \<open>What one tick does, phase by phase, to a world with sound pipes and birds.\<close>

definition stepped :: "u64 fset \<Rightarrow> World \<Rightarrow> World \<Rightarrow> bool" where
  "stepped flaps w w' \<longleftrightarrow> pipes_inv w' \<and> 3460 \<le> nextX w'
     \<and> w_Order w' = w_Order w \<and> fmdom (w_Birds w') = fmdom (w_Birds w)
     \<and> w_Tick w' = w_Tick w + 1 \<and> w_Scroll w' = w_Scroll (ramp w) \<and> w_Gap w' = w_Gap (ramp w)
     \<and> w_Dist w' = fadd (w_Dist w) (w_Scroll w')
     \<and> unat (w_nextPipeID w') \<le> unat (w_nextPipeID w) + 13
     \<and> passed_count w \<le> passed_count w'
     \<and> unat (w_nextPipeID w') - length (w_Pipes w') \<le> passed_count w
     \<and> (\<forall>i. fmlookup (w_Birds w') i = map_option
           (\<lambda>b. settle (w_Tick w') (w_Pipes w') i (fly (w_Tick w') flaps i b)) (fmlookup (w_Birds w) i))"

lemma update_each_full:
  assumes "distinct ks" "set ks = fset (fmdom m)"
  shows "\<exists>m'. update_each f ks m = Some m' \<and> fmdom m' = fmdom m
    \<and> (\<forall>k. fmlookup m' k = map_option (f k) (fmlookup m k))"
proof -
  obtain m' where m': "update_each f ks m = Some m'" using update_each_total [of ks m f] assms(2) by auto
  moreover have "fmlookup m' k = map_option (f k) (fmlookup m k)" for k
  proof (cases "k \<in> set ks")
    case True
    then show ?thesis using update_each_lookup [OF m' assms(1), of k] by simp
  next
    case False
    then have "k |\<notin>| fmdom m" using assms(2) by simp
    then have "fmlookup m k = None" by (rule fmdom_notD)
    then show ?thesis using update_each_lookup [OF m' assms(1), of k] False by simp
  qed
  ultimately show ?thesis using update_each_dom [OF m'] by blast
qed

lemma passed_count_birds [simp]: "passed_count (w\<lparr>w_Birds := B\<rparr>) = passed_count w"
  by (simp add: passed_count_def)

lemma nextX_birds [simp]: "nextX (w\<lparr>w_Birds := B\<rparr>) = nextX w"
  by (simp add: nextX_def)

lemma Step_stepped:
  assumes wf: "birds_wf w" and inv: "pipes_inv w" and n: "unat (w_nextPipeID w) < 2 ^ 62"
  shows "\<exists>w'. Step flaps w = Some w' \<and> stepped flaps w w'"
proof -
  let ?t = "w_Tick w + 1" and ?u = "ramp w"
  have ord: "distinct (w_Order w)" "set (w_Order w) = fset (fmdom (w_Birds w))"
    using wf by (simp_all add: birds_wf_def)
  obtain B where B: "update_each (fly ?t flaps) (w_Order w) (w_Birds w) = Some B"
    "fmdom B = fmdom (w_Birds w)"
    "\<And>i. fmlookup B i = map_option (fly ?t flaps i) (fmlookup (w_Birds w) i)"
    using update_each_full [OF ord, of "fly ?t flaps"] by blast
  define v where "v = scroll (?u\<lparr>w_Birds := B\<rparr>)"
  have u: "pipes_inv (?u\<lparr>w_Birds := B\<rparr>)" using inv by (simp add: ramp_inv)
  have v: "pipes_inv v" unfolding v_def using u by (rule scroll_inv)
  have vf: "w_Birds v = B" "w_Order v = w_Order w" "w_Tick v = ?t" "w_nextPipeID v = w_nextPipeID w"
    "w_Scroll v = w_Scroll ?u" "w_Gap v = w_Gap ?u" "w_Dist v = fadd (w_Dist w) (w_Scroll ?u)"
    by (simp_all add: v_def)
  have cw: "passed_count ?u = passed_count w" by (rule passed_count_cong) simp_all
  have vc: "passed_count w \<le> passed_count v" "unat (w_nextPipeID w) - length (w_Pipes v) \<le> passed_count w"
    using scroll_passed_count [OF u] by (simp_all add: v_def cw)
  obtain x where x: "spawn_ahead v = Some x" "spawned 13 v x"
    using spawn_ahead_total [OF v] n vf by auto
  note xs = x(2) [unfolded spawned_def vf]
  have px: "passed_count x = passed_count v" using x(2) by (rule spawned_passed_count)
  obtain new where new: "w_Pipes x = w_Pipes v @ new" "length new \<le> 13"
    "unat (w_nextPipeID x) = unat (w_nextPipeID w) + length new"
    using xs by blast
  have ordB: "set (w_Order w) = fset (fmdom B)" using ord B by simp
  obtain D where D: "update_each (settle ?t (w_Pipes x)) (w_Order w) B = Some D" "fmdom D = fmdom B"
    "\<And>i. fmlookup D i = map_option (settle ?t (w_Pipes x) i) (fmlookup B i)"
    using update_each_full [OF ord(1) ordB, of "settle ?t (w_Pipes x)"] by blast
  have "Step flaps w = Some (x\<lparr>w_Birds := D\<rparr>)"
    using B(1) x(1) D(1) xs by (simp add: Step_def Let_def v_def)
  moreover have "stepped flaps w (x\<lparr>w_Birds := D\<rparr>)"
    using xs new vc px B(2,3) D(2,3) by (simp add: stepped_def option.map_comp comp_def)
  ultimately show ?thesis by blast
qed

lemma settle_cases:
  assumes "\<not> b_Dead b"
  obtains (ground) "fadd (b_Y b) BirdRadius \<ge> GroundY" "settle t ps i b = kill t b"
  | (pipe) "fadd (b_Y b) BirdRadius < GroundY" "list_ex (hits (b_Y b)) ps" "settle t ps i b = kill t b"
  | (clear) "fadd (b_Y b) BirdRadius < GroundY" "\<not> list_ex (hits (b_Y b)) ps"
      "settle t ps i b = foldl score_pipe b ps"
proof -
  consider "fadd (b_Y b) BirdRadius \<ge> GroundY"
    | "fadd (b_Y b) BirdRadius < GroundY" "list_ex (hits (b_Y b)) ps"
    | "fadd (b_Y b) BirdRadius < GroundY" "\<not> list_ex (hits (b_Y b)) ps"
    by linarith
  then show thesis using assms that by cases (simp_all add: settle_def)
qed

lemma bird_step_inv:
  assumes b: "bird_inv t c b" and st: "stepped flaps w w'" and c: "c = passed_count w"
    and t: "t = w_Tick w" "unat t < 2 ^ 63" and n: "unat (w_nextPipeID w) < 2 ^ 61"
  shows "bird_inv (w_Tick w') (passed_count w') (settle (w_Tick w') (w_Pipes w') i (fly (w_Tick w') flaps i b))"
proof (cases "b_Dead b")
  case True
  have "t \<le> w_Tick w'"
    using st t unat_Suc_less [of t "2 ^ 63"] by (simp add: stepped_def word_le_nat_alt)
  moreover have "c \<le> passed_count w'" using st c by (simp add: stepped_def)
  ultimately show ?thesis using True b by (auto simp: bird_inv_def settle_def)
next
  case False
  have tt: "t \<le> w_Tick w'"
    using st t unat_Suc_less [of t "2 ^ 63"] by (simp add: stepped_def word_le_nat_alt)
  have cc: "c \<le> passed_count w'" "unat (w_nextPipeID w') - length (w_Pipes w') \<le> c"
    "pipes_inv w'" "unat (w_nextPipeID w') < 2 ^ 62"
    using st c n by (simp_all add: stepped_def)
  let ?b = "fly (w_Tick w') flaps i b"
  have fl: "- 8 \<le> b_Vy ?b" "b_Vy ?b \<le> 8" "CeilingY \<le> b_Y ?b" "b_Y ?b < GroundY"
    by (rule fly_bounds [OF False]; use b False in \<open>simp add: bird_inv_def\<close>)+
  have lf: "b_LastFlap ?b \<le> w_Tick w'"
    using b tt by (intro fly_LastFlap) (auto simp: bird_inv_def)
  have nd: "\<not> b_Dead ?b" using False by simp
  have sc: "b_Score ?b = int c" "unat (b_NextPipeID ?b) = Suc c"
    using b False by (simp_all add: bird_inv_def)
  note rest = b [unfolded bird_inv_def]
  show ?thesis
  proof (cases rule: settle_cases [OF nd, where t = "w_Tick w'" and ps = "w_Pipes w'" and i = i,
        case_names ground pipe clear])
    case clear
    with score_fold [OF cc(3,4) sc cc(1,2)] fl lf rest False tt show ?thesis
      by (auto simp: bird_inv_def)
  qed (use fl lf rest False tt cc sc in \<open>auto simp: bird_inv_def kill_def\<close>)
qed

theorem Step_world_inv:
  assumes "world_inv w" "unat (w_Tick w) < 2 ^ 50"
  shows "\<exists>w'. Step flaps w = Some w' \<and> world_inv w' \<and> stepped flaps w w'"
proof -
  note inv = assms(1) [unfolded world_inv_def]
  have n: "unat (w_nextPipeID w) < 2 ^ 61" using inv assms(2) by simp
  then obtain w' where w': "Step flaps w = Some w'" "stepped flaps w w'"
    using Step_stepped [of w flaps] inv by auto
  note st = w'(2) [unfolded stepped_def]
  have look: "fmlookup (w_Birds w') i = map_option
      (\<lambda>b. settle (w_Tick w') (w_Pipes w') i (fly (w_Tick w') flaps i b)) (fmlookup (w_Birds w) i)" for i
    using st by blast
  have id: "b_ID (settle t ps i (fly t flaps i b)) = b_ID b" for t ps i b
  proof -
    have "b_ID (foldl score_pipe b ps) = b_ID b" for b
      by (induction ps arbitrary: b) (simp_all add: score_pipe_def)
    then show ?thesis by (simp add: settle_def kill_def)
  qed
  have "birds_wf w'" using inv st look id by (auto simp: birds_wf_def)
  moreover have "unat (w_Tick w') = Suc (unat (w_Tick w))"
    using st assms(2) unat_Suc_less [of "w_Tick w" "2 ^ 50"] by simp
  moreover have "bird_inv (w_Tick w') (passed_count w') b'" if b': "fmlookup (w_Birds w') i = Some b'" for i b'
  proof -
    from b' obtain b where b: "fmlookup (w_Birds w) i = Some b"
      "b' = settle (w_Tick w') (w_Pipes w') i (fly (w_Tick w') flaps i b)"
      using look [of i] by auto
    show ?thesis unfolding b(2)
      by (rule bird_step_inv [OF _ w'(2) refl refl]) (use inv b(1) assms(2) n in auto)
  qed
  ultimately have "world_inv w'" using st inv by (auto simp: world_inv_def)
  with w' show ?thesis by blast
qed

section \<open>The other operations\<close>

lemma NewWorld_inv [inv_intros]: "world_inv (NewWorld seed)"
  using ScrollSpeed_bounds RampSpeedCap_bounds
  by (simp add: world_inv_def birds_wf_def pipes_inv_def pipe_ids_def NewWorld_def)

lemma NewWorld_fields [simp]:
  "w_Birds (NewWorld seed) = fmempty" "w_Order (NewWorld seed) = []" "w_Tick (NewWorld seed) = 0"
  "w_Pipes (NewWorld seed) = []"
  by (simp_all add: NewWorld_def)

lemma AddBird_frame [simp]:
  "w_Tick (AddBird i nm pal acc w) = w_Tick w" "w_Pipes (AddBird i nm pal acc w) = w_Pipes w"
  "fmdom (w_Birds (AddBird i nm pal acc w)) = finsert i (fmdom (w_Birds w))"
  "w_nextPipeID (AddBird i nm pal acc w) = w_nextPipeID w"
  by (auto simp: AddBird_def)

lemma AddBird_order:
  "i |\<notin>| fmdom (w_Birds w) \<Longrightarrow> w_Order (AddBird i nm pal acc w) = w_Order w @ [i]"
  by (simp add: AddBird_def)

lemma AddBird_lookup:
  "fmlookup (w_Birds (AddBird i nm pal acc w)) j =
     (if j = i \<and> i |\<notin>| fmdom (w_Birds w)
      then Some \<lparr>b_ID = i, b_Name = nm, b_Pal = pal, b_Acc = acc, b_Y = SpawnY, b_Vy = 0, b_Score = 0,
        b_Dead = False, b_DeathTick = 0, b_Left = False, b_LastFlap = 0, b_NextPipeID = 1\<rparr>
      else fmlookup (w_Birds w) j)"
  by (simp add: AddBird_def)

lemma AddBird_inv [inv_intros]:
  assumes "world_inv w" "w_Tick w = 0"
  shows "world_inv (AddBird i nm pal acc w)"
proof -
  note inv = assms(1) [unfolded world_inv_def]
  have "unat (w_nextPipeID w) = 0" using inv assms(2) by simp
  then have pc: "passed_count (AddBird i nm pal acc w) = 0" "passed_count w = 0"
    by (simp_all add: passed_count_def)
  have p: "pipes_inv (AddBird i nm pal acc w)"
    using inv by (auto simp: AddBird_def pipes_inv_def pipe_ids_def)
  have "fadd 400 11 \<le> 411" unfolding fadd_def by (intro rnd64_le) auto
  then have nb: "bird_inv 0 0 \<lparr>b_ID = i, b_Name = nm, b_Pal = pal, b_Acc = acc, b_Y = SpawnY, b_Vy = 0,
      b_Score = 0, b_Dead = False, b_DeathTick = 0, b_Left = False, b_LastFlap = 0, b_NextPipeID = 1\<rparr>"
    by (simp add: bird_inv_def)
  have "birds_wf (AddBird i nm pal acc w)"
    using inv by (cases "i |\<in>| fmdom (w_Birds w)") (simp_all add: birds_wf_def AddBird_def)
  with p nb inv assms(2) pc show ?thesis
    by (auto simp: world_inv_def AddBird_lookup)
qed

lemma RemoveBird_frame [simp]:
  "w_Tick (RemoveBird i w) = w_Tick w" "w_Pipes (RemoveBird i w) = w_Pipes w"
  "fmdom (w_Birds (RemoveBird i w)) = fmdom (w_Birds w) |-| {|i|}"
  "w_nextPipeID (RemoveBird i w) = w_nextPipeID w"
  by (auto simp: RemoveBird_def)

lemma RemoveBird_lookup:
  "fmlookup (w_Birds (RemoveBird i w)) j = (if j = i then None else fmlookup (w_Birds w) j)"
  by (simp add: RemoveBird_def fmdom_notD)

lemma RemoveBird_order:
  "birds_wf w \<Longrightarrow> w_Order (RemoveBird i w) = remove1 i (w_Order w)"
  by (simp add: RemoveBird_def birds_wf_def remove1_idem)

lemma RemoveBird_inv [inv_intros]: "world_inv w \<Longrightarrow> world_inv (RemoveBird i w)"
proof -
  assume a: "world_inv w"
  then have wf: "birds_wf w" by (simp add: world_inv_def)
  have p: "pipes_inv (RemoveBird i w) = pipes_inv w"
    by (simp add: RemoveBird_def pipes_inv_def pipe_ids_def)
  have c: "passed_count (RemoveBird i w) = passed_count w" by (rule passed_count_cong) simp_all
  have "birds_wf (RemoveBird i w)"
    using wf RemoveBird_order [OF wf, of i] by (auto simp: birds_wf_def RemoveBird_lookup)
  with a show ?thesis unfolding world_inv_def p c by (simp add: RemoveBird_lookup)
qed

lemma KillLeft_frame [simp]:
  "w_Tick (KillLeft i w) = w_Tick w" "w_Pipes (KillLeft i w) = w_Pipes w"
  "w_Order (KillLeft i w) = w_Order w" "w_nextPipeID (KillLeft i w) = w_nextPipeID w"
  "fmdom (w_Birds (KillLeft i w)) = fmdom (w_Birds w)"
  by (auto simp: KillLeft_def fmdom_upd_existing fmlookup_in_dom split: option.splits)

lemma KillLeft_lookup:
  "fmlookup (w_Birds (KillLeft i w)) j = (case fmlookup (w_Birds w) j of None \<Rightarrow> None
     | Some b \<Rightarrow> Some (if j = i \<and> \<not> b_Dead b
         then b\<lparr>b_Dead := True, b_Left := True, b_DeathTick := w_Tick w\<rparr> else b))"
  by (auto simp: KillLeft_def split: option.splits)

lemma KillLeft_inv [inv_intros]:
  assumes "world_inv w" shows "world_inv (KillLeft i w)"
proof -
  have p: "pipes_inv (KillLeft i w) = pipes_inv w"
    by (simp add: KillLeft_def split: option.split)
  have c: "passed_count (KillLeft i w) = passed_count w" by (rule passed_count_cong) simp_all
  show ?thesis
    using assms unfolding world_inv_def p c
    by (auto simp: birds_wf_def KillLeft_lookup bird_inv_def split: option.splits)
qed

section \<open>The worlds of a race\<close>

text \<open>
  Everything the hub does with a world: birds join and leave before the first tick, then ticks and
  disconnects follow until the time limit.
\<close>

inductive race_world :: "World \<Rightarrow> bool" where
  new: "race_world (NewWorld seed)"
| add: "race_world w \<Longrightarrow> w_Tick w = 0 \<Longrightarrow> race_world (AddBird i nm pal acc w)"
| remove: "race_world w \<Longrightarrow> w_Tick w = 0 \<Longrightarrow> race_world (RemoveBird i w)"
| left: "race_world w \<Longrightarrow> race_world (KillLeft i w)"
| step: "race_world w \<Longrightarrow> w_Tick w < MaxRaceTicks \<Longrightarrow> Step flaps w = Some w' \<Longrightarrow> race_world w'"

inductive_cases race_world_stepE: "race_world w"

lemma Step_tick:
  "world_inv w \<Longrightarrow> w_Tick w < MaxRaceTicks \<Longrightarrow> Step flaps w = Some w' \<Longrightarrow>
   world_inv w' \<and> w_Tick w' \<le> MaxRaceTicks \<and> stepped flaps w w'"
proof -
  assume a: "world_inv w" "w_Tick w < MaxRaceTicks" "Step flaps w = Some w'"
  then have t: "unat (w_Tick w) < 7200" by (simp add: word_less_nat_alt)
  then have t50: "unat (w_Tick w) < 2 ^ 50" by simp
  from Step_world_inv [OF a(1) t50, of flaps] a(3)
  have w': "world_inv w'" "stepped flaps w w'" by auto
  then have "unat (w_Tick w') = Suc (unat (w_Tick w))"
    using t unat_Suc_less [of "w_Tick w" 7200] by (simp add: stepped_def)
  then have "w_Tick w' \<le> MaxRaceTicks" using t by (simp add: word_le_nat_alt)
  with w' show ?thesis by blast
qed

lemma race_world_inv: "race_world w \<Longrightarrow> world_inv w \<and> w_Tick w \<le> MaxRaceTicks"
  by (induction rule: race_world.induct) (auto intro: inv_intros dest: Step_tick)

end
