(* ===== verification/Go_Sort.thy ===== *)
theory Go_Sort
  imports Prelude
begin

text \<open>
  Go's \<^verbatim>\<open>sort.SliceStable\<close> and \<^verbatim>\<open>sort.Slice\<close> with a \<^verbatim>\<open>less\<close> function, as stable insertion, and the
  contract of the \<^verbatim>\<open>less\<close> functions of the code: a strict order in which elements with
  different keys are always comparable. On lists with distinct keys the result is then the
  only ascending arrangement, whatever sorting algorithm and input order produced it.
\<close>

fun insert_by :: "('a \<Rightarrow> 'a \<Rightarrow> bool) \<Rightarrow> 'a \<Rightarrow> 'a list \<Rightarrow> 'a list" where
  "insert_by lt x [] = [x]"
| "insert_by lt x (y # ys) = (if lt y x then y # insert_by lt x ys else x # y # ys)"

definition sort_slice :: "('a \<Rightarrow> 'a \<Rightarrow> bool) \<Rightarrow> 'a list \<Rightarrow> 'a list" where
  "sort_slice lt xs = foldr (insert_by lt) xs []"

lemma mset_insert_by [simp]: "mset (insert_by lt x ys) = add_mset x (mset ys)"
  by (induction ys) auto

lemma mset_sort_slice [simp]: "mset (sort_slice lt xs) = mset xs"
  by (induction xs) (simp_all add: sort_slice_def)

lemma set_sort_slice [simp]: "set (sort_slice lt xs) = set xs"
  by (metis mset_sort_slice set_mset_mset)

lemma length_sort_slice [simp]: "length (sort_slice lt xs) = length xs"
  by (metis mset_sort_slice size_mset)

lemma set_insert_by [simp]: "set (insert_by lt x ys) = insert x (set ys)"
  by (metis mset_insert_by set_mset_add_mset_insert set_mset_mset)

lemma distinct_map_sort_slice [simp]:
  "distinct (map f (sort_slice lt xs)) \<longleftrightarrow> distinct (map f xs)"
  by (metis mset_map mset_sort_slice mset_eq_imp_distinct_iff)

locale key_order =
  fixes lt :: "'a \<Rightarrow> 'a \<Rightarrow> bool" and key :: "'a \<Rightarrow> 'k"
  assumes irrefl: "\<not> lt x x"
    and trans: "lt x y \<Longrightarrow> lt y z \<Longrightarrow> lt x z"
    and total: "key x \<noteq> key y \<Longrightarrow> lt x y \<or> lt y x"
begin

lemma asym: "lt x y \<Longrightarrow> \<not> lt y x"
  using irrefl trans by blast

lemma insert_by_ascending:
  "sorted_wrt lt ys \<Longrightarrow> key x \<notin> key ` set ys \<Longrightarrow> sorted_wrt lt (insert_by lt x ys)"
proof (induction ys)
  case (Cons y ys)
  have y: "sorted_wrt lt ys" "\<forall>z\<in>set ys. lt y z" using Cons.prems(1) by simp_all
  show ?case
  proof (cases "lt y x")
    case True
    with Cons y show ?thesis by simp
  next
    case False
    have "key x \<noteq> key y" using Cons.prems(2) by auto
    with False have xy: "lt x y" using total by blast
    then have "\<forall>z\<in>set ys. lt x z" using y(2) trans by blast
    with False y xy show ?thesis by simp
  qed
qed simp

lemma sort_ascending: "distinct (map key xs) \<Longrightarrow> sorted_wrt lt (sort_slice lt xs)"
proof (induction xs)
  case (Cons x xs)
  have "key x \<notin> key ` set (sort_slice lt xs)" using Cons.prems by simp
  then show ?case using Cons insert_by_ascending by (simp add: sort_slice_def)
qed (simp add: sort_slice_def)

lemma ascending_distinct: "sorted_wrt lt xs \<Longrightarrow> distinct xs"
  by (induction xs) (auto simp: irrefl)

lemma ascending_unique:
  "sorted_wrt lt xs \<Longrightarrow> sorted_wrt lt ys \<Longrightarrow> mset xs = mset ys \<Longrightarrow> xs = ys"
proof (induction xs arbitrary: ys)
  case (Cons x xs)
  then obtain y ys' where ys: "ys = y # ys'" by (cases ys) auto
  have "x = y"
  proof (rule ccontr)
    assume ne: "x \<noteq> y"
    have "y \<in> set (x # xs)" "x \<in> set (y # ys')"
      using Cons.prems(3) ys by (metis list.set_intros(1) set_mset_mset)+
    with ne have "lt x y" "lt y x" using Cons.prems ys by auto
    then show False using asym by blast
  qed
  with Cons ys show ?case by simp
qed simp

lemma sort_unique:
  "distinct (map key xs) \<Longrightarrow> mset ys = mset xs \<Longrightarrow> sorted_wrt lt ys \<Longrightarrow> ys = sort_slice lt xs"
  by (rule ascending_unique) (simp_all add: sort_ascending)

lemma sort_perm: "distinct (map key xs) \<Longrightarrow> mset ys = mset xs \<Longrightarrow> sort_slice lt ys = sort_slice lt xs"
  by (rule sort_unique) (simp_all add: sort_ascending mset_eq_imp_distinct_iff [of "map key ys" "map key xs"])

end

end
