(* ===== verification/Rank.thy ===== *)
theory Rank
  imports World_Inv Go_Sort
begin

text \<open>
  \<^verbatim>\<open>internal/game/rank.go\<close>: the ranking of a finished race, a total order on the racers.
\<close>

record result_row =
  rr_id :: u64
  rr_death :: u64
  rr_name :: string
  rr_score :: int
  rr_left :: bool

definition result_row :: "BirdState \<Rightarrow> result_row" where
  "result_row b = \<lparr>rr_id = b_ID b, rr_death = (if \<not> b_Dead b then MaxRaceTicks else b_DeathTick b),
     rr_name = b_Name b, rr_score = b_Score b, rr_left = b_Left b\<rparr>"

definition row_less :: "result_row \<Rightarrow> result_row \<Rightarrow> bool" where
  "row_less a b = (if rr_score a \<noteq> rr_score b then rr_score a > rr_score b
     else if rr_death a \<noteq> rr_death b then rr_death a > rr_death b
     else rr_id a < rr_id b)"

definition result_snap :: "nat \<Rightarrow> result_row \<Rightarrow> ResultSnap" where
  "result_snap i r = \<lparr>rs_ID = rr_id r, rs_Name = rr_name r, rs_Score = rr_score r,
     rs_Rank = int i + 1, rs_Left = rr_left r\<rparr>"

definition result_rows :: "World \<Rightarrow> result_row list option" where
  "result_rows w = those (map (\<lambda>i. map_option result_row (fmlookup (w_Birds w) i)) (w_Order w))"

definition Results :: "World \<Rightarrow> ResultSnap list option" where
  "Results w = do {
     rows \<leftarrow> result_rows w;
     Some (map2 result_snap [0..<length rows] (sort_slice row_less rows))
   }"

lemma row_less_eq:
  "row_less = (\<lambda>a b. rr_score a > rr_score b \<or> rr_score a = rr_score b
     \<and> (rr_death a > rr_death b \<or> rr_death a = rr_death b \<and> rr_id a < rr_id b))"
  by (intro ext) (auto simp: row_less_def)

interpretation ranking: key_order row_less rr_id
  by unfold_locales (auto simp: row_less_def split: if_splits)

lemma those_map_lookup:
  "(\<And>k. k \<in> set ks \<Longrightarrow> k |\<in>| fmdom m) \<Longrightarrow>
   those (map (\<lambda>k. map_option f (fmlookup m k)) ks) = Some (map (\<lambda>k. f (the (fmlookup m k))) ks)"
proof (induction ks)
  case (Cons a ks)
  then obtain v where "fmlookup m a = Some v" by (auto simp: fmlookup_dom_iff)
  with Cons show ?case by simp
qed simp

lemma result_rows_wf:
  "birds_wf w \<Longrightarrow> result_rows w = Some (map (\<lambda>i. result_row (the (fmlookup (w_Birds w) i))) (w_Order w))"
  unfolding result_rows_def by (rule those_map_lookup) (simp add: birds_wf_def)

lemma result_rows_ids:
  assumes "birds_wf w" "result_rows w = Some rows"
  shows "map rr_id rows = w_Order w" "distinct (map rr_id rows)"
proof -
  have "b_ID (the (fmlookup (w_Birds w) i)) = i" if "i \<in> set (w_Order w)" for i
  proof -
    from that assms(1) have "i |\<in>| fmdom (w_Birds w)" by (simp add: birds_wf_def)
    then obtain b where "fmlookup (w_Birds w) i = Some b" by (auto simp: fmlookup_dom_iff)
    with assms(1) show ?thesis by (simp add: birds_wf_def)
  qed
  then have "map (\<lambda>i. b_ID (the (fmlookup (w_Birds w) i))) (w_Order w) = w_Order w"
    by (simp add: map_idI)
  then show "map rr_id rows = w_Order w"
    using assms(2) by (auto simp: result_rows_wf [OF assms(1)] result_row_def comp_def)
  then show "distinct (map rr_id rows)" using assms(1) by (simp add: birds_wf_def)
qed

lemma Results_wf:
  assumes "birds_wf w"
  obtains rows where "result_rows w = Some rows" "map rr_id rows = w_Order w"
    "sorted_wrt row_less (sort_slice row_less rows)"
    "Results w = Some (map2 result_snap [0..<length rows] (sort_slice row_less rows))"
proof -
  obtain rows where rows: "result_rows w = Some rows" using result_rows_wf [OF assms] by blast
  note ids = result_rows_ids [OF assms rows]
  show thesis
    using that [OF rows ids(1) ranking.sort_ascending [OF ids(2)]] rows by (simp add: Results_def)
qed

lemma map2_result_snap:
  assumes "length rows = n"
  shows "map rs_ID (map2 result_snap [0..<n] rows) = map rr_id rows"
    "map rs_Name (map2 result_snap [0..<n] rows) = map rr_name rows"
  using assms by (auto intro!: nth_equalityI simp: result_snap_def)

lemma Results_ids:
  assumes "birds_wf w" "Results w = Some rs"
  shows "mset (map rs_ID rs) = mset (w_Order w)" "length rs = length (w_Order w)"
proof -
  obtain rows where rows: "map rr_id rows = w_Order w"
    "Results w = Some (map2 result_snap [0..<length rows] (sort_slice row_less rows))"
    using Results_wf [OF assms(1)] by blast
  with assms(2) have "rs = map2 result_snap [0..<length rows] (sort_slice row_less rows)" by simp
  then have "map rs_ID rs = map rr_id (sort_slice row_less rows)"
    by (simp only: map2_result_snap(1) [OF length_sort_slice])
  then have "mset (map rs_ID rs) = mset (map rr_id rows)" by simp
  then show "mset (map rs_ID rs) = mset (w_Order w)" by (simp only: rows)
  then show "length rs = length (w_Order w)" by (metis length_map size_mset)
qed

end
