(* ===== verification/Store.thy ===== *)
theory Store
  imports Protocol Go_Sort "HOL-Library.List_Lexorder" "HOL-Library.Char_ord"
begin

text \<open>
  \<^verbatim>\<open>internal/server/store.go\<close>: the persistent leaderboard. The file system is part of the state:
  a map from paths to contents, where a content is either a serialised database or bytes that
  \<^verbatim>\<open>json.Unmarshal\<close> refuses, and a stream of outcomes decides how each save ends (a crash inside
  a save leaves the files of one of the failing outcomes). Times are Unix milliseconds.
  A range over a Go map visits the keys in an unspecified order; the model enumerates them in
  ascending order and \<open>rebuild_enum_indep\<close> shows that the order does not matter.
\<close>

section \<open>State\<close>

record PlayerStat =
  pl_Best :: int
  pl_BestTheme :: string
  pl_BestAt :: int
  pl_Races :: int
  pl_Wins :: int
  pl_Bird :: Bird

definition zero_stat :: PlayerStat where
  "zero_stat = \<lparr>pl_Best = 0, pl_BestTheme = [], pl_BestAt = 0, pl_Races = 0, pl_Wins = 0,
     pl_Bird = \<lparr>Palette = 0, Accessory = 0\<rparr>\<rparr>"

record stateDB =
  db_Updated :: int
  db_Top :: "TopEntry list"
  db_Players :: "(string, PlayerStat) fmap"

definition empty_db :: stateDB where
  "empty_db = \<lparr>db_Updated = 0, db_Top = [], db_Players = fmempty\<rparr>"

text \<open>A file: a state document, whose players may be null, or anything else.\<close>

datatype state_file = FileDB int "TopEntry list" "(string, PlayerStat) fmap option" | FileJunk

definition marshal_db :: "stateDB \<Rightarrow> state_file" where
  "marshal_db db = FileDB (db_Updated db) (db_Top db) (Some (db_Players db))"

datatype save_outcome = MkdirFails | WriteFails "state_file option" | RenameFails | Saves

record Store =
  st_path :: string
  st_db :: stateDB
  st_api :: "int \<times> TopEntry list"
  st_fs :: "(string, state_file) fmap"
  st_env :: "nat \<Rightarrow> save_outcome"
  st_saves :: nat

datatype open_error = ReadFails | Corrupt

section \<open>Saving\<close>

definition tmp_path :: "string \<Rightarrow> string" where
  "tmp_path p = p @ ''.tmp''"

definition save :: "Store \<Rightarrow> Store \<times> bool" where
  "save s = (let
       tmp = tmp_path (st_path s); data = marshal_db (st_db s);
       s' = s\<lparr>st_saves := Suc (st_saves s)\<rparr>
     in case st_env s (st_saves s) of
       MkdirFails \<Rightarrow> (s', False)
     | WriteFails part \<Rightarrow>
         (s'\<lparr>st_fs := (case part of None \<Rightarrow> fmdrop tmp (st_fs s) | Some f \<Rightarrow> fmupd tmp f (st_fs s))\<rparr>, False)
     | RenameFails \<Rightarrow> (s'\<lparr>st_fs := fmupd tmp data (st_fs s)\<rparr>, False)
     | Saves \<Rightarrow> (s'\<lparr>st_fs := fmupd (st_path s) data (fmdrop tmp (st_fs s))\<rparr>, True))"

definition refreshAPI :: "Store \<Rightarrow> Store" where
  "refreshAPI s = s\<lparr>st_api := (db_Updated (st_db s), db_Top (st_db s))\<rparr>"

definition APIBytes :: "Store \<Rightarrow> int \<times> TopEntry list" where
  "APIBytes s = st_api s"

definition persist :: "Store \<Rightarrow> Store" where
  "persist s = refreshAPI (fst (save s))"

text \<open>Opening: \<open>readable\<close> is false when the file exists and reading it fails.\<close>

definition OpenStore ::
  "string \<Rightarrow> bool \<Rightarrow> (string, state_file) fmap \<Rightarrow> (nat \<Rightarrow> save_outcome) \<Rightarrow> Store \<times> open_error option" where
  "OpenStore path readable fs env = (let
       s = \<lparr>st_path = path, st_db = empty_db, st_api = (0, []), st_fs = fs, st_env = env, st_saves = 0\<rparr>
     in case fmlookup fs path of
       None \<Rightarrow> (refreshAPI s, None)
     | Some f \<Rightarrow>
         if \<not> readable then (refreshAPI s, Some ReadFails)
         else (case f of
             FileJunk \<Rightarrow> (refreshAPI (s\<lparr>st_db := empty_db\<rparr>), Some Corrupt)
           | FileDB up tops players \<Rightarrow>
               (refreshAPI (s\<lparr>st_db := \<lparr>db_Updated = up, db_Top = tops,
                  db_Players = (case players of None \<Rightarrow> fmempty | Some m \<Rightarrow> m)\<rparr>\<rparr>), None)))"

section \<open>Players\<close>

definition LookupBird :: "string \<Rightarrow> Store \<Rightarrow> Bird \<times> bool" where
  "LookupBird name s = (let m = db_Players (st_db s); ps = fm_get zero_stat m name
     in (pl_Bird ps, name |\<in>| fmdom m \<and> bird_valid (pl_Bird ps)))"

definition put_player :: "string \<Rightarrow> PlayerStat \<Rightarrow> Store \<Rightarrow> Store" where
  "put_player name ps s = s\<lparr>st_db := (st_db s)\<lparr>db_Players := fmupd name ps (db_Players (st_db s))\<rparr>\<rparr>"

definition RememberBird :: "string \<Rightarrow> Bird \<Rightarrow> Store \<Rightarrow> Store" where
  "RememberBird name bird s =
     persist (put_player name ((fm_get zero_stat (db_Players (st_db s)) name)\<lparr>pl_Bird := bird\<rparr>) s)"

record RaceEntry =
  re_Name :: string
  re_Score :: int
  re_Rank :: int
  re_Bird :: Bird

definition fold_entry :: "string \<Rightarrow> int \<Rightarrow> RaceEntry \<Rightarrow> PlayerStat \<Rightarrow> PlayerStat" where
  "fold_entry theme t e ps = (let
       ps = ps\<lparr>pl_Bird := re_Bird e\<rparr>;
       ps = ps\<lparr>pl_Races := pl_Races ps + 1\<rparr>;
       ps = (if re_Rank e = 1 then ps\<lparr>pl_Wins := pl_Wins ps + 1\<rparr> else ps)
     in if re_Score e > pl_Best ps
        then ps\<lparr>pl_Best := re_Score e, pl_BestTheme := theme, pl_BestAt := t\<rparr> else ps)"

definition record_entry :: "string \<Rightarrow> int \<Rightarrow> RaceEntry \<Rightarrow> Store \<Rightarrow> Store" where
  "record_entry theme t e s =
     put_player (re_Name e) (fold_entry theme t e (fm_get zero_stat (db_Players (st_db s)) (re_Name e))) s"

section \<open>The all-time list\<close>

definition top_less :: "TopEntry \<Rightarrow> TopEntry \<Rightarrow> bool" where
  "top_less a b = (if te_Score a \<noteq> te_Score b then te_Score a > te_Score b
     else str_less (te_Name a) (te_Name b))"

definition top_entry :: "string \<times> PlayerStat \<Rightarrow> TopEntry" where
  "top_entry np = (case np of (name, ps) \<Rightarrow>
     \<lparr>te_Name = name, te_Score = pl_Best ps, te_Theme = pl_BestTheme ps, te_At = pl_BestAt ps\<rparr>)"

definition rebuild_from :: "(string \<times> PlayerStat) list \<Rightarrow> TopEntry list" where
  "rebuild_from ps = take MaxTopEntries
     (sort_slice top_less (map top_entry (filter (\<lambda>np. \<not> pl_Best (snd np) \<le> 0) ps)))"

definition rebuildTop :: "Store \<Rightarrow> Store" where
  "rebuildTop s = s\<lparr>st_db := (st_db s)\<lparr>db_Top := rebuild_from (sorted_list_of_fmap (db_Players (st_db s)))\<rparr>\<rparr>"

definition RecordRace :: "RaceEntry list \<Rightarrow> Theme \<Rightarrow> int \<Rightarrow> Store \<Rightarrow> Store" where
  "RecordRace entries theme t s = (let
       s = fold (record_entry (theme_string theme) t) entries s;
       s = rebuildTop s;
       s = s\<lparr>st_db := (st_db s)\<lparr>db_Updated := t\<rparr>\<rparr>
     in persist s)"

section \<open>Frames\<close>

lemma save_frame [simp]:
  "st_db (fst (save s)) = st_db s" "st_path (fst (save s)) = st_path s" "st_env (fst (save s)) = st_env s"
  by (simp_all add: save_def Let_def split: save_outcome.split)

lemma persist_frame [simp]:
  "st_db (persist s) = st_db s" "st_path (persist s) = st_path s" "st_env (persist s) = st_env s"
  "st_api (persist s) = (db_Updated (st_db s), db_Top (st_db s))" "st_fs (persist s) = st_fs (fst (save s))"
  by (simp_all add: persist_def refreshAPI_def)

lemma put_player_frame [simp]:
  "db_Players (st_db (put_player n ps s)) = fmupd n ps (db_Players (st_db s))"
  "db_Top (st_db (put_player n ps s)) = db_Top (st_db s)" "st_path (put_player n ps s) = st_path s"
  "st_fs (put_player n ps s) = st_fs s" "st_env (put_player n ps s) = st_env s"
  "st_saves (put_player n ps s) = st_saves s"
  by (simp_all add: put_player_def)

lemma rebuildTop_frame [simp]:
  "db_Players (st_db (rebuildTop s)) = db_Players (st_db s)" "st_path (rebuildTop s) = st_path s"
  "st_fs (rebuildTop s) = st_fs s"
  by (simp_all add: rebuildTop_def)

lemma fold_record_frame [simp]:
  "st_path (fold (record_entry th t) es s) = st_path s" "st_fs (fold (record_entry th t) es s) = st_fs s"
  by (induction es arbitrary: s) (simp_all add: record_entry_def)

lemma RecordRace_players:
  "db_Players (st_db (RecordRace es theme t s)) = db_Players (st_db (fold (record_entry (theme_string theme) t) es s))"
  by (simp add: RecordRace_def Let_def)

lemma RecordRace_top:
  "db_Top (st_db (RecordRace es theme t s)) = rebuild_from (sorted_list_of_fmap (db_Players (st_db (RecordRace es theme t s))))"
  by (simp add: RecordRace_def rebuildTop_def Let_def)

section \<open>Saving is atomic\<close>

lemma tmp_path_neq [simp]: "tmp_path p \<noteq> p" "p \<noteq> tmp_path p"
  by (simp_all add: tmp_path_def)

lemma save_path_content:
  "fmlookup (st_fs (fst (save s))) (st_path s) =
     (if snd (save s) then Some (marshal_db (st_db s)) else fmlookup (st_fs s) (st_path s))"
  by (simp add: save_def Let_def split: save_outcome.split option.split)

lemma save_ok_iff: "snd (save s) \<longleftrightarrow> st_env s (st_saves s) = Saves"
  by (simp add: save_def Let_def split: save_outcome.split)

lemma save_other_files:
  "p \<noteq> st_path s \<Longrightarrow> p \<noteq> tmp_path (st_path s) \<Longrightarrow>
   fmlookup (st_fs (fst (save s))) p = fmlookup (st_fs s) p"
  by (auto simp: save_def Let_def split: save_outcome.split option.split)

lemma OpenStore_marshal:
  "fmlookup fs p = Some (marshal_db db) \<Longrightarrow>
   st_db (fst (OpenStore p True fs env)) = db \<and> snd (OpenStore p True fs env) = None"
  by (simp add: OpenStore_def marshal_db_def refreshAPI_def)

section \<open>Birds\<close>

lemma LookupBird_put [simp]:
  "LookupBird n (put_player m ps s) = (if n = m then (pl_Bird ps, bird_valid (pl_Bird ps)) else LookupBird n s)"
  by (simp add: LookupBird_def Let_def)

lemma LookupBird_persist [simp]: "LookupBird n (persist s) = LookupBird n s"
  by (simp add: LookupBird_def)

lemma LookupBird_rebuildTop [simp]: "LookupBird n (rebuildTop s) = LookupBird n s"
  by (simp add: LookupBird_def)

lemma LookupBird_RememberBird:
  "LookupBird n (RememberBird m b s) = (if n = m then (b, bird_valid b) else LookupBird n s)"
  by (simp add: RememberBird_def)

lemma fold_entry_Bird [simp]: "pl_Bird (fold_entry th t e ps) = re_Bird e"
  by (simp add: fold_entry_def Let_def)

lemma LookupBird_record:
  "(\<And>e. e \<in> set es \<Longrightarrow> re_Name e = n \<Longrightarrow> re_Bird e = b) \<Longrightarrow> LookupBird n s = (b, True) \<Longrightarrow>
   LookupBird n (fold (record_entry th t) es s) = (b, True)"
proof (induction es arbitrary: s)
  case (Cons e es)
  have "bird_valid b" using Cons.prems(2) by (auto simp: LookupBird_def Let_def)
  then have "LookupBird n (record_entry th t e s) = (b, True)"
    using Cons.prems by (auto simp: record_entry_def)
  with Cons show ?case by simp
qed simp

lemma LookupBird_db:
  "db_Players (st_db s) = db_Players (st_db t) \<Longrightarrow> LookupBird n s = LookupBird n t"
  by (simp add: LookupBird_def)

lemma LookupBird_RecordRace:
  assumes "\<And>e. e \<in> set es \<Longrightarrow> re_Name e = n \<Longrightarrow> re_Bird e = b" "LookupBird n s = (b, True)"
  shows "LookupBird n (RecordRace es theme t s) = (b, True)"
  using LookupBird_record [OF assms] LookupBird_db [OF RecordRace_players] by metis

section \<open>The all-time list\<close>

interpretation top_order: key_order top_less te_Name
proof unfold_locales
  show "\<not> top_less x x" for x by (simp add: top_less_def str_less_irrefl)
  show "top_less x y \<Longrightarrow> top_less y z \<Longrightarrow> top_less x z" for x y z
    by (auto simp: top_less_def split: if_splits intro: str_less_trans)
  show "te_Name x \<noteq> te_Name y \<Longrightarrow> top_less x y \<or> top_less y x" for x y
    using str_less_linear [of "te_Name x" "te_Name y"] by (auto simp: top_less_def)
qed

text \<open>An enumeration of the players, in any order.\<close>

definition enumerates :: "(string \<times> PlayerStat) list \<Rightarrow> (string, PlayerStat) fmap \<Rightarrow> bool" where
  "enumerates ps m \<longleftrightarrow> distinct (map fst ps) \<and> map_of ps = fmlookup m"

lemma enumerates_sorted: "enumerates (sorted_list_of_fmap m) m"
  by (simp add: enumerates_def) (simp add: sorted_list_of_fmap_def comp_def sorted_list_of_fset.rep_eq)

lemma enumerates_set: "enumerates ps m \<Longrightarrow> set ps = {(n, p). fmlookup m n = Some p}"
  by (auto simp: enumerates_def) (metis map_of_is_SomeI, metis map_of_SomeD)

lemma enumerates_mset:
  assumes "enumerates ps m" "enumerates qs m"
  shows "mset ps = mset qs"
proof -
  have "distinct ps" "distinct qs" using assms by (auto simp: enumerates_def distinct_map)
  moreover have "set ps = set qs" using assms by (simp add: enumerates_set)
  ultimately show ?thesis by (simp add: set_eq_iff_mset_eq_distinct)
qed

lemma top_entry_names: "map te_Name (map top_entry ps) = map fst ps"
  by (simp add: top_entry_def comp_def case_prod_unfold)

lemma top_candidates_distinct:
  "distinct (map fst ps) \<Longrightarrow> distinct (map te_Name (map top_entry (filter P ps)))"
  unfolding top_entry_names by (simp add: distinct_map inj_on_subset [of fst "set ps"])

lemma rebuild_enum_indep_lemma:
  assumes "enumerates ps m" "enumerates qs m"
  shows "rebuild_from ps = rebuild_from qs"
proof -
  let ?c = "\<lambda>ps. map top_entry (filter (\<lambda>np. \<not> pl_Best (snd np) \<le> 0) ps)"
  have "distinct (map te_Name (?c qs))"
    using assms(2) by (intro top_candidates_distinct) (simp add: enumerates_def)
  moreover have "mset (?c ps) = mset (?c qs)"
    using enumerates_mset [OF assms] by simp
  ultimately have "sort_slice top_less (?c ps) = sort_slice top_less (?c qs)"
    by (rule top_order.sort_perm)
  then show ?thesis by (simp add: rebuild_from_def)
qed

lemma rebuild_candidates:
  assumes "enumerates ps m"
  shows "set (map top_entry (filter (\<lambda>np. \<not> pl_Best (snd np) \<le> 0) ps))
    = {top_entry (n, p) | n p. fmlookup m n = Some p \<and> 0 < pl_Best p}"
proof -
  have "set (filter (\<lambda>np. \<not> pl_Best (snd np) \<le> 0) ps) = {(n, p). fmlookup m n = Some p \<and> 0 < pl_Best p}"
    using enumerates_set [OF assms] by auto
  then show ?thesis by (simp only: set_map) blast
qed

text \<open>What the list promises: the best entries, each one a player's best run, in order.\<close>

definition top_spec :: "(string, PlayerStat) fmap \<Rightarrow> TopEntry list \<Rightarrow> bool" where
  "top_spec m l \<longleftrightarrow> length l \<le> MaxTopEntries \<and> sorted_wrt top_less l
     \<and> (\<forall>e\<in>set l. \<exists>p. fmlookup m (te_Name e) = Some p \<and> 0 < pl_Best p \<and> e = top_entry (te_Name e, p))
     \<and> (\<forall>n p. fmlookup m n = Some p \<longrightarrow> 0 < pl_Best p \<longrightarrow>
          top_entry (n, p) \<in> set l
          \<or> length l = MaxTopEntries \<and> (\<forall>e\<in>set l. top_less e (top_entry (n, p))))"

lemma rebuild_top_spec:
  assumes "enumerates ps m"
  shows "top_spec m (rebuild_from ps)"
proof -
  let ?c = "map top_entry (filter (\<lambda>np. \<not> pl_Best (snd np) \<le> 0) ps)"
  let ?s = "sort_slice top_less ?c"
  have "distinct (map te_Name ?c)"
    using assms by (intro top_candidates_distinct) (simp add: enumerates_def)
  then have s: "sorted_wrt top_less ?s" by (rule top_order.sort_ascending)
  have c: "set ?s = {top_entry (n, p) | n p. fmlookup m n = Some p \<and> 0 < pl_Best p}"
    using rebuild_candidates [OF assms] by simp
  have name: "te_Name (top_entry (n, p)) = n" for n p by (simp add: top_entry_def)
  have tp: "rebuild_from ps = take MaxTopEntries ?s" by (simp add: rebuild_from_def)
  have "top_entry (n, p) \<in> set (take 50 ?s) \<or> length (take 50 ?s) = 50
      \<and> (\<forall>e\<in>set (take 50 ?s). top_less e (top_entry (n, p)))"
    if "fmlookup m n = Some p" "0 < pl_Best p" for n p
  proof (cases "top_entry (n, p) \<in> set (take 50 ?s)")
    case False
    have "top_entry (n, p) \<in> set ?s" using that c by blast
    then have d: "top_entry (n, p) \<in> set (drop 50 ?s)"
      using False by (metis Un_iff append_take_drop_id set_append)
    then have "50 < length ?s" by (metis drop_all empty_iff empty_set not_le)
    moreover have "\<forall>e\<in>set (take 50 ?s). top_less e (top_entry (n, p))"
      using s d by (metis append_take_drop_id sorted_wrt_append)
    ultimately show ?thesis by simp
  qed blast
  moreover have "\<forall>e\<in>set (take 50 ?s). \<exists>p. fmlookup m (te_Name e) = Some p \<and> 0 < pl_Best p
      \<and> e = top_entry (te_Name e, p)"
  proof
    fix e assume "e \<in> set (take 50 ?s)"
    then have "e \<in> set ?s" by (rule in_set_takeD)
    then obtain n p where "e = top_entry (n, p)" "fmlookup m n = Some p" "0 < pl_Best p"
      using c by blast
    then show "\<exists>p. fmlookup m (te_Name e) = Some p \<and> 0 < pl_Best p \<and> e = top_entry (te_Name e, p)"
      by (simp add: name)
  qed
  ultimately show ?thesis
    using s by (auto simp: top_spec_def tp sorted_wrt_take)
qed

section \<open>Recording a race\<close>

lemma record_fold_lookup:
  "distinct (map re_Name es) \<Longrightarrow>
   fmlookup (db_Players (st_db (fold (record_entry th t) es s))) n =
     (case map_of (map (\<lambda>e. (re_Name e, e)) es) n of
        None \<Rightarrow> fmlookup (db_Players (st_db s)) n
      | Some e \<Rightarrow> Some (fold_entry th t e (fm_get zero_stat (db_Players (st_db s)) n)))"
proof (induction es arbitrary: s)
  case (Cons e es)
  have ne: "map_of (map (\<lambda>e. (re_Name e, e)) es) (re_Name e) = None"
    using Cons.prems by (auto simp: map_of_eq_None_iff)
  show ?case
    using Cons ne by (auto simp: record_entry_def split: option.split)
qed simp

lemma fold_entry_stats:
  "pl_Races (fold_entry th t e ps) = pl_Races ps + 1"
  "pl_Wins (fold_entry th t e ps) = pl_Wins ps + (if re_Rank e = 1 then 1 else 0)"
  "pl_Best (fold_entry th t e ps) = max (pl_Best ps) (re_Score e)"
  by (simp_all add: fold_entry_def Let_def)

text \<open>The list published always belongs to the players stored.\<close>

definition store_inv :: "Store \<Rightarrow> bool" where
  "store_inv s \<longleftrightarrow> db_Top (st_db s) = rebuild_from (sorted_list_of_fmap (db_Players (st_db s)))
     \<and> st_api s = (db_Updated (st_db s), db_Top (st_db s))"

lemma top_entry_Bird: "top_entry (n, ps\<lparr>pl_Bird := b\<rparr>) = top_entry (n, ps)"
  by (simp add: top_entry_def)

lemma store_inv_RecordRace [inv_intros]: "store_inv (RecordRace es theme t s)"
  using RecordRace_top [of es theme t s] by (simp add: store_inv_def RecordRace_def Let_def)

lemma top_spec_unique:
  assumes "top_spec m l" "top_spec m k"
  shows "l = k"
proof -
  let ?C = "{top_entry (n, p) | n p. fmlookup m n = Some p \<and> 0 < pl_Best p}"
  have mem: "set l \<subseteq> ?C" "set k \<subseteq> ?C" using assms unfolding top_spec_def by blast+
  have dist: "distinct l" "distinct k"
    using assms top_order.ascending_distinct unfolding top_spec_def by blast+
  have sub: "set a \<subseteq> set b" if a: "top_spec m a" "distinct a" "set a \<subseteq> ?C"
    and b: "top_spec m b" "distinct b" "set b \<subseteq> ?C" for a b
  proof (rule ccontr)
    assume "\<not> set a \<subseteq> set b"
    then obtain x where x: "x \<in> set a" "x \<notin> set b" by blast
    then obtain n p where np: "x = top_entry (n, p)" "fmlookup m n = Some p" "0 < pl_Best p"
      using a(3) by blast
    then have full: "length b = MaxTopEntries" "\<forall>e\<in>set b. top_less e x"
      using b(1) x unfolding top_spec_def by blast+
    have "\<not> set b \<subseteq> set a"
    proof
      assume "set b \<subseteq> set a"
      then have "set (x # b) \<subseteq> set a" using x by simp
      moreover have "distinct (x # b)" using x b(2) by simp
      ultimately have "length (x # b) \<le> length a"
        by (metis card_mono distinct_card List.finite_set a(2))
      then show False using full(1) a(1) by (simp add: top_spec_def)
    qed
    then obtain y where y: "y \<in> set b" "y \<notin> set a" by blast
    then obtain n' p' where np': "y = top_entry (n', p')" "fmlookup m n' = Some p'" "0 < pl_Best p'"
      using b(3) by blast
    then have "top_less x y" using a(1) x y unfolding top_spec_def by blast
    moreover have "top_less y x" using full(2) y by blast
    ultimately show False using top_order.asym by blast
  qed
  have "set l = set k" using sub assms dist mem by blast
  then have "mset l = mset k" using dist by (simp add: set_eq_iff_mset_eq_distinct)
  then show ?thesis using assms top_order.ascending_unique unfolding top_spec_def by blast
qed

lemma store_inv_RememberBird [inv_intros]:
  assumes "store_inv s" shows "store_inv (RememberBird n b s)"
proof -
  let ?m = "db_Players (st_db s)"
  let ?m' = "fmupd n ((fm_get zero_stat ?m n)\<lparr>pl_Bird := b\<rparr>) ?m"
  have "top_spec ?m' l = top_spec ?m l" for l
  proof -
    have 1: "(\<exists>p. fmlookup ?m' k = Some p \<and> 0 < pl_Best p \<and> e = top_entry (k, p))
        \<longleftrightarrow> (\<exists>p. fmlookup ?m k = Some p \<and> 0 < pl_Best p \<and> e = top_entry (k, p))" for k e
      by (auto simp: fm_get_def zero_stat_def top_entry_Bird split: option.splits)
    have 2: "(\<forall>k p. fmlookup ?m' k = Some p \<longrightarrow> 0 < pl_Best p \<longrightarrow> P (top_entry (k, p)))
        \<longleftrightarrow> (\<forall>k p. fmlookup ?m k = Some p \<longrightarrow> 0 < pl_Best p \<longrightarrow> P (top_entry (k, p)))" for P
      by (auto simp: fm_get_def zero_stat_def top_entry_Bird split: option.splits)
    show ?thesis
      unfolding top_spec_def 1
        2 [of "\<lambda>x. x \<in> set l \<or> length l = MaxTopEntries \<and> (\<forall>e\<in>set l. top_less e x)"] ..
  qed
  then have "rebuild_from (sorted_list_of_fmap ?m') = rebuild_from (sorted_list_of_fmap ?m)"
    using rebuild_top_spec [OF enumerates_sorted] top_spec_unique by blast
  then show ?thesis using assms by (simp add: store_inv_def RememberBird_def)
qed

end
