(* ===== verification/Conn.thy ===== *)
theory Conn
  imports Protocol
begin

text \<open>
  \<^verbatim>\<open>internal/server/client.go\<close>: the transport half of a session, a queue of frames for the one
  writer goroutine that drops the oldest frame when the client stalls. Enqueuing on a closed
  queue is a send on a closed channel, a panic.
\<close>

record Conn =
  c_send :: "frame list"
  c_closed :: bool

definition sendQueueLen :: nat where [simp]: "sendQueueLen = 64"

definition newClientConn :: Conn where
  "newClientConn = \<lparr>c_send = [], c_closed = False\<rparr>"

text \<open>The retry loop: drop the oldest frame until the send succeeds.\<close>

function enqueue_loop :: "frame \<Rightarrow> frame list \<Rightarrow> frame list" where
  "enqueue_loop f q = (if length q < sendQueueLen then q @ [f] else enqueue_loop f (tl q))"
  by auto
termination by (relation "measure (\<lambda>(f, q). length q)") auto

declare enqueue_loop.simps [simp del]

definition enqueue :: "frame \<Rightarrow> Conn \<Rightarrow> Conn option" where
  "enqueue f c = (if c_closed c then None else Some (c\<lparr>c_send := enqueue_loop f (c_send c)\<rparr>))"

definition close :: "Conn \<Rightarrow> Conn" where
  "close c = (if c_closed c then c else c\<lparr>c_closed := True\<rparr>)"

datatype ws_write = WFrame frame | WClose

text \<open>One receive of \<^verbatim>\<open>writePump\<close>: the next frame, or the end once a closed queue is drained.\<close>

definition write_next :: "Conn \<Rightarrow> (ws_write \<times> Conn) option" where
  "write_next c = (case c_send c of
       f # fs \<Rightarrow> Some (WFrame f, c\<lparr>c_send := fs\<rparr>)
     | [] \<Rightarrow> if c_closed c then Some (WClose, c) else None)"

lemma enqueue_loop_drop: "enqueue_loop f q = drop (Suc (length q) - sendQueueLen) q @ [f]"
proof (induction f q rule: enqueue_loop.induct)
  case (1 f q)
  show ?case
  proof (cases "length q < sendQueueLen")
    case True
    then show ?thesis by (subst enqueue_loop.simps) simp
  next
    case False
    then have "enqueue_loop f q = enqueue_loop f (tl q)" by (subst enqueue_loop.simps) simp
    also have "\<dots> = drop (Suc (length (tl q)) - sendQueueLen) (tl q) @ [f]" using 1 False by blast
    also have "\<dots> = drop (Suc (length q) - sendQueueLen) q @ [f]"
    proof -
      have "Suc (length q) - 64 = Suc (Suc (length (tl q)) - 64)" using False by (cases q) auto
      then show ?thesis by (simp only: sendQueueLen_def drop_Suc)
    qed
    finally show ?thesis .
  qed
qed

section \<open>The queue contract\<close>

text \<open>What the hub relies on: a send to an open queue succeeds, stays open and keeps the newest frames.\<close>

locale frame_queue =
  fixes enq :: "'f \<Rightarrow> 'q \<Rightarrow> 'q option" and pending :: "'q \<Rightarrow> 'f list"
    and is_open :: "'q \<Rightarrow> bool" and cap :: nat
  assumes cap_pos: "0 < cap"
    and enq_open: "is_open q \<Longrightarrow> \<exists>q'. enq f q = Some q' \<and> is_open q'
        \<and> pending q' = drop (Suc (length (pending q)) - cap) (pending q) @ [f]"
    and enq_closed: "\<not> is_open q \<Longrightarrow> enq f q = None"
begin

fun enq_all :: "'f list \<Rightarrow> 'q \<Rightarrow> 'q option" where
  "enq_all [] q = Some q"
| "enq_all (f # fs) q = Option.bind (enq f q) (enq_all fs)"

lemma enq_SomeD:
  assumes "enq f q = Some q'"
  shows "is_open q" "is_open q'" "pending q' = drop (Suc (length (pending q)) - cap) (pending q) @ [f]"
proof -
  show "is_open q" using assms enq_closed [of q f] by auto
  from enq_open [OF this, of f] assms
  show "is_open q'" "pending q' = drop (Suc (length (pending q)) - cap) (pending q) @ [f]" by auto
qed

lemma enq_last: "enq f q = Some q' \<Longrightarrow> last (pending q') = f"
  by (simp add: enq_SomeD)

lemma enq_bound: "enq f q = Some q' \<Longrightarrow> length (pending q) \<le> cap \<Longrightarrow> length (pending q') \<le> cap"
  using cap_pos by (auto simp: enq_SomeD)

text \<open>A burst of frames without a read in between: the newest \<open>cap\<close> of everything survive.\<close>

lemma enq_all_newest:
  "is_open q \<Longrightarrow> length (pending q) \<le> cap \<Longrightarrow>
   \<exists>q'. enq_all fs q = Some q' \<and> is_open q'
      \<and> pending q' = drop (length (pending q) + length fs - cap) (pending q @ fs)"
proof (induction fs arbitrary: q)
  case (Cons f fs)
  from enq_open [OF Cons.prems(1), of f] obtain q' where q': "enq f q = Some q'" "is_open q'"
    "pending q' = drop (Suc (length (pending q)) - cap) (pending q) @ [f]" by blast
  have b: "length (pending q') \<le> cap" using enq_bound [OF q'(1) Cons.prems(2)] .
  have eq: "pending q' = drop (Suc (length (pending q)) - cap) (pending q @ [f])"
    using q'(3) cap_pos by simp
  from Cons.IH [OF q'(2) b] obtain q'' where q'': "enq_all fs q' = Some q''" "is_open q''"
    "pending q'' = drop (length (pending q') + length fs - cap) (pending q' @ fs)" by blast
  have "drop (length (pending q') + length fs - cap) (pending q' @ fs)
      = drop (length (pending q) + length (f # fs) - cap) (pending q @ f # fs)"
  proof (cases "length (pending q) < cap")
    case True
    then have "pending q' = pending q @ [f]" using q'(3) by simp
    then show ?thesis by simp
  next
    case False
    with Cons.prems(2) cap_pos obtain x xs where x: "pending q = x # xs" "cap = Suc (length xs)"
      by (cases "pending q") auto
    then have "pending q' = xs @ [f]" using q'(3) by simp
    with x show ?thesis by simp
  qed
  with q' q'' show ?case by auto
qed simp

end

interpretation conn: frame_queue enqueue c_send "\<lambda>c. \<not> c_closed c" sendQueueLen
  by unfold_locales (simp_all add: enqueue_def enqueue_loop_drop)

lemma close_frame [simp]: "c_closed (close c)" "c_send (close c) = c_send c" "close (close c) = close c"
  by (simp_all add: close_def)

end
