(* ===== verification/Hub.thy ===== *)
theory Hub
  imports Rank Store Conn "HOL-Library.Signed_Division"
begin

text \<open>
  \<^verbatim>\<open>internal/server/hub.go\<close>, \<^verbatim>\<open>session.go\<close> and \<^verbatim>\<open>config.go\<close>: the hub owns the player registry,
  the race state machine and the world, and one goroutine runs its handlers one after another.
  The record below is that goroutine's state together with the heap it shares by pointer:
  the sessions ever created (\<open>h_sess\<close>, by id) and the connections (\<open>h_conns\<close>, by an address).
  \<^verbatim>\<open>h.players\<close> maps an id to the session of that id, so its keys are enough. \<^verbatim>\<open>h.now\<close> is an
  arbitrary stream of readings, consumed one by one; \<open>tbl\<close> is \<^verbatim>\<open>unicode.IsPrint\<close> beyond ASCII.
  \<^term>\<open>None\<close> is a panic: a nil dereference, or a send on a closed queue.
\<close>

section \<open>State\<close>

record Session =
  s_ID :: u64
  s_Name :: string
  s_Bird :: Bird
  s_conn :: nat
  s_flapSec :: int
  s_flapCount :: int

record joinReply =
  jr_sess :: "u64 option"
  jr_errMsg :: string

datatype event =
  EvJoin nat string
| EvFlap "u64 option"
| EvLeave "nat option" "u64 option"

record raceInfo =
  ri_name :: string
  ri_bird :: Bird

text \<open>Durations in nanoseconds.\<close>

record Config =
  cf_Countdown :: int
  cf_Results :: int
  cf_SnapshotHz :: int
  cf_MaxPlayers :: int

definition DefaultConfig :: Config where
  "DefaultConfig = \<lparr>cf_Countdown = 3 * 10 ^ 9, cf_Results = 6 * 10 ^ 9, cf_SnapshotHz = 0,
     cf_MaxPlayers = 0\<rparr>"

definition milliseconds :: "int \<Rightarrow> int" where
  "milliseconds d = d sdiv 10 ^ 6"

record Hub =
  h_cfg :: Config
  h_store :: Store
  h_clk :: "nat \<Rightarrow> int"
  h_calls :: nat
  h_rng :: u64
  h_sess :: "(u64, Session) fmap"
  h_conns :: "(nat, Conn) fmap"
  h_players :: "u64 fset"
  h_order :: "u64 list"
  h_names :: "(string, u64) fmap"
  h_nextID :: u64
  h_st :: race_state
  h_goAt :: int
  h_finishAt :: int
  h_lastSnap :: int
  h_world :: "World option"
  h_raceInfo :: "(u64, raceInfo) fmap option"
  h_results :: "ResultSnap list"
  h_theme :: Theme
  h_seed :: u64
  h_lastTheme :: Theme
  h_pendingFlaps :: "u64 fset"
  h_snapshotEvery :: int
  h_maxPlayers :: int

definition NewHub :: "Config \<Rightarrow> Store \<Rightarrow> (nat \<Rightarrow> int) \<Rightarrow> u64 \<Rightarrow> Hub" where
  "NewHub cfg store clk rng = (let
       cfg = (if cf_Countdown cfg \<le> 0 then cfg\<lparr>cf_Countdown := 3 * 10 ^ 9\<rparr> else cfg);
       cfg = (if cf_Results cfg \<le> 0 then cfg\<lparr>cf_Results := 6 * 10 ^ 9\<rparr> else cfg)
     in \<lparr>h_cfg = cfg, h_store = store, h_clk = clk, h_calls = 0, h_rng = rng,
         h_sess = fmempty, h_conns = fmempty, h_players = {||}, h_order = [], h_names = fmempty,
         h_nextID = 0, h_st = StWaiting, h_goAt = 0, h_finishAt = 0, h_lastSnap = 0,
         h_world = None, h_raceInfo = None, h_results = [], h_theme = 0, h_seed = 0,
         h_lastTheme = 0, h_pendingFlaps = {||},
         h_snapshotEvery = (if cf_SnapshotHz cfg > 0 then 1000 sdiv cf_SnapshotHz cfg
                            else 1000 sdiv SnapshotHz),
         h_maxPlayers = (if cf_MaxPlayers cfg > 0 then cf_MaxPlayers cfg else MaxPlayers)\<rparr>)"

section \<open>The clock, the heap and the random stream\<close>

definition now_ms :: "Hub \<Rightarrow> int \<times> Hub" where
  "now_ms h = (h_clk h (h_calls h), h\<lparr>h_calls := Suc (h_calls h)\<rparr>)"

definition player :: "Hub \<Rightarrow> u64 \<Rightarrow> Session option" where
  "player h i = (if i |\<in>| h_players h then fmlookup (h_sess h) i else None)"

definition conn_enqueue :: "nat \<Rightarrow> frame \<Rightarrow> Hub \<Rightarrow> Hub option" where
  "conn_enqueue c f h = do {
     q \<leftarrow> fmlookup (h_conns h) c;
     q' \<leftarrow> enqueue f q;
     Some (h\<lparr>h_conns := fmupd c q' (h_conns h)\<rparr>)
   }"

definition conn_close :: "nat \<Rightarrow> Hub \<Rightarrow> Hub option" where
  "conn_close c h = do {
     q \<leftarrow> fmlookup (h_conns h) c;
     Some (h\<lparr>h_conns := fmupd c (close q) (h_conns h)\<rparr>)
   }"

definition hub_next :: "Hub \<Rightarrow> u64 \<times> Hub" where
  "hub_next h = (let (v, s) = rng_next (h_rng h) in (v, h\<lparr>h_rng := s\<rparr>))"

section \<open>Helpers\<close>

definition birdTaken :: "Hub \<Rightarrow> Bird \<Rightarrow> bool" where
  "birdTaken h b = fBex (h_players h) (\<lambda>i. map_option s_Bird (fmlookup (h_sess h) i) = Some b)"

partial_function (option) unique_from ::
  "(string, u64) fmap \<Rightarrow> string \<Rightarrow> nat \<Rightarrow> string \<Rightarrow> string option" where
  "unique_from names base n name =
     (if fm_get 0 names name \<noteq> 0 then unique_from names base (Suc n) (base @ '' '' @ show_nat n)
      else Some name)"

definition uniqueName :: "Hub \<Rightarrow> string \<Rightarrow> string option" where
  "uniqueName h base = unique_from (h_names h) base 2 base"

definition reject :: "nat \<Rightarrow> string \<Rightarrow> Hub \<Rightarrow> Hub option" where
  "reject c msg h = do { h \<leftarrow> conn_enqueue c (FError msg) h; conn_close c h }"

definition sendWelcome :: "Session \<Rightarrow> int \<Rightarrow> Hub \<Rightarrow> Hub option" where
  "sendWelcome sess now h = conn_enqueue (s_conn sess) (FWelcome
     \<lparr>wm_You = s_ID sess, wm_Name = s_Name sess, wm_Bird = s_Bird sess, wm_Now = now,
      wm_St = h_st h, wm_GoAt = (if h_st h \<noteq> StWaiting then h_goAt h else 0),
      wm_Theme = h_theme h, wm_Seed = (if h_st h \<noteq> StWaiting then h_seed h else 0),
      wm_Spect = (h_st h = StRacing \<or> h_st h = StFinished)\<rparr>) h"

definition spectatorCount :: "Hub \<Rightarrow> int" where
  "spectatorCount h = int (length (filter (\<lambda>i. i |\<in>| h_players h
      \<and> (case h_world h of None \<Rightarrow> True | Some w \<Rightarrow> \<not> IsRacer w i)) (h_order h)))"

definition take_snapshot :: "int \<Rightarrow> Hub \<Rightarrow> Snapshot option" where
  "take_snapshot now h = (let
       snap = \<lparr>sn_Now = now, sn_Tick = 0, sn_St = h_st h, sn_GoAt = h_goAt h, sn_Theme = h_theme h,
         sn_Seed = h_seed h, sn_Dist = 0, sn_Wait = spectatorCount h, sn_Birds = [], sn_Pipes = [],
         sn_Res = (if h_st h = StFinished then h_results h else [])\<rparr>
     in case h_world h of
       None \<Rightarrow> Some snap
     | Some w \<Rightarrow> do {
         birds \<leftarrow> BirdSnaps w;
         Some (snap\<lparr>sn_Tick := w_Tick w, sn_Dist := w_Dist w, sn_Birds := birds,
                    sn_Pipes := PipeSnaps w\<rparr>)
       })"

fun fan_out :: "frame \<Rightarrow> u64 list \<Rightarrow> Hub \<Rightarrow> Hub option" where
  "fan_out f [] h = Some h"
| "fan_out f (i # is) h =
     (if i |\<in>| h_players h
      then do { s \<leftarrow> player h i; h \<leftarrow> conn_enqueue (s_conn s) f h; fan_out f is h }
      else fan_out f is h)"

definition broadcast :: "Hub \<Rightarrow> Hub option" where
  "broadcast h =
     (if h_st h = StWaiting \<or> h_players h = {||} then Some h
      else do {
        let (now, h) = now_ms h;
        let h = h\<lparr>h_lastSnap := now\<rparr>;
        snap \<leftarrow> take_snapshot now h;
        fan_out (FSnapshot snap) (h_order h) h
      })"

definition maybeSnapshot :: "int \<Rightarrow> Hub \<Rightarrow> Hub option" where
  "maybeSnapshot now h = (if now - h_lastSnap h \<ge> h_snapshotEvery h then broadcast h else Some h)"

section \<open>The race cycle\<close>

definition no_race :: "Hub \<Rightarrow> Hub" where
  "no_race h = h\<lparr>h_st := StWaiting, h_world := None, h_raceInfo := None, h_results := []\<rparr>"

definition pickTheme :: "Hub \<Rightarrow> Theme \<times> Hub" where
  "pickTheme h = (let (v, h) = hub_next h; t = ucast (v mod ucast ThemeCount) :: Theme
     in (if t = h_lastTheme h \<and> ThemeCount > 1 then (t + 1) mod ThemeCount else t, h))"

definition admitRacer :: "Session \<Rightarrow> Hub \<Rightarrow> Hub option" where
  "admitRacer s h = do {
     w \<leftarrow> h_world h;
     ri \<leftarrow> h_raceInfo h;
     Some (h\<lparr>h_world := Some (AddBird (s_ID s) (s_Name s) (Palette (s_Bird s)) (Accessory (s_Bird s)) w),
             h_raceInfo := Some (fmupd (s_ID s) \<lparr>ri_name = s_Name s, ri_bird = s_Bird s\<rparr> ri)\<rparr>)
   }"

fun admit_all :: "u64 list \<Rightarrow> Hub \<Rightarrow> Hub option" where
  "admit_all [] h = Some h"
| "admit_all (i # is) h = do {
     s \<leftarrow> player h i;
     w \<leftarrow> h_world h;
     ri \<leftarrow> h_raceInfo h;
     admit_all is (h\<lparr>h_world := Some (AddBird i (s_Name s) (Palette (s_Bird s)) (Accessory (s_Bird s)) w),
             h_raceInfo := Some (fmupd i \<lparr>ri_name = s_Name s, ri_bird = s_Bird s\<rparr> ri)\<rparr>)
   }"

definition beginCountdown :: "int \<Rightarrow> Hub \<Rightarrow> Hub option" where
  "beginCountdown now h = (let
       h = h\<lparr>h_st := StCountdown, h_goAt := now + milliseconds (cf_Countdown (h_cfg h))\<rparr>;
       (seed, h) = hub_next h;
       h = h\<lparr>h_seed := seed\<rparr>;
       (theme, h) = pickTheme h;
       h = h\<lparr>h_theme := theme, h_world := Some (NewWorld seed), h_raceInfo := Some fmempty,
             h_results := []\<rparr>
     in admit_all (h_order h) h)"

definition race_entry :: "(u64, raceInfo) fmap option \<Rightarrow> ResultSnap \<Rightarrow> RaceEntry" where
  "race_entry ri r = \<lparr>re_Name = rs_Name r, re_Score = rs_Score r, re_Rank = rs_Rank r,
     re_Bird = ri_bird (fm_get \<lparr>ri_name = [], ri_bird = \<lparr>Palette = 0, Accessory = 0\<rparr>\<rparr>
                  (case ri of None \<Rightarrow> fmempty | Some m \<Rightarrow> m) (rs_ID r))\<rparr>"

definition finishRace :: "int \<Rightarrow> Hub \<Rightarrow> Hub option" where
  "finishRace now h = do {
     w \<leftarrow> h_world h;
     res \<leftarrow> Results w;
     let h = h\<lparr>h_results := res, h_lastTheme := h_theme h\<rparr>;
     let h = h\<lparr>h_store := RecordRace (map (race_entry (h_raceInfo h)) (h_results h))
                              (h_theme h) now (h_store h)\<rparr>;
     if h_players h = {||} then Some (no_race h)
     else broadcast (h\<lparr>h_st := StFinished, h_finishAt := now + milliseconds (cf_Results (h_cfg h))\<rparr>)
   }"

section \<open>The handlers\<close>

definition admit_join :: "Session \<Rightarrow> int \<Rightarrow> Hub \<Rightarrow> Hub option" where
  "admit_join sess now h = (case h_st h of
       StWaiting \<Rightarrow> beginCountdown now h
     | StCountdown \<Rightarrow> admitRacer sess h
     | _ \<Rightarrow> Some h)"

definition join_bird :: "string \<Rightarrow> Hub \<Rightarrow> Bird \<times> Hub" where
  "join_bird name h = (case LookupBird name (h_store h) of (bird, known) \<Rightarrow>
     if known then (bird, h)
     else (let (bird, rng) = RandomBird rng_next (Some (birdTaken h)) (h_rng h)
           in (bird, h\<lparr>h_rng := rng, h_store := RememberBird name bird (h_store h)\<rparr>)))"

definition register :: "nat \<Rightarrow> string \<Rightarrow> Hub \<Rightarrow> Session \<times> Hub" where
  "register c name h = (let
       i = h_nextID h + 1;
       h = h\<lparr>h_nextID := i\<rparr>;
       (bird, h) = join_bird name h;
       sess = \<lparr>s_ID = i, s_Name = name, s_Bird = bird, s_conn = c, s_flapSec = 0, s_flapCount = 0\<rparr>
     in (sess, h\<lparr>h_sess := fmupd i sess (h_sess h), h_players := finsert i (h_players h),
                 h_names := fmupd name i (h_names h), h_order := h_order h @ [i]\<rparr>))"

definition handleJoin :: "(nat \<Rightarrow> bool) \<Rightarrow> nat \<Rightarrow> string \<Rightarrow> Hub \<Rightarrow> (joinReply \<times> Hub) option" where
  "handleJoin tbl c name h =
     (if int (fcard (h_players h)) \<ge> h_maxPlayers h
      then do { h \<leftarrow> reject c ''server full'' h;
                Some (\<lparr>jr_sess = None, jr_errMsg = ''server full''\<rparr>, h) }
      else (case ValidateName tbl name of (name, ok) \<Rightarrow>
        if \<not> ok
        then do { h \<leftarrow> reject c ''please pick a name (1-16 characters)'' h;
                  Some (\<lparr>jr_sess = None, jr_errMsg = ''invalid name''\<rparr>, h) }
        else do {
          name \<leftarrow> uniqueName h name;
          let (sess, h) = register c name h;
          let (now, h) = now_ms h;
          h \<leftarrow> admit_join sess now h;
          h \<leftarrow> sendWelcome sess now h;
          h \<leftarrow> broadcast h;
          Some (\<lparr>jr_sess = Some (s_ID sess), jr_errMsg = []\<rparr>, h)
        }))"

definition rate_window :: "int \<Rightarrow> Session \<Rightarrow> Session" where
  "rate_window sec s = (if s_flapSec s \<noteq> sec then s\<lparr>s_flapSec := sec, s_flapCount := 0\<rparr> else s)"

definition handleFlap :: "u64 option \<Rightarrow> Hub \<Rightarrow> Hub option" where
  "handleFlap sess h = (case sess of
       None \<Rightarrow> Some h
     | Some i \<Rightarrow>
       if h_st h \<noteq> StRacing then Some h
       else do {
         s \<leftarrow> fmlookup (h_sess h) i;
         let (now, h) = now_ms h;
         let sec = now sdiv 1000;
         let s = rate_window sec s;
         let h = h\<lparr>h_sess := fmupd i s (h_sess h)\<rparr>;
         if s_flapCount s \<ge> FlapRateLimit then Some h
         else do {
           let h = h\<lparr>h_sess := fmupd i (s\<lparr>s_flapCount := s_flapCount s + 1\<rparr>) (h_sess h)\<rparr>;
           w \<leftarrow> h_world h;
           Some (if \<not> IsRacer w (s_ID s) then h
                 else h\<lparr>h_pendingFlaps := finsert (s_ID s) (h_pendingFlaps h)\<rparr>)
         }
       })"

definition unregister :: "Session \<Rightarrow> Hub \<Rightarrow> Hub" where
  "unregister s h = h\<lparr>h_players := h_players h |-| {|s_ID s|}, h_names := fmdrop (s_Name s) (h_names h),
     h_order := remove1 (s_ID s) (h_order h)\<rparr>"

definition leave_race :: "u64 \<Rightarrow> int \<Rightarrow> Hub \<Rightarrow> Hub option" where
  "leave_race i now h = (case h_st h of
       StCountdown \<Rightarrow> (case h_world h of
           None \<Rightarrow> Some h
         | Some w \<Rightarrow>
           if IsRacer w i
           then (let w = RemoveBird i w;
                     h = h\<lparr>h_world := Some w, h_raceInfo := map_option (fmdrop i) (h_raceInfo h)\<rparr>
                 in if RacerCount w = 0 then Some (no_race h) else broadcast h)
           else Some h)
     | StRacing \<Rightarrow> do {
         w \<leftarrow> h_world h;
         if IsRacer w i
         then (let w = KillLeft i w; h = h\<lparr>h_world := Some w\<rparr>
               in if Alive w = 0 then finishRace now h else broadcast h)
         else Some h
       }
     | StFinished \<Rightarrow> Some (if h_players h = {||} then no_race h else h)
     | StWaiting \<Rightarrow> Some h)"

definition close_opt :: "nat option \<Rightarrow> Hub \<Rightarrow> Hub option" where
  "close_opt c h = (case c of None \<Rightarrow> Some h | Some c \<Rightarrow> conn_close c h)"

definition handleLeave :: "nat option \<Rightarrow> u64 option \<Rightarrow> Hub \<Rightarrow> Hub option" where
  "handleLeave c sess h = (let (now, h) = now_ms h in case sess of
       None \<Rightarrow> close_opt c h
     | Some i \<Rightarrow> do {
         s \<leftarrow> fmlookup (h_sess h) i;
         h \<leftarrow> leave_race (s_ID s) now (unregister s h);
         close_opt c h
       })"

definition tick :: "Hub \<Rightarrow> Hub option" where
  "tick h = (let (now, h) = now_ms h in case h_st h of
       StCountdown \<Rightarrow>
         if now \<ge> h_goAt h then broadcast (h\<lparr>h_st := StRacing\<rparr>) else maybeSnapshot now h
     | StRacing \<Rightarrow> do {
         w \<leftarrow> h_world h;
         w \<leftarrow> Step (h_pendingFlaps h) w;
         let h = h\<lparr>h_pendingFlaps := {||}, h_world := Some w\<rparr>;
         if Alive w = 0 \<or> w_Tick w \<ge> MaxRaceTicks then finishRace now h else maybeSnapshot now h
       }
     | StFinished \<Rightarrow>
         if now \<ge> h_finishAt h
         then (if h_players h \<noteq> {||} then do { h \<leftarrow> beginCountdown now h; broadcast h }
               else Some (no_race h))
         else maybeSnapshot now h
     | StWaiting \<Rightarrow> Some h)"

definition dispatch :: "(nat \<Rightarrow> bool) \<Rightarrow> event \<Rightarrow> Hub \<Rightarrow> (joinReply option \<times> Hub) option" where
  "dispatch tbl ev h = (case ev of
       EvJoin c name \<Rightarrow> do { (r, h) \<leftarrow> handleJoin tbl c name h; Some (Some r, h) }
     | EvFlap sess \<Rightarrow> do { h \<leftarrow> handleFlap sess h; Some (None, h) }
     | EvLeave c sess \<Rightarrow> do { h \<leftarrow> handleLeave c sess h; Some (None, h) })"

fun close_players :: "u64 list \<Rightarrow> Hub \<Rightarrow> Hub option" where
  "close_players [] h = Some h"
| "close_players (i # is) h = do {
     s \<leftarrow> player h i; h \<leftarrow> conn_close (s_conn s) h; close_players is h }"

text \<open>The map of players, visited in some order; closing is idempotent and commutes.\<close>

definition shutdown :: "Hub \<Rightarrow> Hub option" where
  "shutdown h = close_players (sorted_list_of_fset (h_players h)) h"

end
