(* ===== verification/Hub_Inv.thy ===== *)
theory Hub_Inv
  imports Hub
begin

text \<open>
  The hub's invariant and its preservation by every handler, together with the absence of
  panics: the registry (names, order and connections of the players), the race of each state
  (\<open>race_inv\<close>) and the birds remembered in the store.
\<close>

section \<open>The registry and its connections\<close>

definition open_conn :: "(nat, Conn) fmap \<Rightarrow> nat \<Rightarrow> bool" where
  "open_conn m c \<longleftrightarrow> (\<exists>q. fmlookup m c = Some q \<and> \<not> c_closed q)"

definition reg_inv :: "Hub \<Rightarrow> bool" where
  "reg_inv h \<longleftrightarrow> distinct (h_order h) \<and> set (h_order h) = fset (h_players h)
     \<and> h_players h |\<subseteq>| fmdom (h_sess h)
     \<and> (\<forall>i s. fmlookup (h_sess h) i = Some s \<longrightarrow> s_ID s = i \<and> 0 < i \<and> i \<le> h_nextID h)
     \<and> (\<forall>i s. i |\<in>| h_players h \<longrightarrow> fmlookup (h_sess h) i = Some s \<longrightarrow>
          fmlookup (h_names h) (s_Name s) = Some i \<and> open_conn (h_conns h) (s_conn s))
     \<and> (\<forall>n i. fmlookup (h_names h) n = Some i \<longrightarrow> i |\<in>| h_players h
          \<and> (\<exists>s. fmlookup (h_sess h) i = Some s \<and> s_Name s = n))
     \<and> (\<forall>i j s t. i |\<in>| h_players h \<longrightarrow> j |\<in>| h_players h \<longrightarrow> fmlookup (h_sess h) i = Some s \<longrightarrow>
          fmlookup (h_sess h) j = Some t \<longrightarrow> s_conn s = s_conn t \<longrightarrow> i = j)"

definition conns_inv :: "(nat, Conn) fmap \<Rightarrow> bool" where
  "conns_inv m \<longleftrightarrow> (\<forall>c q. fmlookup m c = Some q \<longrightarrow> length (c_send q) \<le> sendQueueLen)"

text \<open>What a handler may do to the connections while it only sends.\<close>

definition sends :: "(nat, Conn) fmap \<Rightarrow> (nat, Conn) fmap \<Rightarrow> bool" where
  "sends m m' \<longleftrightarrow> fmdom m' = fmdom m \<and> (\<forall>c. open_conn m' c = open_conn m c)
     \<and> (conns_inv m \<longrightarrow> conns_inv m')"

lemma sends_refl [simp]: "sends m m"
  by (simp add: sends_def)

lemma sends_trans: "sends m m' \<Longrightarrow> sends m' m'' \<Longrightarrow> sends m m''"
  by (simp add: sends_def)

lemma open_conn_dom: "open_conn m c \<Longrightarrow> c |\<in>| fmdom m"
  by (auto simp: open_conn_def fmlookup_dom_iff)

lemma conn_enqueue_open:
  assumes "open_conn (h_conns h) c"
  shows "\<exists>cs. conn_enqueue c f h = Some (h\<lparr>h_conns := cs\<rparr>) \<and> sends (h_conns h) cs
     \<and> (\<exists>q. fmlookup cs c = Some q \<and> last (c_send q) = f)"
proof -
  obtain q where q: "fmlookup (h_conns h) c = Some q" "\<not> c_closed q"
    using assms by (auto simp: open_conn_def)
  from conn.enq_open [OF q(2), of f] obtain q' where q': "enqueue f q = Some q'" "\<not> c_closed q'" by blast
  let ?cs = "fmupd c q' (h_conns h)"
  have "fmdom ?cs = fmdom (h_conns h)" using q(1) by (rule fmdom_upd_existing)
  moreover have "open_conn ?cs d = open_conn (h_conns h) d" for d
    using q q' by (auto simp: open_conn_def)
  moreover have "conns_inv (h_conns h) \<longrightarrow> conns_inv ?cs"
    using conn.enq_bound [OF q'(1)] q(1) unfolding conns_inv_def fmupd_lookup by (metis option.inject)
  ultimately have "sends (h_conns h) ?cs" unfolding sends_def by blast
  then show ?thesis
    using q q' conn.enq_last [OF q'(1)] by (intro exI [of _ ?cs]) (simp add: conn_enqueue_def)
qed

lemma conn_enqueue_closed:
  "fmlookup (h_conns h) c = Some q \<Longrightarrow> c_closed q \<Longrightarrow> conn_enqueue c f h = None"
  using conn.enq_closed [of q f] by (simp add: conn_enqueue_def)

lemma player_Some:
  "reg_inv h \<Longrightarrow> i |\<in>| h_players h \<Longrightarrow> \<exists>s. player h i = Some s \<and> fmlookup (h_sess h) i = Some s
     \<and> s_ID s = i \<and> fmlookup (h_names h) (s_Name s) = Some i \<and> open_conn (h_conns h) (s_conn s)"
proof -
  assume a: "reg_inv h" "i |\<in>| h_players h"
  then have "i |\<in>| fmdom (h_sess h)" unfolding reg_inv_def by blast
  then obtain s where s: "fmlookup (h_sess h) i = Some s" by (auto simp: fmlookup_dom_iff)
  with a show ?thesis unfolding reg_inv_def player_def by simp
qed

lemma reg_inv_conns:
  "reg_inv h \<Longrightarrow> sends (h_conns h) cs \<Longrightarrow> reg_inv (h\<lparr>h_conns := cs\<rparr>)"
  by (simp add: reg_inv_def sends_def)

lemma fan_out_total:
  assumes "reg_inv h" "set is \<subseteq> fset (h_players h)"
  shows "\<exists>cs. fan_out f is h = Some (h\<lparr>h_conns := cs\<rparr>) \<and> sends (h_conns h) cs"
  using assms
proof (induction "is" arbitrary: h)
  case Nil
  have "fan_out f [] h = Some (h\<lparr>h_conns := h_conns h\<rparr>)" by simp
  then show ?case using sends_refl by blast
next
  case (Cons i "is")
  then have i: "i |\<in>| h_players h" by simp
  from player_Some [OF Cons.prems(1) i] obtain s
    where s: "player h i = Some s" "open_conn (h_conns h) (s_conn s)" by blast
  from conn_enqueue_open [OF s(2), of f] obtain cs
    where cs: "conn_enqueue (s_conn s) f h = Some (h\<lparr>h_conns := cs\<rparr>)" "sends (h_conns h) cs" by blast
  have "reg_inv (h\<lparr>h_conns := cs\<rparr>)" using Cons.prems(1) cs(2) by (rule reg_inv_conns)
  from Cons.IH [OF this] Cons.prems(2) obtain ds
    where ds: "fan_out f is (h\<lparr>h_conns := cs\<rparr>) = Some (h\<lparr>h_conns := ds\<rparr>)" "sends cs ds" by auto
  then show ?case using i s cs sends_trans [OF cs(2) ds(2)] by auto
qed

section \<open>Broadcasting\<close>

text \<open>A broadcast touches the clock, the cadence and the queues, nothing else.\<close>

definition sent :: "Hub \<Rightarrow> Hub \<Rightarrow> bool" where
  "sent h h' \<longleftrightarrow> (\<exists>k t cs. h' = h\<lparr>h_calls := k, h_lastSnap := t, h_conns := cs\<rparr> \<and> sends (h_conns h) cs)"

lemma sent_refl [simp]: "sent h h"
proof -
  have "h = h\<lparr>h_calls := h_calls h, h_lastSnap := h_lastSnap h, h_conns := h_conns h\<rparr>" by simp
  then show ?thesis unfolding sent_def using sends_refl by metis
qed

lemma take_snapshot_total:
  assumes "\<And>w. h_world h = Some w \<Longrightarrow> birds_wf w"
  shows "\<exists>snap. take_snapshot t h = Some snap"
proof (cases "h_world h")
  case (Some w)
  have "BirdSnaps w = Some (map (\<lambda>i. bird_snap (w_Tick w) (the (fmlookup (w_Birds w) i))) (w_Order w))"
    unfolding BirdSnaps_def using assms [OF Some]
    by (intro those_map_lookup) (simp add: birds_wf_def)
  with Some show ?thesis by (simp add: take_snapshot_def Let_def)
qed (simp add: take_snapshot_def Let_def)

lemma broadcast_sent:
  assumes "reg_inv h" "\<And>w. h_world h = Some w \<Longrightarrow> birds_wf w"
  shows "\<exists>h'. broadcast h = Some h' \<and> sent h h'"
proof (cases "h_st h = StWaiting \<or> h_players h = {||}")
  case True
  then show ?thesis by (auto simp: broadcast_def)
next
  case False
  let ?t = "h_clk h (h_calls h)"
  let ?h = "h\<lparr>h_calls := Suc (h_calls h), h_lastSnap := ?t\<rparr>"
  obtain snap where snap: "take_snapshot ?t ?h = Some snap"
    using take_snapshot_total [of ?h ?t] assms(2) by auto
  have "reg_inv ?h" using assms(1) by (simp add: reg_inv_def)
  moreover have "set (h_order h) \<subseteq> fset (h_players ?h)" using assms(1) by (simp add: reg_inv_def)
  ultimately obtain cs where cs: "fan_out (FSnapshot snap) (h_order h) ?h = Some (?h\<lparr>h_conns := cs\<rparr>)"
    "sends (h_conns ?h) cs" using fan_out_total by blast
  have "broadcast h = Some (?h\<lparr>h_conns := cs\<rparr>)"
    using False snap cs(1) by (simp add: broadcast_def now_ms_def Let_def)
  moreover have "sent h (?h\<lparr>h_conns := cs\<rparr>)" using cs(2) by (auto simp: sent_def)
  ultimately show ?thesis by blast
qed

lemma maybeSnapshot_sent:
  assumes "reg_inv h" "\<And>w. h_world h = Some w \<Longrightarrow> birds_wf w"
  shows "\<exists>h'. maybeSnapshot t h = Some h' \<and> sent h h'"
  using broadcast_sent [OF assms] by (simp add: maybeSnapshot_def)

section \<open>Unique names\<close>

lemma psubset_by: "A \<subseteq> B \<Longrightarrow> x \<notin> A \<Longrightarrow> x \<in> B \<Longrightarrow> A \<subset> B"
  by blast

lemma unique_from_total:
  assumes "\<And>m. n \<le> m \<Longrightarrow> name \<noteq> base @ '' '' @ show_nat m"
  shows "\<exists>nm. unique_from names base n name = Some nm \<and> fm_get 0 names nm = 0
     \<and> (nm = name \<or> (\<exists>m\<ge>n. nm = base @ '' '' @ show_nat m))"
  using assms
proof (induction "card (fset (fmdom names) \<inter> insert name {base @ '' '' @ show_nat m | m. n \<le> m})"
    arbitrary: n name rule: less_induct)
  case less
  let ?cand = "\<lambda>m. base @ '' '' @ show_nat m"
  let ?S = "\<lambda>n name. fset (fmdom names) \<inter> insert name {?cand m | m. n \<le> m}"
  show ?case
  proof (cases "fm_get 0 names name = 0")
    case True
    then have "unique_from names base n name = Some name" by (subst unique_from.simps) simp
    with True show ?thesis by blast
  next
    case False
    then have dom: "name |\<in>| fmdom names"
      by (auto simp: fm_get_def fmlookup_dom_iff split: option.splits)
    have "?S (Suc n) (?cand n) \<subseteq> ?S n name" by auto
    moreover have "name \<notin> ?S (Suc n) (?cand n)"
    proof
      assume "name \<in> ?S (Suc n) (?cand n)"
      then obtain m where "n \<le> m" "name = ?cand m" by (auto dest: Suc_leD)
      with less.prems show False by blast
    qed
    moreover have "name \<in> ?S n name" using dom by simp
    ultimately have "?S (Suc n) (?cand n) \<subset> ?S n name" by (rule psubset_by)
    then have lt: "card (?S (Suc n) (?cand n)) < card (?S n name)"
      by (rule psubset_card_mono [rotated]) simp
    have "?cand n \<noteq> ?cand m" if "Suc n \<le> m" for m using that show_nat_inj [of n m] by auto
    from less.hyps [OF lt this] obtain nm where
      nm: "unique_from names base (Suc n) (?cand n) = Some nm" "fm_get 0 names nm = 0"
      "nm = ?cand n \<or> (\<exists>m\<ge>Suc n. nm = ?cand m)" by blast
    have "unique_from names base n name = Some nm"
      using nm(1) False by (subst unique_from.simps) simp
    moreover have "\<exists>m\<ge>n. nm = ?cand m"
    proof (cases "nm = ?cand n")
      case False
      then obtain m where "Suc n \<le> m" "nm = ?cand m" using nm(3) by blast
      then show ?thesis by (intro exI [of _ m]) simp
    qed (intro exI [of _ n], simp)
    ultimately show ?thesis using nm(1,2) by blast
  qed
qed

lemma uniqueName_total:
  "\<exists>nm. uniqueName h base = Some nm \<and> fm_get 0 (h_names h) nm = 0
     \<and> (nm = base \<or> (\<exists>m\<ge>2. nm = base @ '' '' @ show_nat m))"
  unfolding uniqueName_def by (rule unique_from_total) simp

lemma uniqueName_free: "fm_get 0 (h_names h) base = 0 \<Longrightarrow> uniqueName h base = Some base"
  unfolding uniqueName_def by (subst unique_from.simps) simp

section \<open>The race of each state\<close>

definition flying :: "World \<Rightarrow> u64 \<Rightarrow> bool" where
  "flying w i \<longleftrightarrow> (\<exists>b. fmlookup (w_Birds w) i = Some b \<and> \<not> b_Dead b)"

lemma Alive_0_iff: "Alive w = 0 \<longleftrightarrow> (\<forall>i. \<not> flying w i)"
proof -
  have "(\<exists>i. flying w i) \<longleftrightarrow> (\<exists>i. i |\<in>| fmdom (w_Birds w) \<and> \<not> b_Dead (the (fmlookup (w_Birds w) i)))"
    unfolding flying_def fmlookup_dom_iff by (metis option.sel)
  then show ?thesis by (auto simp: Alive_def fset_eq_iff)
qed

definition info_of :: "Session \<Rightarrow> raceInfo" where
  "info_of s = \<lparr>ri_name = s_Name s, ri_bird = s_Bird s\<rparr>"

definition racers_inv :: "(u64, Session) fmap \<Rightarrow> (u64, raceInfo) fmap \<Rightarrow> World \<Rightarrow> bool" where
  "racers_inv sess ri w \<longleftrightarrow> fmdom ri = fmdom (w_Birds w)
     \<and> (\<forall>i b. fmlookup (w_Birds w) i = Some b \<longrightarrow>
          (\<exists>s. fmlookup sess i = Some s \<and> b_Name b = s_Name s \<and> fmlookup ri i = Some (info_of s)))
     \<and> (\<forall>i j b c. fmlookup (w_Birds w) i = Some b \<longrightarrow> fmlookup (w_Birds w) j = Some c \<longrightarrow>
          b_Name b = b_Name c \<longrightarrow> i = j)"

definition race_ok :: "Hub \<Rightarrow> World \<Rightarrow> (u64, raceInfo) fmap \<Rightarrow> bool" where
  "race_ok h w ri \<longleftrightarrow> world_inv w \<and> w_Tick w \<le> MaxRaceTicks \<and> racers_inv (h_sess h) ri w"

definition lobby :: "Hub \<Rightarrow> World \<Rightarrow> bool" where
  "lobby h w \<longleftrightarrow> w_Tick w = 0 \<and> fmdom (w_Birds w) |\<subseteq>| h_players h
     \<and> (\<forall>i. i |\<in>| fmdom (w_Birds w) \<longrightarrow> flying w i)"

definition race_inv :: "Hub \<Rightarrow> bool" where
  "race_inv h \<longleftrightarrow> (case h_st h of
       StWaiting \<Rightarrow> h_players h = {||} \<and> h_world h = None \<and> h_raceInfo h = None
     | StCountdown \<Rightarrow> (\<exists>w ri. h_world h = Some w \<and> h_raceInfo h = Some ri \<and> race_ok h w ri
          \<and> lobby h w \<and> w_Order w = h_order h \<and> h_players h \<noteq> {||})
     | StRacing \<Rightarrow> (\<exists>w ri. h_world h = Some w \<and> h_raceInfo h = Some ri \<and> race_ok h w ri
          \<and> w_Tick w < MaxRaceTicks \<and> (\<exists>i. flying w i) \<and> (\<forall>i. flying w i \<longrightarrow> i |\<in>| h_players h))
     | StFinished \<Rightarrow> (\<exists>w ri. h_world h = Some w \<and> h_raceInfo h = Some ri \<and> race_ok h w ri
          \<and> h_players h \<noteq> {||}))"

definition mem_inv :: "Hub \<Rightarrow> bool" where
  "mem_inv h \<longleftrightarrow> (\<forall>i s. fmlookup (h_sess h) i = Some s \<longrightarrow> LookupBird (s_Name s) (h_store h) = (s_Bird s, True))"

definition hub_inv :: "Hub \<Rightarrow> bool" where
  "hub_inv h \<longleftrightarrow> reg_inv h \<and> race_inv h \<and> mem_inv h \<and> conns_inv (h_conns h)"

lemma race_inv_wf: "race_inv h \<Longrightarrow> h_world h = Some w \<Longrightarrow> birds_wf w"
  by (auto simp: race_inv_def race_ok_def world_inv_def split: race_state.splits)

lemma sent_frame:
  assumes "sent h h'"
  shows "h_sess h' = h_sess h" "h_players h' = h_players h" "h_order h' = h_order h" "h_names h' = h_names h"
    "h_st h' = h_st h" "h_world h' = h_world h" "h_raceInfo h' = h_raceInfo h" "h_store h' = h_store h"
    "h_nextID h' = h_nextID h" "h_results h' = h_results h" "h_pendingFlaps h' = h_pendingFlaps h"
    "h_cfg h' = h_cfg h" "h_goAt h' = h_goAt h" "h_finishAt h' = h_finishAt h" "h_clk h' = h_clk h"
    "h_theme h' = h_theme h" "h_lastTheme h' = h_lastTheme h" "sends (h_conns h) (h_conns h')"
  using assms by (auto simp: sent_def)

lemma reg_inv_cong:
  assumes "h_sess h' = h_sess h" "h_players h' = h_players h" "h_order h' = h_order h"
    "h_names h' = h_names h" "h_nextID h' = h_nextID h" "\<And>c. open_conn (h_conns h') c = open_conn (h_conns h) c"
  shows "reg_inv h' = reg_inv h"
  by (simp add: reg_inv_def assms)

lemma race_inv_cong:
  assumes "h_sess h' = h_sess h" "h_players h' = h_players h" "h_order h' = h_order h"
    "h_st h' = h_st h" "h_world h' = h_world h" "h_raceInfo h' = h_raceInfo h"
  shows "race_inv h' = race_inv h"
  by (simp add: race_inv_def race_ok_def lobby_def assms split: race_state.split)

lemma mem_inv_cong: "h_sess h' = h_sess h \<Longrightarrow> h_store h' = h_store h \<Longrightarrow> mem_inv h' = mem_inv h"
  by (simp add: mem_inv_def)

lemma hub_inv_sent: "hub_inv h \<Longrightarrow> sent h h' \<Longrightarrow> hub_inv h'"
proof -
  assume a: "hub_inv h" "sent h h'"
  note f = sent_frame [OF a(2)]
  have "reg_inv h' = reg_inv h" by (rule reg_inv_cong) (use f in \<open>auto simp: sends_def\<close>)
  moreover have "race_inv h' = race_inv h" by (rule race_inv_cong) (use f in auto)
  moreover have "mem_inv h' = mem_inv h" by (rule mem_inv_cong) (use f in auto)
  ultimately show ?thesis using a(1) f by (simp add: hub_inv_def sends_def)
qed

lemma hub_inv_parts:
  assumes "hub_inv h"
  shows "reg_inv h" "race_inv h" "mem_inv h" "conns_inv (h_conns h)"
    "h_world h = Some w \<Longrightarrow> birds_wf w"
  using assms race_inv_wf [of h w] unfolding hub_inv_def by blast+

lemma broadcast_inv:
  assumes "hub_inv h"
  shows "\<exists>h'. broadcast h = Some h' \<and> sent h h' \<and> hub_inv h'"
  using broadcast_sent [OF hub_inv_parts(1) [OF assms] hub_inv_parts(5) [OF assms]]
    hub_inv_sent [OF assms] by blast

lemma maybeSnapshot_inv:
  assumes "hub_inv h"
  shows "\<exists>h'. maybeSnapshot t h = Some h' \<and> sent h h' \<and> hub_inv h'"
  using maybeSnapshot_sent [OF hub_inv_parts(1) [OF assms] hub_inv_parts(5) [OF assms]]
    hub_inv_sent [OF assms] by blast

section \<open>Registering a player\<close>

lemma join_bird_spec:
  assumes "mem_inv h"
  shows "\<exists>b rng st. join_bird name h = (b, h\<lparr>h_rng := rng, h_store := st\<rparr>)
     \<and> LookupBird name st = (b, True)
     \<and> (\<forall>n c. LookupBird n (h_store h) = (c, True) \<longrightarrow> LookupBird n st = (c, True))"
proof (cases "snd (LookupBird name (h_store h))")
  case True
  then have "join_bird name h = (fst (LookupBird name (h_store h)), h\<lparr>h_rng := h_rng h, h_store := h_store h\<rparr>)"
    by (simp add: join_bird_def case_prod_unfold)
  moreover have "LookupBird name (h_store h) = (fst (LookupBird name (h_store h)), True)"
    using True by (simp add: prod_eq_iff)
  ultimately show ?thesis by blast
next
  case False
  define r where "r = RandomBird rng_next (Some (birdTaken h)) (h_rng h)"
  have v: "bird_valid (fst r)" by (simp add: r_def RandomBird_def random_bird_loop_valid)
  have "join_bird name h = (fst r, h\<lparr>h_rng := snd r, h_store := RememberBird name (fst r) (h_store h)\<rparr>)"
    using False by (simp add: join_bird_def case_prod_unfold r_def Let_def)
  moreover have "\<forall>n c. LookupBird n (h_store h) = (c, True) \<longrightarrow>
      LookupBird n (RememberBird name (fst r) (h_store h)) = (c, True)"
    using False by (auto simp: LookupBird_RememberBird)
  ultimately show ?thesis using v by (fastforce simp: LookupBird_RememberBird)
qed

definition new_session :: "nat \<Rightarrow> string \<Rightarrow> Bird \<Rightarrow> u64 \<Rightarrow> Session" where
  "new_session c name b i = \<lparr>s_ID = i, s_Name = name, s_Bird = b, s_conn = c, s_flapSec = 0, s_flapCount = 0\<rparr>"

lemma new_session_sel [simp]:
  "s_ID (new_session c n b i) = i" "s_Name (new_session c n b i) = n" "s_Bird (new_session c n b i) = b"
  "s_conn (new_session c n b i) = c"
  by (simp_all add: new_session_def)

lemma next_id:
  assumes "h_nextID h \<noteq> - 1"
  shows "h_nextID h < h_nextID h + 1"
proof -
  have "unat (h_nextID h) \<noteq> unat (- 1 :: u64)" using assms by (metis word_unat_eq_iff)
  then have "unat (h_nextID h) < 2 ^ 64 - 1"
    using unsigned_less [where ?'b = 64 and ?'a = nat, of "h_nextID h"]
    by (simp add: unsigned_minus_1_eq_mask mask_eq_exp_minus_1)
  then show ?thesis using unat_Suc_less [of "h_nextID h" "2 ^ 64 - 1"] by (simp add: word_less_nat_alt)
qed

definition no_player_on :: "Hub \<Rightarrow> nat \<Rightarrow> bool" where
  "no_player_on h c \<longleftrightarrow> (\<forall>i s. i |\<in>| h_players h \<longrightarrow> fmlookup (h_sess h) i = Some s \<longrightarrow> s_conn s \<noteq> c)"

lemma register_spec:
  assumes reg: "reg_inv h" and mem: "mem_inv h" and free: "fm_get 0 (h_names h) name = 0"
    and nid: "h_nextID h \<noteq> - 1" and c: "open_conn (h_conns h) c" "no_player_on h c"
  shows "\<exists>b rng st. let i = h_nextID h + 1; s = new_session c name b i; h' = h\<lparr>h_nextID := i, h_rng := rng,
        h_store := st, h_sess := fmupd i s (h_sess h), h_players := finsert i (h_players h),
        h_names := fmupd name i (h_names h), h_order := h_order h @ [i]\<rparr>
      in register c name h = (s, h') \<and> reg_inv h' \<and> mem_inv h' \<and> i |\<notin>| fmdom (h_sess h)"
proof -
  let ?i = "h_nextID h + 1"
  have "mem_inv (h\<lparr>h_nextID := ?i\<rparr>)" using mem by (simp add: mem_inv_def)
  from join_bird_spec [OF this, of name] obtain b rng st where jb:
    "join_bird name (h\<lparr>h_nextID := ?i\<rparr>) = (b, h\<lparr>h_nextID := ?i, h_rng := rng, h_store := st\<rparr>)"
    "LookupBird name st = (b, True)"
    "\<And>n c. LookupBird n (h_store h) = (c, True) \<Longrightarrow> LookupBird n st = (c, True)" by auto
  let ?s = "new_session c name b ?i"
  let ?h = "h\<lparr>h_nextID := ?i, h_rng := rng, h_store := st, h_sess := fmupd ?i ?s (h_sess h),
      h_players := finsert ?i (h_players h), h_names := fmupd name ?i (h_names h), h_order := h_order h @ [?i]\<rparr>"
  have lt: "h_nextID h < ?i" using nid by (rule next_id)
  have pos: "0 < ?i" using lt by (rule order.strict_trans1 [OF word_zero_le])
  have ids: "\<And>j s. fmlookup (h_sess h) j = Some s \<Longrightarrow> s_ID s = j \<and> 0 < j \<and> j \<le> h_nextID h"
    using reg unfolding reg_inv_def by blast
  then have fresh: "fmlookup (h_sess h) ?i = None" using lt by (metis not_le not_Some_eq)
  then have notin: "?i |\<notin>| fmdom (h_sess h)" by (simp add: fmlookup_dom_iff)
  then have np: "?i |\<notin>| h_players h" using reg unfolding reg_inv_def by blast
  have nm: "fmlookup (h_names h) name = None"
  proof (cases "fmlookup (h_names h) name")
    case (Some j)
    then have "j = 0" using free by (simp add: fm_get_def)
    moreover obtain s where "fmlookup (h_sess h) j = Some s" using reg Some unfolding reg_inv_def by blast
    ultimately show ?thesis using ids by force
  qed
  have "register c name h = (?s, ?h)"
    by (simp add: register_def jb(1) new_session_def Let_def)
  moreover have "reg_inv ?h"
    unfolding reg_inv_def
  proof (intro conjI allI impI, goal_cases)
    case (5 j s)
    then show ?case
    proof (cases "j = ?i")
      case True
      with pos show ?thesis by (simp only:)
    next
      case False
      with 5 ids show ?thesis by simp
    qed
  next
    case (6 j s)
    then show ?case using ids [of j s] lt by (cases "j = ?i") auto
  next
    case (7 j s)
    then show ?case using reg nm fresh unfolding reg_inv_def by (auto split: if_splits)
  next
    case (8 j s)
    then show ?case using reg c(1) unfolding reg_inv_def by (auto split: if_splits)
  qed (use reg np fresh c nm in \<open>auto simp: reg_inv_def no_player_on_def split: if_splits\<close>)
  moreover have "mem_inv ?h" using mem jb(2,3) by (auto simp: mem_inv_def)
  ultimately show ?thesis using notin unfolding Let_def by blast
qed

section \<open>Admitting racers\<close>

text \<open>The lobby's world: nobody has moved, and its birds are connected players.\<close>

definition lobby_inv :: "Hub \<Rightarrow> World \<Rightarrow> (u64, raceInfo) fmap \<Rightarrow> bool" where
  "lobby_inv h w ri \<longleftrightarrow> race_ok h w ri \<and> lobby h w"

lemma lobby_inv_NewWorld: "lobby_inv h (NewWorld seed) fmempty"
  by (simp add: lobby_inv_def race_ok_def racers_inv_def lobby_def NewWorld_inv)

lemma player_name_inj:
  assumes "reg_inv h" "i |\<in>| h_players h" "j |\<in>| h_players h"
    "fmlookup (h_sess h) i = Some s" "fmlookup (h_sess h) j = Some t" "s_Name s = s_Name t"
  shows "i = j"
proof -
  have "fmlookup (h_names h) (s_Name s) = Some i" "fmlookup (h_names h) (s_Name t) = Some j"
    using assms(1-5) unfolding reg_inv_def by blast+
  with assms(6) show ?thesis by simp
qed

lemma lobby_inv_admit:
  assumes reg: "reg_inv h" and inv: "lobby_inv h w ri"
    and s: "i |\<in>| h_players h" "fmlookup (h_sess h) i = Some s" and new: "i |\<notin>| fmdom (w_Birds w)"
  shows "lobby_inv h (AddBird i (s_Name s) pal acc w) (fmupd i (info_of s) ri)"
    "w_Order (AddBird i (s_Name s) pal acc w) = w_Order w @ [i]"
proof -
  let ?w = "AddBird i (s_Name s) pal acc w"
  have w: "world_inv w" "w_Tick w = 0" "racers_inv (h_sess h) ri w" "fmdom (w_Birds w) |\<subseteq>| h_players h"
    "\<And>j. j |\<in>| fmdom (w_Birds w) \<Longrightarrow> flying w j"
    using inv by (auto simp: lobby_inv_def race_ok_def lobby_def)
  have names: "b_Name b \<noteq> s_Name s" if b: "fmlookup (w_Birds w) j = Some b" for j b
  proof
    assume eq: "b_Name b = s_Name s"
    obtain t where t: "fmlookup (h_sess h) j = Some t" "b_Name b = s_Name t"
      using w(3) b unfolding racers_inv_def by blast
    have "j |\<in>| fmdom (w_Birds w)" using b by (rule fmdomI)
    then have "j |\<in>| h_players h" "j \<noteq> i" using w(4) new by auto
    with player_name_inj [OF reg _ s(1) t(1) s(2)] t(2) eq show False by auto
  qed
  have "racers_inv (h_sess h) (fmupd i (info_of s) ri) ?w"
    unfolding racers_inv_def
  proof (intro conjI allI impI, goal_cases)
    case (2 j b)
    then show ?case using w(3) s new by (cases "j = i") (auto simp: AddBird_lookup racers_inv_def)
  next
    case (3 j k b c)
    then show ?case
    proof (cases "j = i \<or> k = i")
      case True
      with 3 show ?thesis
        using names [of j b] names [of k c] by (auto simp: AddBird_lookup new split: if_splits)
    next
      case False
      with 3 have "fmlookup (w_Birds w) j = Some b" "fmlookup (w_Birds w) k = Some c"
        by (simp_all add: AddBird_lookup)
      with 3 w(3) show ?thesis unfolding racers_inv_def by blast
    qed
  qed (use w(3) in \<open>simp add: racers_inv_def\<close>)
  moreover have "flying ?w j" if "j |\<in>| fmdom (w_Birds ?w)" for j
    using that w(5) new by (auto simp: flying_def AddBird_lookup)
  ultimately show "lobby_inv h ?w (fmupd i (info_of s) ri)"
    using AddBird_inv [OF w(1,2)] w s by (simp add: lobby_inv_def race_ok_def lobby_def)
  show "w_Order ?w = w_Order w @ [i]" using new by (rule AddBird_order)
qed

lemma lobby_inv_cong:
  "h_sess h' = h_sess h \<Longrightarrow> h_players h' = h_players h \<Longrightarrow> lobby_inv h' w ri = lobby_inv h w ri"
  by (simp add: lobby_inv_def race_ok_def lobby_def)

lemma admit_all_spec:
  assumes "reg_inv h" "h_world h = Some w" "h_raceInfo h = Some ri" "lobby_inv h w ri"
    "distinct is" "set is \<subseteq> fset (h_players h)" "set is \<inter> fset (fmdom (w_Birds w)) = {}"
  shows "\<exists>w' ri'. admit_all is h = Some (h\<lparr>h_world := Some w', h_raceInfo := Some ri'\<rparr>)
     \<and> lobby_inv h w' ri' \<and> w_Order w' = w_Order w @ is"
  using assms
proof (induction "is" arbitrary: h w ri)
  case Nil
  then have eq: "admit_all [] h = Some (h\<lparr>h_world := Some w, h_raceInfo := Some ri\<rparr>)" by simp
  show ?case
    by (rule exI [of _ w], rule exI [of _ ri], intro conjI) (rule eq, rule Nil.prems(4), simp)
next
  case (Cons i "is")
  have i: "i |\<in>| h_players h" "i |\<notin>| fmdom (w_Birds w)" using Cons.prems by auto
  obtain s where s: "player h i = Some s" "fmlookup (h_sess h) i = Some s"
    using player_Some [OF Cons.prems(1) i(1)] by blast
  let ?w = "AddBird i (s_Name s) (Palette (s_Bird s)) (Accessory (s_Bird s)) w"
  let ?ri = "fmupd i (info_of s) ri"
  let ?h = "h\<lparr>h_world := Some ?w, h_raceInfo := Some ?ri\<rparr>"
  note ad = lobby_inv_admit [OF Cons.prems(1,4) i(1) s(2) i(2), of "Palette (s_Bird s)" "Accessory (s_Bird s)"]
  have "reg_inv ?h" using Cons.prems(1) by (subst reg_inv_cong [of ?h h]) simp_all
  moreover have "lobby_inv ?h ?w ?ri" using ad(1) by (subst lobby_inv_cong [of ?h h]) simp_all
  moreover have "set is \<inter> fset (fmdom (w_Birds ?w)) = {}"
    using Cons.prems(5,7) by auto
  moreover have "distinct is" "set is \<subseteq> fset (h_players ?h)" using Cons.prems(5,6) by simp_all
  moreover have "h_world ?h = Some ?w" "h_raceInfo ?h = Some ?ri" by simp_all
  ultimately obtain w' ri' where IH: "admit_all is ?h = Some (?h\<lparr>h_world := Some w', h_raceInfo := Some ri'\<rparr>)"
    "lobby_inv ?h w' ri'" "w_Order w' = w_Order ?w @ is"
    using Cons.IH [of ?h ?w ?ri] by blast
  have "lobby_inv h w' ri'" using IH(2) by (subst (asm) lobby_inv_cong [of ?h h]) simp_all
  moreover have "admit_all (i # is) h = Some (h\<lparr>h_world := Some w', h_raceInfo := Some ri'\<rparr>)"
    using IH(1) s(1) Cons.prems(2,3) by (simp add: info_of_def)
  moreover have "w_Order w' = w_Order w @ i # is" using IH(3) ad(2) by simp
  ultimately show ?case by blast
qed

text \<open>What the start of a countdown keeps and what it sets up.\<close>

definition countdown_from :: "Hub \<Rightarrow> Hub \<Rightarrow> bool" where
  "countdown_from h h' \<longleftrightarrow> h_st h' = StCountdown
     \<and> (\<exists>w ri. h_world h' = Some w \<and> h_raceInfo h' = Some ri \<and> lobby_inv h' w ri \<and> w_Order w = h_order h')
     \<and> h_sess h' = h_sess h \<and> h_players h' = h_players h \<and> h_order h' = h_order h \<and> h_names h' = h_names h
     \<and> h_nextID h' = h_nextID h \<and> h_conns h' = h_conns h \<and> h_store h' = h_store h
     \<and> h_cfg h' = h_cfg h \<and> h_clk h' = h_clk h \<and> h_calls h' = h_calls h \<and> h_pendingFlaps h' = h_pendingFlaps h"

lemma beginCountdown_spec:
  assumes "reg_inv h"
  shows "\<exists>h'. beginCountdown t h = Some h' \<and> countdown_from h h'
     \<and> h_goAt h' = t + milliseconds (cf_Countdown (h_cfg h)) \<and> h_theme h' \<noteq> h_lastTheme h
     \<and> theme_valid (h_theme h') \<and> h_lastTheme h' = h_lastTheme h \<and> h_results h' = []"
proof -
  define v where "v = rng_next (h_rng h)"
  define u where "u = rng_next (snd v)"
  define th where "th = (let x = ucast (fst u mod ucast ThemeCount) :: Theme in
      if x = h_lastTheme h \<and> ThemeCount > 1 then (x + 1) mod ThemeCount else x)"
  let ?h = "h\<lparr>h_st := StCountdown, h_goAt := t + milliseconds (cf_Countdown (h_cfg h)), h_seed := fst v,
      h_rng := snd u, h_theme := th, h_world := Some (NewWorld (fst v)), h_raceInfo := Some fmempty,
      h_results := []\<rparr>"
  have "reg_inv ?h" using assms by (subst reg_inv_cong [of ?h h]) simp_all
  moreover have "distinct (h_order h)" "set (h_order h) \<subseteq> fset (h_players h)"
    using assms by (simp_all add: reg_inv_def)
  ultimately obtain w ri where ad: "admit_all (h_order h) ?h = Some (?h\<lparr>h_world := Some w, h_raceInfo := Some ri\<rparr>)"
    "lobby_inv ?h w ri" "w_Order w = h_order h"
    using admit_all_spec [of ?h "NewWorld (fst v)" fmempty "h_order h"] lobby_inv_NewWorld by auto
  let ?h' = "?h\<lparr>h_world := Some w, h_raceInfo := Some ri\<rparr>"
  have "beginCountdown t h = admit_all (h_order h) ?h"
    by (simp add: beginCountdown_def hub_next_def pickTheme_def case_prod_unfold Let_def v_def u_def th_def
        del: ThemeCount_def)
  then have "beginCountdown t h = Some ?h'" using ad(1) by simp
  moreover have "lobby_inv ?h' w ri" using ad(2) by (subst lobby_inv_cong [of ?h' ?h]) simp_all
  moreover have "th \<noteq> h_lastTheme h \<and> theme_valid th"
  proof -
    let ?x = "ucast (fst u mod ucast ThemeCount) :: Theme"
    have "unat ?x < 4" using ucast_mod_less [of 4 "fst u"] by simp
    then have "?x = 0 \<or> ?x = 1 \<or> ?x = 2 \<or> ?x = 3"
      by (intro theme_valid_cases) (simp add: theme_valid_def word_less_nat_alt)
    then show ?thesis by (auto simp: th_def theme_valid_def Let_def)
  qed
  ultimately show ?thesis using ad(3) by (intro exI [of _ ?h']) (simp add: countdown_from_def)
qed

section \<open>Ending a race\<close>

lemma no_race_inv:
  assumes "reg_inv h" "mem_inv h" "conns_inv (h_conns h)" "h_players h = {||}"
  shows "hub_inv (no_race h)"
proof -
  have "reg_inv (no_race h) = reg_inv h" by (rule reg_inv_cong) (simp_all add: no_race_def)
  moreover have "mem_inv (no_race h) = mem_inv h" by (rule mem_inv_cong) (simp_all add: no_race_def)
  ultimately show ?thesis using assms by (simp add: hub_inv_def race_inv_def no_race_def)
qed

lemma hub_inv_countdown:
  assumes "countdown_from h h'" "reg_inv h" "mem_inv h" "conns_inv (h_conns h)" "h_players h \<noteq> {||}"
  shows "hub_inv h'"
proof -
  note c = assms(1) [unfolded countdown_from_def]
  have "reg_inv h' = reg_inv h" by (rule reg_inv_cong) (use c in auto)
  moreover have "mem_inv h' = mem_inv h" by (rule mem_inv_cong) (use c in auto)
  moreover have "race_inv h'" using c assms(5) by (auto simp: race_inv_def lobby_inv_def)
  ultimately show ?thesis using assms c by (simp add: hub_inv_def)
qed

definition race_entries :: "Hub \<Rightarrow> ResultSnap list \<Rightarrow> RaceEntry list" where
  "race_entries h res = map (race_entry (h_raceInfo h)) res"

lemma Results_row:
  assumes "birds_wf w" "Results w = Some res" "r \<in> set res"
  shows "\<exists>b. fmlookup (w_Birds w) (rs_ID r) = Some b \<and> rs_Name r = b_Name b \<and> rs_Score r = b_Score b"
proof -
  obtain rows where rows: "result_rows w = Some rows"
    "Results w = Some (map2 result_snap [0..<length rows] (sort_slice row_less rows))"
    using Results_wf [OF assms(1)] by blast
  then obtain k row where row: "r = result_snap k row" "row \<in> set (sort_slice row_less rows)"
    using assms(2,3) by (auto dest!: set_zip_rightD)
  then have "row \<in> set rows" by simp
  then obtain i where i: "i \<in> set (w_Order w)" "row = result_row (the (fmlookup (w_Birds w) i))"
    using result_rows_wf [OF assms(1)] rows(1) by auto
  then obtain b where b: "fmlookup (w_Birds w) i = Some b"
    using assms(1) by (auto simp: birds_wf_def fmlookup_dom_iff)
  then have "b_ID b = i" using assms(1) by (simp add: birds_wf_def)
  then show ?thesis using row(1) i(2) b by (simp add: result_snap_def result_row_def)
qed

lemma race_entry_bird:
  assumes "race_ok h w ri" "h_raceInfo h = Some ri" "Results w = Some res" "e \<in> set (race_entries h res)"
  shows "\<exists>i s. fmlookup (h_sess h) i = Some s \<and> re_Name e = s_Name s \<and> re_Bird e = s_Bird s"
proof -
  obtain r where r: "r \<in> set res" "e = race_entry (Some ri) r"
    using assms(2,4) by (auto simp: race_entries_def)
  have wf: "birds_wf w" using assms(1) by (simp add: race_ok_def world_inv_def)
  from Results_row [OF wf assms(3) r(1)] obtain b where
    b: "fmlookup (w_Birds w) (rs_ID r) = Some b" "rs_Name r = b_Name b" by blast
  then obtain s where s: "fmlookup (h_sess h) (rs_ID r) = Some s" "b_Name b = s_Name s"
    "fmlookup ri (rs_ID r) = Some (info_of s)"
    using assms(1) unfolding race_ok_def racers_inv_def by blast
  then show ?thesis using r(2) b by (intro exI [of _ "rs_ID r"] exI [of _ s])
      (simp add: race_entry_def fm_get_def info_of_def)
qed

text \<open>What the end of a race keeps and sets up.\<close>

definition race_ended :: "int \<Rightarrow> Hub \<Rightarrow> Hub \<Rightarrow> bool" where
  "race_ended t h h' \<longleftrightarrow> h_sess h' = h_sess h \<and> h_players h' = h_players h \<and> h_order h' = h_order h
     \<and> h_names h' = h_names h \<and> h_nextID h' = h_nextID h \<and> sends (h_conns h) (h_conns h')
     \<and> h_clk h' = h_clk h \<and> h_cfg h' = h_cfg h \<and> h_pendingFlaps h' = h_pendingFlaps h
     \<and> h_st h' = (if h_players h = {||} then StWaiting else StFinished)
     \<and> (h_players h \<noteq> {||} \<longrightarrow> h_finishAt h' = t + milliseconds (cf_Results (h_cfg h)) \<and> h_world h' = h_world h)
     \<and> (\<exists>w res. h_world h = Some w \<and> Results w = Some res
         \<and> h_store h' = RecordRace (race_entries h res) (h_theme h) t (h_store h)
         \<and> (h_players h \<noteq> {||} \<longrightarrow> h_results h' = res))
     \<and> h_lastTheme h' = h_theme h"

lemma finishRace_spec:
  assumes reg: "reg_inv h" and mem: "mem_inv h" and ci: "conns_inv (h_conns h)"
    and w: "h_world h = Some w" "h_raceInfo h = Some ri" "race_ok h w ri"
  shows "\<exists>h'. finishRace t h = Some h' \<and> hub_inv h' \<and> race_ended t h h'"
proof -
  have wf: "birds_wf w" using w(3) by (simp add: race_ok_def world_inv_def)
  obtain res where res: "Results w = Some res" using Results_wf [OF wf] by blast
  let ?st = "RecordRace (race_entries h res) (h_theme h) t (h_store h)"
  let ?g = "h\<lparr>h_results := res, h_lastTheme := h_theme h, h_store := ?st\<rparr>"
  have mem': "mem_inv ?g"
    unfolding mem_inv_def
  proof (intro allI impI)
    fix i s assume "fmlookup (h_sess ?g) i = Some s"
    then have s: "LookupBird (s_Name s) (h_store h) = (s_Bird s, True)" using mem by (simp add: mem_inv_def)
    have "re_Bird e = s_Bird s" if e: "e \<in> set (race_entries h res)" "re_Name e = s_Name s" for e
    proof -
      from race_entry_bird [OF w(3,2) res e(1)] obtain j u where
        u: "fmlookup (h_sess h) j = Some u" "re_Name e = s_Name u" "re_Bird e = s_Bird u" by blast
      have "LookupBird (s_Name u) (h_store h) = (s_Bird u, True)" using mem u(1) by (simp add: mem_inv_def)
      with s u e(2) show ?thesis by simp
    qed
    with s show "LookupBird (s_Name s) (h_store ?g) = (s_Bird s, True)"
      by (simp add: LookupBird_RecordRace)
  qed
  have reg': "reg_inv ?g" using reg by (subst reg_inv_cong [of ?g h]) simp_all
  have run: "finishRace t h = (if h_players h = {||} then Some (no_race ?g)
      else broadcast (?g\<lparr>h_st := StFinished, h_finishAt := t + milliseconds (cf_Results (h_cfg h))\<rparr>))"
    using w res by (simp add: finishRace_def race_entries_def Let_def)
  show ?thesis
  proof (cases "h_players h = {||}")
    case True
    have "hub_inv (no_race ?g)" by (rule no_race_inv [OF reg' mem']) (use ci True in simp_all)
    then show ?thesis using run True w(1) res by (simp add: race_ended_def no_race_def)
  next
    case False
    let ?f = "?g\<lparr>h_st := StFinished, h_finishAt := t + milliseconds (cf_Results (h_cfg h))\<rparr>"
    have "reg_inv ?f" using reg' by (subst reg_inv_cong [of ?f ?g]) simp_all
    moreover have "mem_inv ?f" using mem' by (subst mem_inv_cong [of ?f ?g]) simp_all
    moreover have "race_inv ?f" using w False by (simp add: race_inv_def race_ok_def)
    ultimately have "hub_inv ?f" using ci by (simp add: hub_inv_def)
    from broadcast_inv [OF this] obtain h' where h': "broadcast ?f = Some h'" "sent ?f h'" "hub_inv h'"
      by blast
    have "race_ended t h h'"
      using sent_frame [OF h'(2)] False w(1) res by (simp add: race_ended_def)
    then show ?thesis using run False h' by simp
  qed
qed

section \<open>The tick\<close>

lemma score_pipe_frame [simp]:
  "b_Name (score_pipe b p) = b_Name b" "b_Dead (score_pipe b p) = b_Dead b"
  "b_ID (score_pipe b p) = b_ID b"
  by (simp_all add: score_pipe_def)

lemma score_fold_frame [simp]:
  "b_Name (foldl score_pipe b ps) = b_Name b" "b_Dead (foldl score_pipe b ps) = b_Dead b"
  "b_ID (foldl score_pipe b ps) = b_ID b"
  by (induction ps arbitrary: b) simp_all

lemma settle_frame [simp]:
  "b_Name (settle t ps i b) = b_Name b" "b_ID (settle t ps i b) = b_ID b"
  "b_Dead b \<Longrightarrow> settle t ps i b = b"
  by (simp_all add: settle_def kill_def)

lemma racers_inv_names:
  assumes "racers_inv sess ri w" "fmdom (w_Birds w') = fmdom (w_Birds w)"
    "\<And>i b'. fmlookup (w_Birds w') i = Some b' \<Longrightarrow> \<exists>b. fmlookup (w_Birds w) i = Some b \<and> b_Name b = b_Name b'"
  shows "racers_inv sess ri w'"
  unfolding racers_inv_def
proof (intro conjI allI impI)
  show "fmdom ri = fmdom (w_Birds w')" using assms(1,2) by (simp add: racers_inv_def)
next
  fix i b' assume "fmlookup (w_Birds w') i = Some b'"
  from assms(3) [OF this] obtain b where "fmlookup (w_Birds w) i = Some b" "b_Name b = b_Name b'" by blast
  then show "\<exists>s. fmlookup sess i = Some s \<and> b_Name b' = s_Name s \<and> fmlookup ri i = Some (info_of s)"
    using assms(1) unfolding racers_inv_def by metis
next
  fix i j b c assume a: "fmlookup (w_Birds w') i = Some b" "fmlookup (w_Birds w') j = Some c" "b_Name b = b_Name c"
  from assms(3) [OF a(1)] assms(3) [OF a(2)] obtain b0 c0 where
    "fmlookup (w_Birds w) i = Some b0" "b_Name b0 = b_Name b"
    "fmlookup (w_Birds w) j = Some c0" "b_Name c0 = b_Name c" by blast
  then show "i = j" using assms(1) a(3) unfolding racers_inv_def by metis
qed

lemma Step_race:
  assumes "race_ok h w ri" "w_Tick w < MaxRaceTicks"
  shows "\<exists>w'. Step flaps w = Some w' \<and> race_ok h w' ri \<and> stepped flaps w w'
     \<and> (\<forall>i. flying w' i \<longrightarrow> flying w i)"
proof -
  have inv: "world_inv w" and r: "racers_inv (h_sess h) ri w" using assms(1) by (simp_all add: race_ok_def)
  have "unat (w_Tick w) < 2 ^ 50" using assms(2) by (simp add: word_less_nat_alt)
  from Step_world_inv [OF inv this, of flaps] obtain w' where w': "Step flaps w = Some w'" by blast
  from Step_tick [OF inv assms(2) w'] have t: "world_inv w'" "w_Tick w' \<le> MaxRaceTicks" "stepped flaps w w'"
    by simp_all
  have look: "fmlookup (w_Birds w') i = map_option
      (\<lambda>b. settle (w_Tick w') (w_Pipes w') i (fly (w_Tick w') flaps i b)) (fmlookup (w_Birds w) i)" for i
    using t(3) unfolding stepped_def by blast
  have "racers_inv (h_sess h) ri w'"
    by (rule racers_inv_names [OF r]) (use t(3) look in \<open>auto simp: stepped_def\<close>)
  moreover have "flying w' i \<longrightarrow> flying w i" for i
  proof
    assume "flying w' i"
    then obtain b' where b': "fmlookup (w_Birds w') i = Some b'" "\<not> b_Dead b'" by (auto simp: flying_def)
    then obtain b where b: "fmlookup (w_Birds w) i = Some b"
      "b' = settle (w_Tick w') (w_Pipes w') i (fly (w_Tick w') flaps i b)" using look [of i] by auto
    with b'(2) show "flying w i" by (cases "b_Dead b") (auto simp: flying_def)
  qed
  ultimately show ?thesis using w' t by (auto simp: race_ok_def)
qed

text \<open>What a handler that admits and removes nobody keeps.\<close>

definition same_players :: "Hub \<Rightarrow> Hub \<Rightarrow> bool" where
  "same_players h h' \<longleftrightarrow> h_sess h' = h_sess h \<and> h_players h' = h_players h \<and> h_order h' = h_order h
     \<and> h_names h' = h_names h \<and> h_nextID h' = h_nextID h \<and> sends (h_conns h) (h_conns h')"

lemma same_players_sent: "sent h h' \<Longrightarrow> same_players h h'"
  by (simp add: same_players_def sent_frame)

lemma same_players_trans: "same_players h h' \<Longrightarrow> same_players h' h'' \<Longrightarrow> same_players h h''"
  by (auto simp: same_players_def intro: sends_trans)

lemma same_players_ended: "race_ended t h h' \<Longrightarrow> same_players h h'"
  by (simp add: same_players_def race_ended_def)

lemma same_players_countdown: "countdown_from h h' \<Longrightarrow> same_players h h'"
  by (simp add: same_players_def countdown_from_def)

lemma hub_inv_now: "hub_inv h \<Longrightarrow> hub_inv (snd (now_ms h)) \<and> same_players h (snd (now_ms h))"
proof -
  assume a: "hub_inv h"
  have "sent h (snd (now_ms h))"
    unfolding sent_def now_ms_def
    by (rule exI [of _ "Suc (h_calls h)"], rule exI [of _ "h_lastSnap h"], rule exI [of _ "h_conns h"]) simp
  with a show ?thesis using hub_inv_sent same_players_sent by blast
qed

lemma hub_inv_race_cases:
  assumes "hub_inv h"
  obtains (waiting) "h_st h = StWaiting" "h_players h = {||}" "h_world h = None" "h_raceInfo h = None"
  | (countdown) w ri where "h_st h = StCountdown" "h_world h = Some w" "h_raceInfo h = Some ri" "race_ok h w ri"
      "lobby h w" "w_Order w = h_order h" "h_players h \<noteq> {||}"
  | (racing) w ri where "h_st h = StRacing" "h_world h = Some w" "h_raceInfo h = Some ri" "race_ok h w ri"
      "w_Tick w < MaxRaceTicks" "\<exists>i. flying w i" "\<And>i. flying w i \<Longrightarrow> i |\<in>| h_players h"
  | (finished) w ri where "h_st h = StFinished" "h_world h = Some w" "h_raceInfo h = Some ri" "race_ok h w ri"
      "h_players h \<noteq> {||}"
proof -
  have "race_inv h" using assms by (simp add: hub_inv_def)
  then show thesis using that by (cases "h_st h") (auto simp: race_inv_def)
qed

lemma hub_inv_go:
  assumes "hub_inv h" "h_st h = StCountdown"
  shows "hub_inv (h\<lparr>h_st := StRacing\<rparr>)"
proof -
  let ?h = "h\<lparr>h_st := StRacing\<rparr>"
  from assms obtain w ri where w: "h_world h = Some w" "h_raceInfo h = Some ri" "race_ok h w ri"
      "lobby h w" "w_Order w = h_order h" "h_players h \<noteq> {||}"
    by (auto simp: hub_inv_def race_inv_def)
  have reg: "reg_inv ?h = reg_inv h" by (rule reg_inv_cong) simp_all
  have mem: "mem_inv ?h = mem_inv h" by (rule mem_inv_cong) simp_all
  have wf: "birds_wf w" using w(3) by (simp add: race_ok_def world_inv_def)
  have dom: "fmdom (w_Birds w) = h_players h"
  proof -
    have "fset (fmdom (w_Birds w)) = fset (h_players h)"
      using wf w(5) assms(1) by (simp add: birds_wf_def hub_inv_def reg_inv_def)
    then show ?thesis by (simp add: fset_inject)
  qed
  have "\<exists>i. flying w i" using w(4,6) dom by (auto simp: lobby_def)
  moreover have "i |\<in>| h_players h" if "flying w i" for i
    using that dom by (auto simp: flying_def dest: fmdomI)
  moreover have "w_Tick w < MaxRaceTicks" using w(4) by (simp add: lobby_def)
  ultimately have "race_inv ?h" using w by (auto simp: race_inv_def race_ok_def)
  then show ?thesis using assms(1) reg mem by (simp add: hub_inv_def)
qed

text \<open>The effect of a tick in each state.\<close>

definition ticked :: "Hub \<Rightarrow> Hub \<Rightarrow> bool" where
  "ticked h h' \<longleftrightarrow> (case h_st h of
       StWaiting \<Rightarrow> h_st h' = StWaiting
     | StCountdown \<Rightarrow> h_world h' = h_world h
         \<and> h_st h' = (if h_clk h (h_calls h) \<ge> h_goAt h then StRacing else StCountdown)
     | StRacing \<Rightarrow> (\<exists>w w'. h_world h = Some w \<and> Step (h_pendingFlaps h) w = Some w' \<and> h_world h' = Some w'
         \<and> w_Tick w' = w_Tick w + 1 \<and> h_pendingFlaps h' = {||}
         \<and> h_st h' = (if Alive w' = 0 \<or> w_Tick w' \<ge> MaxRaceTicks then StFinished else StRacing))
     | StFinished \<Rightarrow> h_st h' = (if h_clk h (h_calls h) \<ge> h_finishAt h then StCountdown else StFinished))"

lemma now_fields:
  "h_st (snd (now_ms h)) = h_st h" "h_world (snd (now_ms h)) = h_world h"
  "h_pendingFlaps (snd (now_ms h)) = h_pendingFlaps h" "h_goAt (snd (now_ms h)) = h_goAt h"
  "h_finishAt (snd (now_ms h)) = h_finishAt h" "fst (now_ms h) = h_clk h (h_calls h)"
  by (simp_all add: now_ms_def)

text \<open>What a tick promises, and that a tick which at most broadcasts keeps the promise.\<close>

definition tick_good :: "Hub \<Rightarrow> bool" where
  "tick_good h \<longleftrightarrow> (\<exists>h'. tick h = Some h' \<and> hub_inv h' \<and> same_players h h' \<and> ticked h h')"

lemma tick_good_idle:
  assumes "hub_inv h" "tick h = maybeSnapshot (fst (now_ms h)) (snd (now_ms h))"
    "\<And>h'. sent (snd (now_ms h)) h' \<Longrightarrow> ticked h h'"
  shows "tick_good h"
proof -
  have inv: "hub_inv (snd (now_ms h))" and same: "same_players h (snd (now_ms h))" using hub_inv_now [OF assms(1)] by simp_all
  from maybeSnapshot_inv [OF inv] obtain h' where
    "maybeSnapshot (fst (now_ms h)) (snd (now_ms h)) = Some h'" "hub_inv h'" "sent (snd (now_ms h)) h'" by blast
  then show ?thesis using assms(2,3) same_players_trans [OF same same_players_sent] by (auto simp: tick_good_def)
qed

lemma tick_countdown:
  assumes "hub_inv h" "h_st h = StCountdown"
  shows "tick_good h"
proof -
  let ?t = "fst (now_ms h)" and ?h = "snd (now_ms h)"
  note nf = now_fields [of h]
  have inv: "hub_inv ?h" and same: "same_players h ?h" using hub_inv_now [OF assms(1)] by simp_all
  note sp = same_players_trans [OF same]
  have countdown: "h_st ?h = StCountdown" by (simp add: nf assms(2))
  show ?thesis
  proof (cases "?t \<ge> h_goAt ?h")
    case True
    have "hub_inv (?h\<lparr>h_st := StRacing\<rparr>)" using inv countdown(1) by (rule hub_inv_go)
    from broadcast_inv [OF this] obtain h' where h': "broadcast (?h\<lparr>h_st := StRacing\<rparr>) = Some h'"
      "sent (?h\<lparr>h_st := StRacing\<rparr>) h'" "hub_inv h'" by blast
    note sf = sent_frame [OF h'(2)]
    have "same_players ?h h'" using sf by (simp add: same_players_def)
    moreover have "ticked h h'" using sf True countdown(1) by (simp add: ticked_def nf)
    ultimately show ?thesis
      using h' sp True countdown(1) by (simp add: tick_good_def tick_def case_prod_unfold Let_def)
  next
    case False
    show ?thesis
    proof (rule tick_good_idle [OF assms(1)])
      show "tick h = maybeSnapshot ?t ?h" using False countdown(1) by (simp add: tick_def case_prod_unfold Let_def)
      show "ticked h h'" if "sent ?h h'" for h'
        using sent_frame [OF that] False countdown(1) by (simp add: ticked_def nf)
    qed
  qed
qed

lemma tick_racing:
  assumes "hub_inv h" "h_st h = StRacing"
  shows "tick_good h"
proof -
  let ?t = "fst (now_ms h)" and ?h = "snd (now_ms h)"
  note nf = now_fields [of h]
  have inv: "hub_inv ?h" and same: "same_players h ?h" using hub_inv_now [OF assms(1)] by simp_all
  note sp = same_players_trans [OF same]
  obtain w ri where racing: "h_st ?h = StRacing" "h_world ?h = Some w" "h_raceInfo ?h = Some ri" "race_ok ?h w ri"
    "w_Tick w < MaxRaceTicks" "\<exists>i. flying w i" "\<And>i. flying w i \<Longrightarrow> i |\<in>| h_players ?h"
    using inv assms(2) by (cases rule: hub_inv_race_cases) (auto simp: nf)
  from Step_race [OF racing(4,5), of "h_pendingFlaps ?h"] obtain w' where
    w': "Step (h_pendingFlaps ?h) w = Some w'" "race_ok ?h w' ri" "stepped (h_pendingFlaps ?h) w w'"
    "\<And>i. flying w' i \<Longrightarrow> flying w i" by blast
  let ?g = "?h\<lparr>h_pendingFlaps := {||}, h_world := Some w'\<rparr>"
  have reg: "reg_inv ?g = reg_inv ?h" by (rule reg_inv_cong) simp_all
  have mem: "mem_inv ?g = mem_inv ?h" by (rule mem_inv_cong) simp_all
  have ok: "race_ok ?g w' ri" using w'(2) by (simp add: race_ok_def)
  have sg: "same_players ?h ?g" by (simp add: same_players_def)
  have ne: "h_players ?g \<noteq> {||}" using racing(6,7) by auto
  have run: "tick h = (if Alive w' = 0 \<or> w_Tick w' \<ge> MaxRaceTicks then finishRace ?t ?g else maybeSnapshot ?t ?g)"
    using racing(1,2) w'(1) by (simp add: tick_def case_prod_unfold Let_def)
  have tk: "ticked h h'" if "h_world h' = Some w'" "h_pendingFlaps h' = {||}"
    "h_st h' = (if Alive w' = 0 \<or> w_Tick w' \<ge> MaxRaceTicks then StFinished else StRacing)" for h'
    using that racing(1,2) w'(1,3) by (simp add: ticked_def nf stepped_def)
  show ?thesis
  proof (cases "Alive w' = 0 \<or> w_Tick w' \<ge> MaxRaceTicks")
    case True
    from finishRace_spec [of ?g w' ri ?t] inv reg mem ok racing(3)
    obtain h' where h': "finishRace ?t ?g = Some h'" "hub_inv h'" "race_ended ?t ?g h'"
      by (auto simp: hub_inv_def)
    have "ticked h h'" by (rule tk) (use h'(3) ne True in \<open>simp_all add: race_ended_def\<close>)
    moreover have "same_players h h'" using sp same_players_trans [OF sg same_players_ended [OF h'(3)]] by blast
    ultimately show ?thesis using run True h' by (auto simp: tick_good_def)
  next
    case False
    have "race_inv ?g"
      using racing w'(4) ok False Alive_0_iff [of w'] by (auto simp: race_inv_def)
    then have "hub_inv ?g" using inv reg mem by (simp add: hub_inv_def)
    from maybeSnapshot_inv [OF this, of ?t] obtain h' where
      h': "maybeSnapshot ?t ?g = Some h'" "sent ?g h'" "hub_inv h'" by blast
    have "ticked h h'"
      by (rule tk) (use sent_frame [OF h'(2)] False racing(1) in simp_all)
    moreover have "same_players h h'" using sp same_players_trans [OF sg same_players_sent [OF h'(2)]] by blast
    ultimately show ?thesis using run False h' by (auto simp: tick_good_def)
  qed
qed

lemma tick_finished:
  assumes "hub_inv h" "h_st h = StFinished"
  shows "tick_good h"
proof -
  let ?t = "fst (now_ms h)" and ?h = "snd (now_ms h)"
  note nf = now_fields [of h]
  have inv: "hub_inv ?h" and same: "same_players h ?h" using hub_inv_now [OF assms(1)] by simp_all
  note sp = same_players_trans [OF same]
  have finished: "h_st ?h = StFinished" "h_players ?h \<noteq> {||}"
    using inv assms(2) by (cases rule: hub_inv_race_cases; simp add: nf)+
  show ?thesis
  proof (cases "?t \<ge> h_finishAt ?h")
    case True
    from beginCountdown_spec [of ?h ?t] inv obtain g where
      g: "beginCountdown ?t ?h = Some g" "countdown_from ?h g" by (auto simp: hub_inv_def)
    have "hub_inv g"
      by (rule hub_inv_countdown [OF g(2)]) (use inv finished(2) in \<open>auto simp: hub_inv_def\<close>)
    from broadcast_inv [OF this] obtain h' where
      h': "broadcast g = Some h'" "sent g h'" "hub_inv h'" by blast
    have "tick h = Some h'"
      using True finished(1,2) g(1) h'(1) by (simp add: tick_def case_prod_unfold Let_def)
    moreover have "ticked h h'"
      using sent_frame [OF h'(2)] g(2) True finished(1) by (simp add: ticked_def nf countdown_from_def)
    ultimately show ?thesis
      using h'(3) sp same_players_trans [OF same_players_countdown [OF g(2)] same_players_sent [OF h'(2)]]
      unfolding tick_good_def by blast
  next
    case False
    show ?thesis
    proof (rule tick_good_idle [OF assms(1)])
      show "tick h = maybeSnapshot ?t ?h" using False finished(1) by (simp add: tick_def case_prod_unfold Let_def)
      show "ticked h h'" if "sent ?h h'" for h'
        using sent_frame [OF that] False finished(1) by (simp add: ticked_def nf)
    qed
  qed
qed

theorem tick_inv:
  assumes "hub_inv h"
  shows "\<exists>h'. tick h = Some h' \<and> hub_inv h' \<and> same_players h h' \<and> ticked h h'"
proof (cases "h_st h = StWaiting")
  case True
  have "tick h = Some (snd (now_ms h))" "ticked h (snd (now_ms h))"
    using True by (simp_all add: tick_def case_prod_unfold Let_def ticked_def now_fields)
  then show ?thesis using hub_inv_now [OF assms] by simp
next
  case False
  then show ?thesis
    using assms tick_countdown tick_racing tick_finished by (cases "h_st h") (simp_all add: tick_good_def)
qed

section \<open>Flaps\<close>

text \<open>A flap changes the rate window of its own session and the pending set.\<close>

definition flap_rel :: "u64 \<Rightarrow> Hub \<Rightarrow> Hub \<Rightarrow> bool" where
  "flap_rel i h h' \<longleftrightarrow> (\<exists>k m p. h' = h\<lparr>h_calls := k, h_sess := m, h_pendingFlaps := p\<rparr>
     \<and> fmdom m = fmdom (h_sess h) \<and> p |\<subseteq>| finsert i (h_pendingFlaps h)
     \<and> (\<forall>j. j \<noteq> i \<longrightarrow> fmlookup m j = fmlookup (h_sess h) j)
     \<and> (\<forall>s. fmlookup (h_sess h) i = Some s \<longrightarrow>
          (\<exists>x y. fmlookup m i = Some (s\<lparr>s_flapSec := x, s_flapCount := y\<rparr>))))"

lemma flap_rel_refl: "flap_rel i h h"
proof -
  have "s = s\<lparr>s_flapSec := s_flapSec s, s_flapCount := s_flapCount s\<rparr>" for s :: Session by simp
  then have ex: "\<exists>x y. s = s\<lparr>s_flapSec := x, s_flapCount := y\<rparr>" for s :: Session by blast
  show ?thesis
    unfolding flap_rel_def
  proof (rule exI [of _ "h_calls h"], rule exI [of _ "h_sess h"], rule exI [of _ "h_pendingFlaps h"],
      intro conjI allI impI)
    show "fmlookup (h_sess h) i = Some s \<Longrightarrow>
        \<exists>x y. fmlookup (h_sess h) i = Some (s\<lparr>s_flapSec := x, s_flapCount := y\<rparr>)" for s
      using ex [of s] by metis
  qed auto
qed

lemma flap_rel_sess:
  assumes "flap_rel i h h'" "fmlookup (h_sess h') j = Some s'"
  shows "\<exists>s. fmlookup (h_sess h) j = Some s \<and> s_ID s' = s_ID s \<and> s_Name s' = s_Name s
     \<and> s_Bird s' = s_Bird s \<and> s_conn s' = s_conn s"
proof (cases "j = i")
  case True
  have "j |\<in>| fmdom (h_sess h')" using assms(2) by (rule fmdomI)
  then have "j |\<in>| fmdom (h_sess h)" using assms(1) by (auto simp: flap_rel_def)
  then obtain s where "fmlookup (h_sess h) j = Some s" by (auto simp: fmlookup_dom_iff)
  then show ?thesis using assms True by (auto simp: flap_rel_def)
qed (use assms in \<open>auto simp: flap_rel_def\<close>)

lemma flap_rel_sess_rev:
  assumes "flap_rel i h h'" "fmlookup (h_sess h) j = Some s"
  shows "\<exists>s'. fmlookup (h_sess h') j = Some s' \<and> s_ID s' = s_ID s \<and> s_Name s' = s_Name s
     \<and> s_Bird s' = s_Bird s \<and> s_conn s' = s_conn s"
  using assms by (cases "j = i") (auto simp: flap_rel_def)

lemma flap_rel_inv:
  assumes "hub_inv h" "flap_rel i h h'"
  shows "hub_inv h'"
proof -
  have f: "h_players h' = h_players h" "h_order h' = h_order h" "h_names h' = h_names h"
    "h_nextID h' = h_nextID h" "h_conns h' = h_conns h" "h_st h' = h_st h" "h_world h' = h_world h"
    "h_raceInfo h' = h_raceInfo h" "h_store h' = h_store h" "fmdom (h_sess h') = fmdom (h_sess h)"
    using assms(2) by (auto simp: flap_rel_def)
  note bwd = flap_rel_sess [OF assms(2)] and fwd = flap_rel_sess_rev [OF assms(2)]
  have reg: "reg_inv h" and race: "race_inv h" and mem: "mem_inv h" and ci: "conns_inv (h_conns h)"
    using assms(1) by (simp_all add: hub_inv_def)
  have "reg_inv h'"
    unfolding reg_inv_def f
  proof (intro conjI allI impI, goal_cases)
    case (4 j s)
    then show ?case using bwd [OF 4] reg unfolding reg_inv_def by metis
  next
    case (5 j s)
    then show ?case using bwd [OF 5] reg unfolding reg_inv_def by metis
  next
    case (6 j s)
    then show ?case using bwd [OF 6] reg unfolding reg_inv_def by metis
  next
    case (7 j s)
    then show ?case using bwd [OF 7(2)] reg unfolding reg_inv_def by metis
  next
    case (8 j s)
    then show ?case using bwd [OF 8(2)] reg unfolding reg_inv_def by metis
  next
    case (9 n j)
    then show ?case using reg unfolding reg_inv_def by blast
  next
    case (10 n j)
    then obtain s where "fmlookup (h_sess h) j = Some s" "s_Name s = n" using reg unfolding reg_inv_def by blast
    then show ?case using fwd [of j s] by auto
  next
    case (11 j k s t)
    from bwd [OF 11(3)] bwd [OF 11(4)] obtain a b where
      "fmlookup (h_sess h) j = Some a" "fmlookup (h_sess h) k = Some b" "s_conn a = s_conn b"
      using 11(5) by auto
    with 11(1,2) reg show ?case unfolding reg_inv_def by blast
  qed (use reg in \<open>simp_all add: reg_inv_def\<close>)
  moreover have rs: "racers_inv (h_sess h') ri w" if r: "racers_inv (h_sess h) ri w" for ri w
    unfolding racers_inv_def
  proof (intro conjI allI impI, goal_cases)
    case (2 j b)
    then obtain s where s: "fmlookup (h_sess h) j = Some s" "b_Name b = s_Name s" "fmlookup ri j = Some (info_of s)"
      using r unfolding racers_inv_def by blast
    from fwd [OF s(1)] s(2,3) show ?case by (auto simp: info_of_def)
  qed (use r in \<open>auto simp: racers_inv_def\<close>)
  then have "race_ok h' w ri" if "race_ok h w ri" for w ri using that by (simp add: race_ok_def)
  then have "race_inv h'"
    using race unfolding race_inv_def f lobby_def by (auto split: race_state.splits)
  moreover have "mem_inv h'"
    unfolding mem_inv_def f
  proof (intro allI impI)
    fix j s' assume "fmlookup (h_sess h') j = Some s'"
    from bwd [OF this] mem show "LookupBird (s_Name s') (h_store h) = (s_Bird s', True)"
      unfolding mem_inv_def by metis
  qed
  ultimately show ?thesis using ci f by (simp add: hub_inv_def)
qed

theorem handleFlap_inv:
  assumes "hub_inv h" "i |\<in>| fmdom (h_sess h)"
  shows "\<exists>h'. handleFlap (Some i) h = Some h' \<and> hub_inv h' \<and> flap_rel i h h'"
proof -
  obtain s where s: "fmlookup (h_sess h) i = Some s" using assms(2) by (auto simp: fmlookup_dom_iff)
  have id: "s_ID s = i" using assms(1) s unfolding hub_inv_def reg_inv_def by blast
  have "\<exists>h'. handleFlap (Some i) h = Some h' \<and> flap_rel i h h'"
  proof (cases "h_st h = StRacing")
    case False
    then show ?thesis using flap_rel_refl by (auto simp: handleFlap_def)
  next
    case True
    obtain w where w: "h_world h = Some w"
      using True assms(1) by (auto simp: hub_inv_def race_inv_def)
    define u where "u = rate_window (h_clk h (h_calls h) sdiv 1000) s"
    define v where "v = (if s_flapCount u \<ge> FlapRateLimit then u else u\<lparr>s_flapCount := s_flapCount u + 1\<rparr>)"
    define p where "p = (if s_flapCount u \<ge> FlapRateLimit \<or> \<not> IsRacer w i then h_pendingFlaps h
        else finsert i (h_pendingFlaps h))"
    have uid: "s_ID u = i" using id by (simp add: u_def rate_window_def)
    let ?h' = "h\<lparr>h_calls := Suc (h_calls h), h_sess := fmupd i v (h_sess h), h_pendingFlaps := p\<rparr>"
    have "handleFlap (Some i) h = Some ?h'"
      using True s w uid
      by (simp add: handleFlap_def now_ms_def Let_def u_def [symmetric] v_def p_def del: FlapRateLimit_def)
    moreover have "\<exists>x y. v = s\<lparr>s_flapSec := x, s_flapCount := y\<rparr>"
      by (cases s) (auto simp: v_def u_def rate_window_def)
    then have "flap_rel i h ?h'"
      unfolding flap_rel_def using s fmdom_upd_existing [OF s, of v]
      by (intro exI [of _ "Suc (h_calls h)"] exI [of _ "fmupd i v (h_sess h)"] exI [of _ p]) (auto simp: p_def)
    ultimately show ?thesis by blast
  qed
  then show ?thesis using flap_rel_inv [OF assms(1)] by blast
qed

section \<open>Leaving\<close>

lemma conn_close_total:
  assumes "c |\<in>| fmdom (h_conns h)"
  shows "\<exists>cs. conn_close c h = Some (h\<lparr>h_conns := cs\<rparr>) \<and> fmdom cs = fmdom (h_conns h)
     \<and> \<not> open_conn cs c \<and> (\<forall>d. d \<noteq> c \<longrightarrow> open_conn cs d = open_conn (h_conns h) d)
     \<and> (conns_inv (h_conns h) \<longrightarrow> conns_inv cs)"
proof -
  obtain q where q: "fmlookup (h_conns h) c = Some q" using assms by (auto simp: fmlookup_dom_iff)
  let ?cs = "fmupd c (close q) (h_conns h)"
  have "conn_close c h = Some (h\<lparr>h_conns := ?cs\<rparr>)" using q by (simp add: conn_close_def)
  moreover have "fmdom ?cs = fmdom (h_conns h)" using q by (rule fmdom_upd_existing)
  moreover have "conns_inv (h_conns h) \<longrightarrow> conns_inv ?cs" using q by (auto simp: conns_inv_def)
  ultimately show ?thesis by (intro exI [of _ ?cs]) (auto simp: open_conn_def)
qed

text \<open>Closing a connection that is no player's keeps the invariant.\<close>

lemma conn_close_inv:
  assumes "hub_inv h" "c |\<in>| fmdom (h_conns h)" "no_player_on h c"
  shows "\<exists>cs. conn_close c h = Some (h\<lparr>h_conns := cs\<rparr>) \<and> hub_inv (h\<lparr>h_conns := cs\<rparr>)
     \<and> fmdom cs = fmdom (h_conns h) \<and> \<not> open_conn cs c
     \<and> (\<forall>d. d \<noteq> c \<longrightarrow> open_conn cs d = open_conn (h_conns h) d)"
proof -
  from conn_close_total [OF assms(2)] obtain cs where cs: "conn_close c h = Some (h\<lparr>h_conns := cs\<rparr>)"
    "fmdom cs = fmdom (h_conns h)" "\<not> open_conn cs c"
    "\<And>d. d \<noteq> c \<Longrightarrow> open_conn cs d = open_conn (h_conns h) d" "conns_inv (h_conns h) \<longrightarrow> conns_inv cs" by blast
  let ?h = "h\<lparr>h_conns := cs\<rparr>"
  have reg: "reg_inv h" using assms(1) by (simp add: hub_inv_def)
  have "open_conn cs (s_conn s)" if "i |\<in>| h_players h" "fmlookup (h_sess h) i = Some s" for i s
  proof -
    have "open_conn (h_conns h) (s_conn s)" using reg that unfolding reg_inv_def by blast
    moreover have "s_conn s \<noteq> c" using assms(3) that unfolding no_player_on_def by blast
    ultimately show ?thesis using cs(4) by simp
  qed
  then have "reg_inv ?h" using reg by (simp add: reg_inv_def)
  moreover have "race_inv ?h = race_inv h" by (rule race_inv_cong) simp_all
  moreover have "mem_inv ?h = mem_inv h" by (rule mem_inv_cong) simp_all
  ultimately have "hub_inv ?h" using assms(1) cs(5) by (simp add: hub_inv_def)
  with cs show ?thesis by blast
qed

text \<open>Between \<open>unregister\<close> and \<open>leave_race\<close> only the race still knows the leaver.\<close>

lemma unregister_reg:
  assumes "reg_inv h" "fmlookup (h_sess h) i = Some s" "i |\<in>| h_players h"
  shows "reg_inv (unregister s h)" "no_player_on (unregister s h) (s_conn s)"
    "h_players (unregister s h) = h_players h |-| {|i|}" "h_order (unregister s h) = remove1 i (h_order h)"
proof -
  let ?h = "unregister s h"
  have id: "s_ID s = i" using assms(1,2) unfolding reg_inv_def by blast
  have f: "h_players ?h = h_players h |-| {|i|}" "h_names ?h = fmdrop (s_Name s) (h_names h)"
    "h_order ?h = remove1 i (h_order h)" "h_sess ?h = h_sess h" "h_nextID ?h = h_nextID h" "h_conns ?h = h_conns h"
    by (simp_all add: unregister_def id)
  have ord: "distinct (h_order h)" "set (h_order h) = fset (h_players h)"
    using assms(1) by (simp_all add: reg_inv_def)
  have ids: "\<And>j t. fmlookup (h_sess h) j = Some t \<Longrightarrow> s_ID t = j \<and> 0 < j \<and> j \<le> h_nextID h"
    using assms(1) unfolding reg_inv_def by blast
  have nms: "\<And>j t. j |\<in>| h_players h \<Longrightarrow> fmlookup (h_sess h) j = Some t \<Longrightarrow>
      fmlookup (h_names h) (s_Name t) = Some j \<and> open_conn (h_conns h) (s_conn t)"
    using assms(1) unfolding reg_inv_def by blast
  have nms': "\<And>n j. fmlookup (h_names h) n = Some j \<Longrightarrow> j |\<in>| h_players h
      \<and> (\<exists>t. fmlookup (h_sess h) j = Some t \<and> s_Name t = n)"
    using assms(1) unfolding reg_inv_def by blast
  show "reg_inv ?h"
    unfolding reg_inv_def f
  proof (intro conjI allI impI, goal_cases)
    case (7 j t)
    have "s_Name t \<noteq> s_Name s"
      using nms [of j t] nms [OF assms(3,2)] 7 by auto
    then show ?case using nms [of j t] 7 by simp
  next
    case (9 n j)
    then have n: "fmlookup (h_names h) n = Some j" "n \<noteq> s_Name s" by (auto split: if_splits)
    then have "j \<noteq> i" using nms' [of n j] assms(2) by auto
    then show ?case using nms' [OF n(1)] by simp
  next
    case (10 n j)
    then show ?case using nms' [of n j] by (auto split: if_splits)
  next
    case 3
    have "h_players h |\<subseteq>| fmdom (h_sess h)" using assms(1) unfolding reg_inv_def by blast
    then show ?case by blast
  next
    case (8 j t)
    then show ?case using nms [of j t] by simp
  next
    case (11 j k t u)
    then have "j |\<in>| h_players h" "k |\<in>| h_players h" by simp_all
    with 11(3-5) assms(1) show ?case unfolding reg_inv_def by blast
  qed (use ord ids in simp_all)
  have inj: "\<And>j t. j |\<in>| h_players h \<Longrightarrow> fmlookup (h_sess h) j = Some t \<Longrightarrow> s_conn t = s_conn s \<Longrightarrow> j = i"
    using assms unfolding reg_inv_def by blast
  show "no_player_on ?h (s_conn s)"
    unfolding no_player_on_def f using inj by auto
  show "h_players ?h = h_players h |-| {|i|}" "h_order ?h = remove1 i (h_order h)" using f by simp_all
qed

lemma racers_inv_remove:
  assumes "racers_inv sess ri w"
  shows "racers_inv sess (fmdrop i ri) (RemoveBird i w)"
  unfolding racers_inv_def
proof (intro conjI allI impI, goal_cases)
  case (2 j b)
  then show ?case using assms by (auto simp: racers_inv_def RemoveBird_lookup split: if_splits)
next
  case (3 j k b c)
  then have "fmlookup (w_Birds w) j = Some b" "fmlookup (w_Birds w) k = Some c"
    by (auto simp: RemoveBird_lookup split: if_splits)
  with 3(3) assms show ?case unfolding racers_inv_def by blast
qed (use assms in \<open>simp add: racers_inv_def\<close>)

lemma flying_remove: "flying (RemoveBird i w) j \<longleftrightarrow> j \<noteq> i \<and> flying w j"
  by (auto simp: flying_def RemoveBird_lookup)

lemma flying_left: "flying (KillLeft i w) j \<longleftrightarrow> j \<noteq> i \<and> flying w j"
  by (auto simp: flying_def KillLeft_lookup split: option.splits if_splits)

lemma race_ok_left: "race_ok h w ri \<Longrightarrow> race_ok h (KillLeft i w) ri"
proof -
  assume a: "race_ok h w ri"
  have "racers_inv (h_sess h) ri (KillLeft i w)"
    by (rule racers_inv_names [of _ _ w])
      (use a in \<open>auto simp: race_ok_def KillLeft_lookup split: option.splits if_splits\<close>)
  then show ?thesis using a KillLeft_inv by (simp add: race_ok_def)
qed

lemma IsRacer_flying: "flying w i \<Longrightarrow> IsRacer w i"
  by (auto simp: flying_def IsRacer_def dest: fmdomI)

lemma lobby_dom:
  assumes "reg_inv h" "world_inv w" "w_Order w = h_order h"
  shows "fmdom (w_Birds w) = h_players h"
proof -
  have "fset (fmdom (w_Birds w)) = fset (h_players h)"
    using assms by (simp add: birds_wf_def world_inv_def reg_inv_def)
  then show ?thesis by (simp add: fset_inject)
qed

text \<open>A leave keeps the state, ends the race it leaves without a flyer, or empties the hub.\<close>

definition left_st :: "Hub \<Rightarrow> Hub \<Rightarrow> bool" where
  "left_st h h' \<longleftrightarrow> h_st h' = h_st h \<or> h_st h' = StWaiting \<or> h_st h = StRacing \<and> h_st h' = StFinished"

lemma unregister_frame:
  "h_st (unregister s h) = h_st h" "h_world (unregister s h) = h_world h" "h_raceInfo (unregister s h) = h_raceInfo h"
  "h_sess (unregister s h) = h_sess h" "h_conns (unregister s h) = h_conns h" "h_store (unregister s h) = h_store h"
  by (simp_all add: unregister_def)

text \<open>A hub without the leaver is well again once its race is.\<close>

lemma hub_inv_unregister:
  assumes "hub_inv h" "i |\<in>| h_players h" "fmlookup (h_sess h) i = Some s"
    "reg_inv k = reg_inv (unregister s h)" "mem_inv k = mem_inv (unregister s h)" "h_conns k = h_conns (unregister s h)" "race_inv k"
  shows "hub_inv k"
proof -
  have "reg_inv h" "mem_inv h" "conns_inv (h_conns h)" using assms(1) by (simp_all add: hub_inv_def)
  then show ?thesis
    using unregister_reg(1) [OF _ assms(3,2)] assms(4-7) by (simp add: hub_inv_def mem_inv_def unregister_frame)
qed

definition leave_good :: "u64 \<Rightarrow> int \<Rightarrow> Session \<Rightarrow> Hub \<Rightarrow> bool" where
  "leave_good i t s h \<longleftrightarrow> (\<exists>h'. leave_race i t (unregister s h) = Some h' \<and> hub_inv h'
     \<and> same_players (unregister s h) h' \<and> left_st h h')"

lemma leave_countdown:
  assumes "hub_inv h" "i |\<in>| h_players h" "fmlookup (h_sess h) i = Some s" "h_st h = StCountdown"
  shows "leave_good i t s h"
proof -
  let ?g = "unregister s h"
  note f = unregister_frame [of s h]
  have reg: "reg_inv h" using assms(1) by (simp add: hub_inv_def)
  note un = unregister_reg [OF reg assms(3,2)] and keep = hub_inv_unregister [OF assms(1-3)]
  have memg: "mem_inv ?g" and cig: "conns_inv (h_conns ?g)" using assms(1) by (simp_all add: hub_inv_def mem_inv_def f)
  have okg: "race_ok ?g w ri = race_ok h w ri" for w ri by (simp add: race_ok_def f)
  obtain w ri where countdown: "h_st h = StCountdown" "h_world h = Some w" "h_raceInfo h = Some ri" "race_ok h w ri"
    "lobby h w" "w_Order w = h_order h" "h_players h \<noteq> {||}" using assms(1,4) by (cases rule: hub_inv_race_cases) auto
  have w: "world_inv w" using countdown(4) by (simp add: race_ok_def)
  have dom: "fmdom (w_Birds w) = h_players h" using reg w countdown(6) by (rule lobby_dom)
  then have racer: "IsRacer w i" using assms(2) by (simp add: IsRacer_def)
  let ?w = "RemoveBird i w" and ?k = "?g\<lparr>h_world := Some (RemoveBird i w), h_raceInfo := Some (fmdrop i ri)\<rparr>"
  have run: "leave_race i t ?g = (if RacerCount ?w = 0 then Some (no_race ?k) else broadcast ?k)"
    using countdown(1-3) racer by (simp add: leave_race_def f Let_def)
  have rk: "reg_inv ?k = reg_inv ?g" by (rule reg_inv_cong) simp_all
  have mk: "mem_inv ?k = mem_inv ?g" by (rule mem_inv_cong) simp_all
  have sk: "same_players ?g ?k" by (simp add: same_players_def)
  show ?thesis
  proof (cases "RacerCount ?w = 0")
    case True
    then have "h_players ?k = {||}" using un(3) dom by (simp add: RacerCount_def)
    with un(1) memg cig rk mk have "hub_inv (no_race ?k)" by (intro no_race_inv) simp_all
    moreover have "same_players ?g (no_race ?k)" by (simp add: same_players_def no_race_def)
    moreover have "left_st h (no_race ?k)" by (simp add: left_st_def no_race_def)
    ultimately show ?thesis using run True by (simp add: leave_good_def)
  next
    case False
    have "w_Order ?w = h_order ?k"
      using RemoveBird_order [of w i] w countdown(6) un(4) by (simp add: world_inv_def)
    moreover have "race_ok ?k ?w (fmdrop i ri)"
      using countdown(4) RemoveBird_inv racers_inv_remove f by (simp add: race_ok_def)
    moreover have "lobby ?k ?w"
      using countdown(5) un(3) by (auto simp: lobby_def flying_remove)
    moreover have "h_players ?k \<noteq> {||}" using False un(3) dom by (auto simp: RacerCount_def)
    ultimately have "race_inv ?k" using countdown(1) by (auto simp: race_inv_def f)
    then have "hub_inv ?k" using rk mk by (intro keep) simp_all
    from broadcast_inv [OF this] obtain h' where
      h': "broadcast ?k = Some h'" "sent ?k h'" "hub_inv h'" by blast
    have "left_st h h'" using sent_frame [OF h'(2)] by (simp add: left_st_def f)
    then show ?thesis
      using run False h' same_players_trans [OF sk same_players_sent [OF h'(2)]] by (simp add: leave_good_def)
  qed
qed

lemma leave_racing:
  assumes "hub_inv h" "i |\<in>| h_players h" "fmlookup (h_sess h) i = Some s" "h_st h = StRacing"
  shows "leave_good i t s h"
proof -
  let ?g = "unregister s h"
  note f = unregister_frame [of s h]
  have reg: "reg_inv h" using assms(1) by (simp add: hub_inv_def)
  note un = unregister_reg [OF reg assms(3,2)] and keep = hub_inv_unregister [OF assms(1-3)]
  have memg: "mem_inv ?g" and cig: "conns_inv (h_conns ?g)" using assms(1) by (simp_all add: hub_inv_def mem_inv_def f)
  have okg: "race_ok ?g w ri = race_ok h w ri" for w ri by (simp add: race_ok_def f)
  obtain w ri where racing: "h_st h = StRacing" "h_world h = Some w" "h_raceInfo h = Some ri" "race_ok h w ri"
    "w_Tick w < MaxRaceTicks" "\<exists>i. flying w i" "\<And>i. flying w i \<Longrightarrow> i |\<in>| h_players h"
    using assms(1,4) by (cases rule: hub_inv_race_cases) auto
  show ?thesis
  proof (cases "IsRacer w i")
    case True
    let ?w = "KillLeft i w" and ?k = "?g\<lparr>h_world := Some (KillLeft i w)\<rparr>"
    have run: "leave_race i t ?g = (if Alive ?w = 0 then finishRace t ?k else broadcast ?k)"
      using racing(1,2) True by (simp add: leave_race_def f Let_def)
    have rk: "reg_inv ?k = reg_inv ?g" by (rule reg_inv_cong) simp_all
    have mk: "mem_inv ?k = mem_inv ?g" by (rule mem_inv_cong) simp_all
    have sk: "same_players ?g ?k" by (simp add: same_players_def)
    have ok: "race_ok ?k ?w ri" using race_ok_left [OF racing(4)] f by (simp add: race_ok_def)
    show ?thesis
    proof (cases "Alive ?w = 0")
      case True
      from finishRace_spec [of ?k ?w ri t] un(1) memg cig rk mk ok racing(3) f
      obtain h' where h': "finishRace t ?k = Some h'" "hub_inv h'" "race_ended t ?k h'" by auto
      have "left_st h h'" using h'(3) racing(1) by (auto simp: left_st_def race_ended_def)
      then show ?thesis
        using run True h' same_players_trans [OF sk same_players_ended [OF h'(3)]] by (simp add: leave_good_def)
    next
      case False
      have "race_inv ?k"
        using racing ok False un(3) f Alive_0_iff [of ?w]
        by (auto simp: race_inv_def flying_left)
      then have "hub_inv ?k" using rk mk by (intro keep) simp_all
      from broadcast_inv [OF this] obtain h' where
        h': "broadcast ?k = Some h'" "sent ?k h'" "hub_inv h'" by blast
      have "left_st h h'" using sent_frame [OF h'(2)] by (simp add: left_st_def f)
      then show ?thesis
        using run False h' same_players_trans [OF sk same_players_sent [OF h'(2)]] by (simp add: leave_good_def)
    qed
  next
    case False
    have run: "leave_race i t ?g = Some ?g"
      using racing(1,2) False by (simp add: leave_race_def f)
    have "race_inv ?g"
      using racing okg False IsRacer_flying un(3) by (auto simp: race_inv_def f)
    then have "hub_inv ?g" by (intro keep) simp_all
    then show ?thesis using run by (simp add: leave_good_def same_players_def left_st_def f)
  qed
qed

lemma leave_finished:
  assumes "hub_inv h" "i |\<in>| h_players h" "fmlookup (h_sess h) i = Some s" "h_st h = StFinished"
  shows "leave_good i t s h"
proof -
  let ?g = "unregister s h"
  note f = unregister_frame [of s h]
  have reg: "reg_inv h" using assms(1) by (simp add: hub_inv_def)
  note un = unregister_reg [OF reg assms(3,2)] and keep = hub_inv_unregister [OF assms(1-3)]
  have memg: "mem_inv ?g" and cig: "conns_inv (h_conns ?g)" using assms(1) by (simp_all add: hub_inv_def mem_inv_def f)
  have okg: "race_ok ?g w ri = race_ok h w ri" for w ri by (simp add: race_ok_def f)
  obtain w ri where finished: "h_st h = StFinished" "h_world h = Some w" "h_raceInfo h = Some ri" "race_ok h w ri"
    "h_players h \<noteq> {||}" using assms(1,4) by (cases rule: hub_inv_race_cases) auto
  have run: "leave_race i t ?g = Some (if h_players ?g = {||} then no_race ?g else ?g)"
    using finished(1) by (simp add: leave_race_def f)
  show ?thesis
  proof (cases "h_players ?g = {||}")
    case True
    with un(1) memg cig have "hub_inv (no_race ?g)" by (intro no_race_inv) simp_all
    then show ?thesis using run True by (simp add: leave_good_def same_players_def no_race_def left_st_def)
  next
    case False
    have "race_inv ?g" using finished okg False by (auto simp: race_inv_def f)
    then have "hub_inv ?g" by (intro keep) simp_all
    then show ?thesis using run False by (simp add: leave_good_def same_players_def left_st_def f)
  qed
qed

lemma leave_race_inv:
  assumes inv: "hub_inv h" and i: "i |\<in>| h_players h" "fmlookup (h_sess h) i = Some s"
  shows "\<exists>h'. leave_race i t (unregister s h) = Some h' \<and> hub_inv h' \<and> same_players (unregister s h) h'
     \<and> left_st h h'"
proof (cases "h_st h = StWaiting")
  case True
  with inv have "h_players h = {||}" by (cases rule: hub_inv_race_cases) auto
  then show ?thesis using i by simp
next
  case False
  have "leave_good i t s h"
    using assms leave_countdown leave_racing leave_finished False by (cases "h_st h") simp_all
  then show ?thesis by (simp add: leave_good_def)
qed

text \<open>What a leave does: the leaver is gone and its connection, only it, is closed.\<close>

definition left_rel :: "nat \<Rightarrow> u64 fset \<Rightarrow> Hub \<Rightarrow> Hub \<Rightarrow> bool" where
  "left_rel c out h h' \<longleftrightarrow> h_sess h' = h_sess h \<and> h_players h' = h_players h |-| out \<and> h_nextID h' = h_nextID h
     \<and> fmdom (h_conns h') = fmdom (h_conns h) \<and> \<not> open_conn (h_conns h') c
     \<and> (\<forall>d. d \<noteq> c \<longrightarrow> open_conn (h_conns h') d = open_conn (h_conns h) d)"

theorem handleLeave_inv:
  assumes inv: "hub_inv h" and i: "i |\<in>| h_players h" "fmlookup (h_sess h) i = Some s"
  shows "\<exists>h'. handleLeave (Some (s_conn s)) (Some i) h = Some h' \<and> hub_inv h' \<and> left_rel (s_conn s) {|i|} h h'
     \<and> left_st h h'"
proof -
  let ?t = "fst (now_ms h)" and ?h = "snd (now_ms h)"
  have inv': "hub_inv ?h" "same_players h ?h" using hub_inv_now [OF inv] by simp_all
  have id: "s_ID s = i" using inv i(2) unfolding hub_inv_def reg_inv_def by blast
  have i': "i |\<in>| h_players ?h" "fmlookup (h_sess ?h) i = Some s" using i inv'(2) by (simp_all add: same_players_def)
  have reg: "reg_inv ?h" using inv'(1) by (simp add: hub_inv_def)
  note un = unregister_reg [OF reg i'(2,1)]
  have uf: "h_sess (unregister s ?h) = h_sess ?h" "h_conns (unregister s ?h) = h_conns ?h"
    "h_nextID (unregister s ?h) = h_nextID ?h" by (simp_all add: unregister_def)
  from leave_race_inv [OF inv'(1) i'] obtain g where
    g: "leave_race i ?t (unregister s ?h) = Some g" "hub_inv g" "same_players (unregister s ?h) g" "left_st ?h g"
    by blast
  have np: "no_player_on g (s_conn s)" using un(2) g(3) by (simp add: no_player_on_def same_players_def)
  have "open_conn (h_conns h) (s_conn s)" using inv i unfolding hub_inv_def reg_inv_def by blast
  then have "s_conn s |\<in>| fmdom (h_conns h)" by (rule open_conn_dom)
  then have "s_conn s |\<in>| fmdom (h_conns g)"
    using g(3) inv'(2) uf by (simp add: same_players_def sends_def)
  from conn_close_inv [OF g(2) this np] obtain cs where
    cs: "conn_close (s_conn s) g = Some (g\<lparr>h_conns := cs\<rparr>)" "hub_inv (g\<lparr>h_conns := cs\<rparr>)"
    "fmdom cs = fmdom (h_conns g)" "\<not> open_conn cs (s_conn s)"
    "\<And>d. d \<noteq> s_conn s \<Longrightarrow> open_conn cs d = open_conn (h_conns g) d" by blast
  have "handleLeave (Some (s_conn s)) (Some i) h = Some (g\<lparr>h_conns := cs\<rparr>)"
    using i' g(1) cs(1) id by (simp add: handleLeave_def case_prod_unfold Let_def close_opt_def)
  moreover have "left_rel (s_conn s) {|i|} h (g\<lparr>h_conns := cs\<rparr>)"
    using cs(3-5) g(3) inv'(2) uf un(3) by (simp add: left_rel_def same_players_def sends_def)
  moreover have "left_st h (g\<lparr>h_conns := cs\<rparr>)" using g(4) by (simp add: left_st_def now_ms_def)
  ultimately show ?thesis using cs(2) by blast
qed

theorem handleLeave_unjoined_inv:
  assumes inv: "hub_inv h" and c: "c |\<in>| fmdom (h_conns h)" "no_player_on h c"
  shows "\<exists>h'. handleLeave (Some c) None h = Some h' \<and> hub_inv h' \<and> left_rel c {||} h h' \<and> h_st h' = h_st h"
proof -
  let ?h = "snd (now_ms h)"
  have inv': "hub_inv ?h" "same_players h ?h" using hub_inv_now [OF inv] by simp_all
  have "c |\<in>| fmdom (h_conns ?h)" "no_player_on ?h c"
    using c inv'(2) by (simp_all add: same_players_def sends_def no_player_on_def)
  from conn_close_inv [OF inv'(1) this] obtain cs where
    cs: "conn_close c ?h = Some (?h\<lparr>h_conns := cs\<rparr>)" "hub_inv (?h\<lparr>h_conns := cs\<rparr>)"
    "fmdom cs = fmdom (h_conns ?h)" "\<not> open_conn cs c"
    "\<And>d. d \<noteq> c \<Longrightarrow> open_conn cs d = open_conn (h_conns ?h) d" by blast
  have "handleLeave (Some c) None h = Some (?h\<lparr>h_conns := cs\<rparr>)"
    using cs(1) by (simp add: handleLeave_def case_prod_unfold Let_def close_opt_def)
  moreover have "left_rel c {||} h (?h\<lparr>h_conns := cs\<rparr>)"
    using cs(3-5) inv'(2) by (simp add: left_rel_def same_players_def sends_def)
  ultimately show ?thesis using cs(2) by (simp add: now_ms_def)
qed

section \<open>Joining\<close>

lemma reject_inv:
  assumes "hub_inv h" "open_conn (h_conns h) c" "no_player_on h c"
  shows "\<exists>h'. reject c msg h = Some h' \<and> hub_inv h' \<and> left_rel c {||} h h' \<and> h_st h' = h_st h"
proof -
  from conn_enqueue_open [OF assms(2), of "FError msg"] obtain cs where
    cs: "conn_enqueue c (FError msg) h = Some (h\<lparr>h_conns := cs\<rparr>)" "sends (h_conns h) cs" by blast
  let ?h = "h\<lparr>h_conns := cs\<rparr>"
  have "sent h ?h"
    unfolding sent_def
    by (rule exI [of _ "h_calls h"], rule exI [of _ "h_lastSnap h"], rule exI [of _ cs]) (use cs(2) in simp)
  then have inv: "hub_inv ?h" using assms(1) hub_inv_sent by blast
  have dom: "c |\<in>| fmdom (h_conns ?h)"
    using cs(2) open_conn_dom [OF assms(2)] by (simp add: sends_def)
  have np: "no_player_on ?h c" using assms(3) by (simp add: no_player_on_def)
  from conn_close_inv [OF inv dom np] obtain ds where
    ds: "conn_close c ?h = Some (?h\<lparr>h_conns := ds\<rparr>)" "hub_inv (?h\<lparr>h_conns := ds\<rparr>)"
    "fmdom ds = fmdom cs" "\<not> open_conn ds c" "\<And>d. d \<noteq> c \<Longrightarrow> open_conn ds d = open_conn cs d"
    by auto
  have "left_rel c {||} h (?h\<lparr>h_conns := ds\<rparr>)" using ds(3-5) cs(2) by (simp add: left_rel_def sends_def)
  then show ?thesis using ds(1,2) cs(1) by (simp add: reject_def)
qed

definition joined_rel :: "nat \<Rightarrow> u64 \<Rightarrow> Session \<Rightarrow> Hub \<Rightarrow> Hub \<Rightarrow> bool" where
  "joined_rel c i s h h' \<longleftrightarrow> i = h_nextID h + 1 \<and> i |\<notin>| fmdom (h_sess h) \<and> s_conn s = c \<and> s_ID s = i
     \<and> h_sess h' = fmupd i s (h_sess h) \<and> h_players h' = finsert i (h_players h) \<and> h_nextID h' = i
     \<and> sends (h_conns h) (h_conns h')"

lemma admit_join_inv:
  assumes inv: "hub_inv h" and g: "g = h\<lparr>h_nextID := i, h_rng := rng, h_store := st, h_sess := fmupd i s (h_sess h),
        h_players := finsert i (h_players h), h_names := ns, h_order := h_order h @ [i], h_calls := k\<rparr>"
    and s: "s_ID s = i" "i |\<notin>| fmdom (h_sess h)" and reg: "reg_inv g" and mem: "mem_inv g"
  shows "\<exists>h'. admit_join s t g = Some h' \<and> hub_inv h' \<and> same_players g h'
     \<and> h_st h' = (if h_st h = StWaiting then StCountdown else h_st h) \<and> h_clk h' = h_clk h
     \<and> (h_st h = StWaiting \<longrightarrow> h_goAt h' = t + milliseconds (cf_Countdown (h_cfg h)))"
proof -
  have gf: "h_st g = h_st h" "h_world g = h_world h" "h_raceInfo g = h_raceInfo h"
    "h_players g = finsert i (h_players h)" "h_sess g = fmupd i s (h_sess h)" "h_order g = h_order h @ [i]"
    "h_conns g = h_conns h" "h_clk g = h_clk h" "h_cfg g = h_cfg h" by (simp_all add: g)
  have ci: "conns_inv (h_conns g)" using inv gf by (simp add: hub_inv_def)
  have regh: "reg_inv h" using inv by (simp add: hub_inv_def)
  have ip: "i |\<notin>| h_players h" using regh s(2) unfolding reg_inv_def by blast
  have ok: "race_ok g w ri" if r: "race_ok h w ri" for w ri
  proof -
    have "racers_inv (h_sess g) ri w"
      unfolding racers_inv_def
    proof (intro conjI allI impI, goal_cases)
      case (2 j b)
      then obtain u where u: "fmlookup (h_sess h) j = Some u" "b_Name b = s_Name u" "fmlookup ri j = Some (info_of u)"
        using r unfolding race_ok_def racers_inv_def by blast
      then have "j \<noteq> i" using s(2) by (auto dest: fmdomI)
      with u show ?case by (simp add: gf)
    qed (use r in \<open>auto simp: race_ok_def racers_inv_def\<close>)
    then show ?thesis using r by (simp add: race_ok_def)
  qed
  from inv show ?thesis
  proof (cases rule: hub_inv_race_cases)
    case waiting
    from beginCountdown_spec [OF reg, of t] obtain h' where
      h': "beginCountdown t g = Some h'" "countdown_from g h'"
      "h_goAt h' = t + milliseconds (cf_Countdown (h_cfg g))" by blast
    have "hub_inv h'" by (rule hub_inv_countdown [OF h'(2) reg mem ci]) (simp add: gf)
    moreover have "h_st h' = StCountdown" "h_clk h' = h_clk g" using h'(2) by (simp_all add: countdown_from_def)
    ultimately show ?thesis using h' waiting(1) same_players_countdown by (auto simp: admit_join_def gf)
  next
    case (countdown w ri)
    have w: "world_inv w" using countdown(4) by (simp add: race_ok_def)
    have dom: "fmdom (w_Birds w) = h_players h" using regh w countdown(6) by (rule lobby_dom)
    let ?w = "AddBird i (s_Name s) (Palette (s_Bird s)) (Accessory (s_Bird s)) w"
    let ?ri = "fmupd i (info_of s) ri"
    let ?k = "g\<lparr>h_world := Some ?w, h_raceInfo := Some ?ri\<rparr>"
    have "lobby_inv g w ri"
      using ok [OF countdown(4)] countdown(5) gf by (auto simp: lobby_inv_def lobby_def)
    from lobby_inv_admit [OF reg this, of i s "Palette (s_Bird s)" "Accessory (s_Bird s)"] ip dom
    have ad: "lobby_inv g ?w ?ri" "w_Order ?w = w_Order w @ [i]" by (simp_all add: gf)
    have rk: "reg_inv ?k = reg_inv g" by (rule reg_inv_cong) simp_all
    have mk: "mem_inv ?k = mem_inv g" by (rule mem_inv_cong) simp_all
    have lk: "lobby_inv ?k ?w ?ri = lobby_inv g ?w ?ri" by (rule lobby_inv_cong) simp_all
    have "race_inv ?k"
      using ad lk countdown(1,6) by (simp add: race_inv_def lobby_inv_def gf)
    then have "hub_inv ?k" using rk mk reg mem ci by (simp add: hub_inv_def)
    moreover have "admit_join s t g = Some ?k"
      using countdown(1-3) s(1) by (simp add: admit_join_def admitRacer_def gf info_of_def)
    ultimately show ?thesis using countdown(1) by (simp add: same_players_def gf)
  next
    case (racing w ri)
    have "race_inv g" using racing ok by (auto simp: race_inv_def gf)
    then have "hub_inv g" using reg mem ci by (simp add: hub_inv_def)
    then show ?thesis using racing(1) by (simp add: admit_join_def gf same_players_def)
  next
    case (finished w ri)
    have "race_inv g" using finished ok by (auto simp: race_inv_def gf)
    then have "hub_inv g" using reg mem ci by (simp add: hub_inv_def)
    then show ?thesis using finished(1) by (simp add: admit_join_def gf same_players_def)
  qed
qed

text \<open>The two outcomes of a join.\<close>

definition refused :: "(nat \<Rightarrow> bool) \<Rightarrow> nat \<Rightarrow> string \<Rightarrow> string \<Rightarrow> Hub \<Rightarrow> Hub \<Rightarrow> bool" where
  "refused tbl c name err h h' \<longleftrightarrow> left_rel c {||} h h' \<and> h_st h' = h_st h
     \<and> (int (fcard (h_players h)) \<ge> h_maxPlayers h \<and> err = ''server full''
        \<or> int (fcard (h_players h)) < h_maxPlayers h \<and> \<not> snd (ValidateName tbl name) \<and> err = ''invalid name'')"

definition admitted :: "(nat \<Rightarrow> bool) \<Rightarrow> nat \<Rightarrow> string \<Rightarrow> u64 \<Rightarrow> Hub \<Rightarrow> Hub \<Rightarrow> bool" where
  "admitted tbl c name i h h' \<longleftrightarrow> int (fcard (h_players h)) < h_maxPlayers h \<and> snd (ValidateName tbl name)
     \<and> (\<exists>s. joined_rel c i s h h' \<and> uniqueName h (fst (ValidateName tbl name)) = Some (s_Name s))
     \<and> h_st h' = (if h_st h = StWaiting then StCountdown else h_st h) \<and> h_clk h' = h_clk h
     \<and> (h_st h = StWaiting \<longrightarrow>
          h_goAt h' = h_clk h (h_calls h) + milliseconds (cf_Countdown (h_cfg h)))"

theorem handleJoin_inv:
  assumes inv: "hub_inv h" and c: "open_conn (h_conns h) c" "no_player_on h c" and nid: "h_nextID h \<noteq> - 1"
  shows "\<exists>r h'. handleJoin tbl c name h = Some (r, h') \<and> hub_inv h' \<and>
     (case jr_sess r of
        None \<Rightarrow> refused tbl c name (jr_errMsg r) h h'
      | Some i \<Rightarrow> jr_errMsg r = [] \<and> admitted tbl c name i h h')"
proof -
  consider (full) "int (fcard (h_players h)) \<ge> h_maxPlayers h"
    | (bad) "\<not> int (fcard (h_players h)) \<ge> h_maxPlayers h" "\<not> snd (ValidateName tbl name)"
    | (ok) "\<not> int (fcard (h_players h)) \<ge> h_maxPlayers h" "snd (ValidateName tbl name)" by blast
  then show ?thesis
  proof cases
    case full
    from reject_inv [OF inv c, of "''server full''"] full show ?thesis by (auto simp: handleJoin_def refused_def)
  next
    case bad
    from reject_inv [OF inv c, of "''please pick a name (1-16 characters)''"] bad show ?thesis
      by (auto simp: handleJoin_def case_prod_unfold refused_def)
  next
    case ok
    let ?v = "fst (ValidateName tbl name)"
    obtain nm where nm: "uniqueName h ?v = Some nm" "fm_get 0 (h_names h) nm = 0"
      using uniqueName_total by blast
    have reg: "reg_inv h" and mem: "mem_inv h" using inv by (simp_all add: hub_inv_def)
    let ?i = "h_nextID h + 1"
    from register_spec [OF reg mem nm(2) nid c] obtain b rng st s g where
      s: "s = new_session c nm b ?i" and
      g: "g = h\<lparr>h_nextID := ?i, h_rng := rng, h_store := st, h_sess := fmupd ?i s (h_sess h),
        h_players := finsert ?i (h_players h), h_names := fmupd nm ?i (h_names h), h_order := h_order h @ [?i]\<rparr>" and
      r: "register c nm h = (s, g)" "reg_inv g" "mem_inv g" "?i |\<notin>| fmdom (h_sess h)"
      unfolding Let_def by blast
    let ?t = "fst (now_ms g)" and ?k = "snd (now_ms g)"
    have k: "?k = h\<lparr>h_nextID := ?i, h_rng := rng, h_store := st, h_sess := fmupd ?i s (h_sess h),
        h_players := finsert ?i (h_players h), h_names := fmupd nm ?i (h_names h), h_order := h_order h @ [?i],
        h_calls := Suc (h_calls h)\<rparr>"
      by (simp add: now_ms_def g)
    have "reg_inv ?k = reg_inv g" by (rule reg_inv_cong) (simp_all add: now_ms_def)
    moreover have "mem_inv ?k = mem_inv g" by (rule mem_inv_cong) (simp_all add: now_ms_def)
    ultimately obtain h1 where h1: "admit_join s ?t ?k = Some h1" "hub_inv h1" "same_players ?k h1"
      "h_st h1 = (if h_st h = StWaiting then StCountdown else h_st h)" "h_clk h1 = h_clk h"
      "h_st h = StWaiting \<longrightarrow> h_goAt h1 = ?t + milliseconds (cf_Countdown (h_cfg h))"
      using admit_join_inv [OF inv k _ r(4), of ?t] r(2,3) s by auto
    have kp: "h_players h1 = finsert ?i (h_players h)" "h_sess h1 = fmupd ?i s (h_sess h)" "h_nextID h1 = ?i"
      "sends (h_conns h) (h_conns h1)"
      using h1(3) by (simp_all add: same_players_def k)
    have "open_conn (h_conns h1) (s_conn s)" using kp(4) c(1) s by (simp add: sends_def)
    from conn_enqueue_open [OF this] obtain cs where
      cs: "sendWelcome s ?t h1 = Some (h1\<lparr>h_conns := cs\<rparr>)" "sends (h_conns h1) cs"
      unfolding sendWelcome_def by blast
    have "sent h1 (h1\<lparr>h_conns := cs\<rparr>)"
      unfolding sent_def
      by (rule exI [of _ "h_calls h1"], rule exI [of _ "h_lastSnap h1"], rule exI [of _ cs]) (use cs(2) in simp)
    then have "hub_inv (h1\<lparr>h_conns := cs\<rparr>)" using h1(2) hub_inv_sent by blast
    from broadcast_inv [OF this] obtain h' where
      h': "broadcast (h1\<lparr>h_conns := cs\<rparr>) = Some h'" "sent (h1\<lparr>h_conns := cs\<rparr>) h'" "hub_inv h'" by blast
    have "handleJoin tbl c name h = Some (\<lparr>jr_sess = Some ?i, jr_errMsg = []\<rparr>, h')"
      using ok nm(1) r(1) h1(1) cs(1) h'(1) s by (simp add: handleJoin_def case_prod_unfold Let_def)
    moreover have "joined_rel c ?i s h h'"
      using sent_frame [OF h'(2)] kp r(4) s sends_trans [OF kp(4) sends_trans [OF cs(2)]]
      by (simp add: joined_rel_def)
    moreover have "?t = h_clk h (h_calls h)" by (simp add: now_ms_def g)
    ultimately have "admitted tbl c name ?i h h'"
      using sent_frame [OF h'(2)] h1(4-6) ok nm(1) s unfolding admitted_def by auto
    then show ?thesis using h'(3) \<open>handleJoin tbl c name h = _\<close> by auto
  qed
qed

section \<open>Shutdown\<close>

lemma close_players_total:
  assumes "\<And>i. i \<in> set is \<Longrightarrow> \<exists>s. player h i = Some s \<and> s_conn s |\<in>| fmdom (h_conns h)"
  shows "\<exists>cs. close_players is h = Some (h\<lparr>h_conns := cs\<rparr>) \<and> fmdom cs = fmdom (h_conns h)
     \<and> (\<forall>d. open_conn cs d \<longleftrightarrow> open_conn (h_conns h) d
          \<and> (\<forall>i\<in>set is. \<forall>s. player h i = Some s \<longrightarrow> s_conn s \<noteq> d))"
  using assms
proof (induction "is" arbitrary: h)
  case Nil
  have "close_players [] h = Some (h\<lparr>h_conns := h_conns h\<rparr>)" by simp
  then show ?case by (intro exI [of _ "h_conns h"]) simp
next
  case (Cons i "is")
  obtain s where s: "player h i = Some s" "s_conn s |\<in>| fmdom (h_conns h)" using Cons.prems [of i] by auto
  from conn_close_total [OF s(2)] obtain cs where
    cs: "conn_close (s_conn s) h = Some (h\<lparr>h_conns := cs\<rparr>)" "fmdom cs = fmdom (h_conns h)"
    "\<not> open_conn cs (s_conn s)" "\<And>d. d \<noteq> s_conn s \<Longrightarrow> open_conn cs d = open_conn (h_conns h) d" by blast
  let ?h = "h\<lparr>h_conns := cs\<rparr>"
  have pl: "player ?h j = player h j" for j by (simp add: player_def)
  have "\<exists>s. player ?h j = Some s \<and> s_conn s |\<in>| fmdom (h_conns ?h)" if "j \<in> set is" for j
    using Cons.prems [of j] that cs(2) pl by simp
  from Cons.IH [OF this] obtain ds where
    ds: "close_players is ?h = Some (h\<lparr>h_conns := ds\<rparr>)" "fmdom ds = fmdom (h_conns h)"
    "\<And>d. open_conn ds d \<longleftrightarrow> open_conn cs d \<and> (\<forall>i\<in>set is. \<forall>s. player h i = Some s \<longrightarrow> s_conn s \<noteq> d)"
    using cs(2) pl by auto
  have "close_players (i # is) h = Some (h\<lparr>h_conns := ds\<rparr>)" using s(1) cs(1) ds(1) by simp
  moreover have "open_conn ds d \<longleftrightarrow> open_conn (h_conns h) d
      \<and> (\<forall>j\<in>set (i # is). \<forall>u. player h j = Some u \<longrightarrow> s_conn u \<noteq> d)" for d
    using ds(3) [of d] cs(3) cs(4) [of d] s(1) by auto
  ultimately show ?case using ds(2) by blast
qed

theorem shutdown_total:
  assumes "hub_inv h"
  shows "\<exists>cs. shutdown h = Some (h\<lparr>h_conns := cs\<rparr>) \<and> fmdom cs = fmdom (h_conns h)
     \<and> (\<forall>i s. player h i = Some s \<longrightarrow> \<not> open_conn cs (s_conn s))"
proof -
  have reg: "reg_inv h" using assms by (simp add: hub_inv_def)
  have "\<exists>s. player h i = Some s \<and> s_conn s |\<in>| fmdom (h_conns h)"
    if "i \<in> set (sorted_list_of_fset (h_players h))" for i
    using player_Some [OF reg, of i] that open_conn_dom by auto
  from close_players_total [OF this] obtain cs where
    cs: "shutdown h = Some (h\<lparr>h_conns := cs\<rparr>)" "fmdom cs = fmdom (h_conns h)"
    "\<And>d. open_conn cs d \<longleftrightarrow> open_conn (h_conns h) d
        \<and> (\<forall>i\<in>set (sorted_list_of_fset (h_players h)). \<forall>s. player h i = Some s \<longrightarrow> s_conn s \<noteq> d)"
    unfolding shutdown_def by blast
  have "\<not> open_conn cs (s_conn s)" if p: "player h i = Some s" for i s
  proof -
    have "i |\<in>| h_players h" using p by (auto simp: player_def split: if_splits)
    then have "i \<in> set (sorted_list_of_fset (h_players h))" by simp
    with p cs(3) [of "s_conn s"] show ?thesis by blast
  qed
  with cs(1,2) show ?thesis by blast
qed

end
