(* ===== verification/System.thy ===== *)
theory System
  imports Hub_Inv
begin

text \<open>
  The running server (\<^verbatim>\<open>Run\<close>, \<^verbatim>\<open>submit\<close>, \<^verbatim>\<open>join\<close>, \<^verbatim>\<open>flap\<close>, \<^verbatim>\<open>leave\<close> of \<^verbatim>\<open>hub.go\<close>, \<^verbatim>\<open>readPump\<close>
  and \<^verbatim>\<open>writePump\<close> of \<^verbatim>\<open>client.go\<close>): one hub goroutine and two goroutines per connection that
  interleave arbitrarily and meet in the bounded event channel. A reader is the phase it has
  reached; a rule is one atomic action of one goroutine.
\<close>

section \<open>States\<close>

datatype phase =
  PConn            \<comment> \<open>connected, the first frame not read yet\<close>
| PJoining         \<comment> \<open>blocked in \<^verbatim>\<open>join\<close>\<close>
| PJoined u64      \<comment> \<open>reading frames as this session\<close>
| PRejected        \<comment> \<open>the join was refused\<close>
| PGone            \<comment> \<open>the deferred leave has run\<close>

record System =
  y_hub :: Hub
  y_events :: "event list"
  y_phase :: "(nat, phase) fmap"
  y_running :: bool

definition eventsCap :: nat where [simp]: "eventsCap = 128"

text \<open>
  \<^verbatim>\<open>submit\<close>: a full channel drops a flap at once and a join or leave after two seconds; a sender
  that is still waiting has not taken its step yet.
\<close>

definition submit :: "event \<Rightarrow> System \<Rightarrow> System" where
  "submit ev y = (if length (y_events y) < eventsCap then y\<lparr>y_events := y_events y @ [ev]\<rparr> else y)"

definition set_phase :: "nat \<Rightarrow> phase \<Rightarrow> System \<Rightarrow> System" where
  "set_phase c p y = y\<lparr>y_phase := fmupd c p (y_phase y)\<rparr>"

text \<open>The reader that sent a join continues with the reply.\<close>

definition after_reply :: "event \<Rightarrow> joinReply option \<Rightarrow> System \<Rightarrow> System" where
  "after_reply ev r y = (case (ev, r) of
       (EvJoin c _, Some r) \<Rightarrow> (case jr_sess r of
           Some i \<Rightarrow> if jr_errMsg r \<noteq> [] then set_phase c PRejected y else set_phase c (PJoined i) y
         | None \<Rightarrow> set_phase c PRejected y)
     | _ \<Rightarrow> y)"

definition init_system :: "Hub \<Rightarrow> System" where
  "init_system h = \<lparr>y_hub = h, y_events = [], y_phase = fmempty, y_running = True\<rparr>"

inductive sys_step :: "(nat \<Rightarrow> bool) \<Rightarrow> System \<Rightarrow> System \<Rightarrow> bool" for tbl where
  connect: "c |\<notin>| fmdom (y_phase y) \<Longrightarrow> c |\<notin>| fmdom (h_conns (y_hub y)) \<Longrightarrow>
    sys_step tbl y (set_phase c PConn
      (y\<lparr>y_hub := (y_hub y)\<lparr>h_conns := fmupd c newClientConn (h_conns (y_hub y))\<rparr>\<rparr>))"
| join: "fmlookup (y_phase y) c = Some PConn \<Longrightarrow>
    sys_step tbl y (set_phase c PJoining (submit (EvJoin c name) y))"
| no_join: "fmlookup (y_phase y) c = Some PConn \<Longrightarrow>
    sys_step tbl y (set_phase c PGone (submit (EvLeave (Some c) None) y))"
| flap: "fmlookup (y_phase y) c = Some (PJoined i) \<Longrightarrow>
    sys_step tbl y (submit (EvFlap (Some i)) y)"
| leave: "fmlookup (y_phase y) c = Some (PJoined i) \<Longrightarrow>
    sys_step tbl y (set_phase c PGone (submit (EvLeave (Some c) (Some i)) y))"
| rejected: "fmlookup (y_phase y) c = Some PRejected \<Longrightarrow>
    sys_step tbl y (set_phase c PGone (submit (EvLeave (Some c) None) y))"
| dispatch: "y_running y \<Longrightarrow> y_events y = ev # evs \<Longrightarrow> h_nextID (y_hub y) \<noteq> - 1 \<Longrightarrow>
    dispatch tbl ev (y_hub y) = Some (r, h') \<Longrightarrow>
    sys_step tbl y (after_reply ev r (y\<lparr>y_hub := h', y_events := evs\<rparr>))"
| tick: "y_running y \<Longrightarrow> tick (y_hub y) = Some h' \<Longrightarrow> sys_step tbl y (y\<lparr>y_hub := h'\<rparr>)"
| send_frame: "fmlookup (h_conns (y_hub y)) c = Some q \<Longrightarrow> write_next q = Some (w, q') \<Longrightarrow>
    sys_step tbl y (y\<lparr>y_hub := (y_hub y)\<lparr>h_conns := fmupd c q' (h_conns (y_hub y))\<rparr>\<rparr>)"
| stop: "y_running y \<Longrightarrow> shutdown (y_hub y) = Some h' \<Longrightarrow>
    sys_step tbl y (y\<lparr>y_hub := h', y_running := False\<rparr>)"

inductive reachable :: "(nat \<Rightarrow> bool) \<Rightarrow> Hub \<Rightarrow> System \<Rightarrow> bool" for tbl h where
  start: "reachable tbl h (init_system h)"
| step: "reachable tbl h y \<Longrightarrow> sys_step tbl y y' \<Longrightarrow> reachable tbl h y'"

section \<open>The invariant\<close>

fun ev_conn :: "event \<Rightarrow> nat option" where
  "ev_conn (EvJoin c _) = Some c"
| "ev_conn (EvFlap _) = None"
| "ev_conn (EvLeave c _) = c"

fun ev_ok :: "Hub \<Rightarrow> (nat, phase) fmap \<Rightarrow> event \<Rightarrow> bool" where
  "ev_ok h ph (EvJoin c _) \<longleftrightarrow> fmlookup ph c = Some PJoining"
| "ev_ok h ph (EvFlap so) \<longleftrightarrow> (\<exists>i. so = Some i \<and> i |\<in>| fmdom (h_sess h))"
| "ev_ok h ph (EvLeave co so) \<longleftrightarrow> (\<exists>c. co = Some c \<and> fmlookup ph c = Some PGone \<and> c |\<in>| fmdom (h_conns h)
     \<and> (case so of None \<Rightarrow> no_player_on h c
        | Some i \<Rightarrow> i |\<in>| h_players h \<and> (\<exists>s. fmlookup (h_sess h) i = Some s \<and> s_conn s = c)))"

definition phase_ok :: "Hub \<Rightarrow> nat \<Rightarrow> phase \<Rightarrow> bool" where
  "phase_ok h c p \<longleftrightarrow> c |\<in>| fmdom (h_conns h) \<and> (case p of
       PConn \<Rightarrow> open_conn (h_conns h) c \<and> no_player_on h c
     | PJoining \<Rightarrow> open_conn (h_conns h) c \<and> no_player_on h c
     | PJoined i \<Rightarrow> i |\<in>| h_players h \<and> (\<exists>s. fmlookup (h_sess h) i = Some s \<and> s_conn s = c)
     | PRejected \<Rightarrow> no_player_on h c
     | PGone \<Rightarrow> True)"

text \<open>What the readers and the queue rely on, apart from the hub's own invariant.\<close>

definition links_inv :: "Hub \<Rightarrow> event list \<Rightarrow> (nat, phase) fmap \<Rightarrow> bool" where
  "links_inv h evs ph \<longleftrightarrow> (\<forall>c p. fmlookup ph c = Some p \<longrightarrow> phase_ok h c p)
     \<and> list_all (ev_ok h ph) evs \<and> distinct (List.map_filter ev_conn evs)"

definition sys_inv :: "System \<Rightarrow> bool" where
  "sys_inv y \<longleftrightarrow> (y_running y \<longrightarrow> hub_inv (y_hub y) \<and> links_inv (y_hub y) (y_events y) (y_phase y))"

section \<open>Preservation\<close>

text \<open>A hub step that changes neither players nor the connections' addresses and openness.\<close>

definition keeps_links :: "Hub \<Rightarrow> Hub \<Rightarrow> bool" where
  "keeps_links h h' \<longleftrightarrow> h_players h' = h_players h \<and> fmdom (h_sess h') = fmdom (h_sess h)
     \<and> (\<forall>j. map_option s_conn (fmlookup (h_sess h') j) = map_option s_conn (fmlookup (h_sess h) j))
     \<and> fmdom (h_conns h) |\<subseteq>| fmdom (h_conns h')
     \<and> (\<forall>c. open_conn (h_conns h) c \<longrightarrow> open_conn (h_conns h') c)"

lemma map_option_conn: "(\<exists>s. m = Some s \<and> s_conn s = c) \<longleftrightarrow> map_option s_conn m = Some c"
  by auto

lemma no_player_on_alt:
  "no_player_on h c \<longleftrightarrow> (\<forall>i. i |\<in>| h_players h \<longrightarrow> map_option s_conn (fmlookup (h_sess h) i) \<noteq> Some c)"
  by (auto simp: no_player_on_def)

lemma keeps_links_facts:
  assumes "keeps_links h h'"
  shows "no_player_on h' c = no_player_on h c" "h_players h' = h_players h"
    "(\<exists>s. fmlookup (h_sess h') i = Some s \<and> s_conn s = c)
      \<longleftrightarrow> (\<exists>s. fmlookup (h_sess h) i = Some s \<and> s_conn s = c)"
    "fmdom (h_sess h') = fmdom (h_sess h)"
    "c |\<in>| fmdom (h_conns h) \<Longrightarrow> c |\<in>| fmdom (h_conns h')"
    "open_conn (h_conns h) c \<Longrightarrow> open_conn (h_conns h') c"
  using assms unfolding keeps_links_def no_player_on_alt map_option_conn by (simp_all, blast)

lemma keeps_links_ev_ok:
  assumes "keeps_links h h'" "ev_ok h ph e" shows "ev_ok h' ph e"
proof (cases e)
  case (EvLeave co so)
  with assms(2) obtain c where c: "co = Some c" "fmlookup ph c = Some PGone" "c |\<in>| fmdom (h_conns h)"
    "case so of None \<Rightarrow> no_player_on h c
       | Some i \<Rightarrow> i |\<in>| h_players h \<and> (\<exists>s. fmlookup (h_sess h) i = Some s \<and> s_conn s = c)" by auto
  note k = keeps_links_facts [OF assms(1)]
  from c(4) have "case so of None \<Rightarrow> no_player_on h' c
      | Some i \<Rightarrow> i |\<in>| h_players h' \<and> (\<exists>s. fmlookup (h_sess h') i = Some s \<and> s_conn s = c)"
    by (cases so) (simp_all only: k option.case)
  with c EvLeave k(5) show ?thesis by simp
qed (use assms keeps_links_facts(4) in auto)

lemma keeps_links_phase_ok:
  assumes "keeps_links h h'" "phase_ok h c p" shows "phase_ok h' c p"
proof -
  note k = keeps_links_facts [OF assms(1)]
  show ?thesis
    using assms(2) k(5,6) unfolding phase_ok_def k(1-3) by (cases p) simp_all
qed

lemma links_inv_keep:
  "keeps_links h h' \<Longrightarrow> links_inv h evs ph \<Longrightarrow> links_inv h' evs ph"
  unfolding links_inv_def list_all_iff using keeps_links_ev_ok keeps_links_phase_ok by blast

lemma keeps_links_same: "same_players h h' \<Longrightarrow> keeps_links h h'"
  by (simp add: same_players_def keeps_links_def sends_def)

lemma keeps_links_flap: "flap_rel i h h' \<Longrightarrow> keeps_links h h'"
proof -
  assume a: "flap_rel i h h'"
  have "map_option s_conn (fmlookup (h_sess h') j) = map_option s_conn (fmlookup (h_sess h) j)" for j
  proof (cases "fmlookup (h_sess h) j")
    case None
    then show ?thesis using flap_rel_sess [OF a, of j] by (cases "fmlookup (h_sess h') j") auto
  next
    case (Some s)
    then show ?thesis using flap_rel_sess_rev [OF a Some] by auto
  qed
  then show ?thesis using a unfolding keeps_links_def flap_rel_def by auto
qed

text \<open>Readers moving on.\<close>

lemma phase_ok_set:
  assumes "\<forall>c p. fmlookup ph c = Some p \<longrightarrow> phase_ok h c p" "phase_ok h c p"
  shows "\<forall>d q. fmlookup (fmupd c p ph) d = Some q \<longrightarrow> phase_ok h d q"
  using assms by auto

lemma ev_ok_set:
  assumes "ev_ok h ph e" "ev_conn e \<noteq> Some c"
  shows "ev_ok h (fmupd c p ph) e"
  using assms by (cases e) auto

lemma links_inv_set_phase:
  assumes "links_inv h evs ph" "phase_ok h c p" "c \<notin> set (List.map_filter ev_conn evs)"
  shows "links_inv h evs (fmupd c p ph)"
proof -
  have "ev_conn e \<noteq> Some c" if "e \<in> set evs" for e
    using assms(3) that by (force simp: List.map_filter_def)
  then show ?thesis
    using assms phase_ok_set [of ph h c p] ev_ok_set unfolding links_inv_def list_all_iff by blast
qed

text \<open>A reader in a phase that sends nothing has nothing in the queue.\<close>

lemma idle_conn:
  assumes "links_inv h evs ph" "fmlookup ph c = Some p" "p \<noteq> PJoining" "p \<noteq> PGone"
  shows "c \<notin> set (List.map_filter ev_conn evs)"
proof
  assume "c \<in> set (List.map_filter ev_conn evs)"
  then obtain e where e: "e \<in> set evs" "ev_conn e = Some c" by (auto simp: List.map_filter_def)
  then have "ev_ok h ph e" using assms(1) by (simp add: links_inv_def list_all_iff)
  with e(2) assms(2-4) show False by (cases e) auto
qed

lemma links_inv_submit:
  assumes l: "links_inv h evs ph" and p: "phase_ok h c p" and c: "c \<notin> set (List.map_filter ev_conn evs)"
    and e: "ev_conn e = Some c" "ev_ok h (fmupd c p ph) e"
  shows "links_inv h (if length evs < eventsCap then evs @ [e] else evs) (fmupd c p ph)"
  using links_inv_set_phase [OF l p c] c e by (auto simp: links_inv_def List.map_filter_def)

lemma links_inv_tl:
  assumes "links_inv h (e # evs) ph"
  shows "links_inv h evs ph" "ev_ok h ph e" "ev_conn e = Some c \<Longrightarrow> c \<notin> set (List.map_filter ev_conn evs)"
  using assms by (auto simp: links_inv_def List.map_filter_def split: if_splits)

text \<open>Closing one connection, whose player may leave.\<close>

lemma links_inv_left:
  assumes l: "links_inv h evs ph" and r: "left_rel c out h h'" and c: "c \<notin> set (List.map_filter ev_conn evs)"
    and p: "fmlookup ph c = Some p" "p = PGone \<or> p = PJoining"
    and out: "\<And>i. i |\<in>| out \<Longrightarrow> \<exists>s. fmlookup (h_sess h) i = Some s \<and> s_conn s = c"
    and np: "no_player_on h' c"
  shows "links_inv h' evs (fmupd c (if p = PGone then PGone else PRejected) ph)"
proof -
  let ?q = "if p = PGone then PGone else PRejected"
  note rr = r [unfolded left_rel_def]
  have np': "no_player_on h d \<Longrightarrow> no_player_on h' d" for d
    using rr unfolding no_player_on_def by (metis fminusD1)
  have keep: "i |\<in>| h_players h \<Longrightarrow> fmlookup (h_sess h) i = Some s \<Longrightarrow> s_conn s \<noteq> c \<Longrightarrow> i |\<in>| h_players h'" for i s
    using rr out [of i] by auto
  have "phase_ok h' d q" if d: "fmlookup ph d = Some q" "d \<noteq> c" for d q
  proof -
    have "phase_ok h d q" using l d unfolding links_inv_def by blast
    then show ?thesis
      using rr np' keep d(2) by (cases q) (auto simp: phase_ok_def)
  qed
  moreover have "phase_ok h' c ?q"
    using l p(1) rr np unfolding links_inv_def phase_ok_def by auto
  ultimately have ph: "\<forall>d q. fmlookup (fmupd c ?q ph) d = Some q \<longrightarrow> phase_ok h' d q"
    by (cases "p = PGone") simp_all
  have "ev_ok h' (fmupd c ?q ph) e" if e: "e \<in> set evs" for e
  proof -
    have ok: "ev_ok h ph e" using l e by (simp add: links_inv_def list_all_iff)
    have ne: "ev_conn e \<noteq> Some c" using c e by (force simp: List.map_filter_def)
    have "ev_ok h' ph e"
    proof (cases e)
      case (EvLeave co so)
      with ok obtain d where d: "co = Some d" "fmlookup ph d = Some PGone" "d |\<in>| fmdom (h_conns h)"
        "case so of None \<Rightarrow> no_player_on h d
         | Some i \<Rightarrow> i |\<in>| h_players h \<and> (\<exists>s. fmlookup (h_sess h) i = Some s \<and> s_conn s = d)" by auto
      have "d \<noteq> c" using ne EvLeave d(1) by simp
      then have "case so of None \<Rightarrow> no_player_on h' d
         | Some i \<Rightarrow> i |\<in>| h_players h' \<and> (\<exists>s. fmlookup (h_sess h') i = Some s \<and> s_conn s = d)"
        using d(4) np' [of d] keep rr by (cases so) auto
      with d EvLeave rr show ?thesis by simp
    qed (use ok rr in auto)
    then show ?thesis using ne by (rule ev_ok_set)
  qed
  with ph l show ?thesis by (simp add: links_inv_def list_all_iff)
qed

lemma links_inv_joined:
  assumes l: "links_inv h evs ph" and r: "joined_rel c i s h h'" and reg: "reg_inv h"
    and c: "c \<notin> set (List.map_filter ev_conn evs)" "fmlookup ph c = Some PJoining"
  shows "links_inv h' evs (fmupd c (PJoined i) ph)"
proof -
  note rr = r [unfolded joined_rel_def]
  have fresh: "fmlookup (h_sess h) i = None" using rr by auto
  have sess: "fmlookup (h_sess h') j = (if j = i then Some s else fmlookup (h_sess h) j)" for j
    using rr by simp
  have np: "no_player_on h d \<Longrightarrow> d \<noteq> c \<Longrightarrow> no_player_on h' d" for d
    using rr unfolding no_player_on_def by auto
  have dom: "fmdom (h_conns h') = fmdom (h_conns h)" "open_conn (h_conns h') d = open_conn (h_conns h) d" for d
    using rr by (simp_all add: sends_def)
  have keep: "j |\<in>| h_players h \<Longrightarrow> \<exists>u. fmlookup (h_sess h) j = Some u \<and> s_conn u = d \<Longrightarrow>
      j |\<in>| h_players h' \<and> (\<exists>u. fmlookup (h_sess h') j = Some u \<and> s_conn u = d)" for j d
    using rr fresh sess [of j] by auto
  have "phase_ok h' d q" if d: "fmlookup ph d = Some q" "d \<noteq> c" for d q
  proof -
    have ok: "phase_ok h d q" using l d(1) unfolding links_inv_def by blast
    show ?thesis
      using ok dom np [OF _ d(2)] keep [of _ d] unfolding phase_ok_def by (cases q) simp_all
  qed
  moreover have "phase_ok h' c (PJoined i)"
    using l c(2) rr dom sess [of i] unfolding links_inv_def phase_ok_def by auto
  ultimately have ph: "\<forall>d q. fmlookup (fmupd c (PJoined i) ph) d = Some q \<longrightarrow> phase_ok h' d q" by simp
  have "ev_ok h' (fmupd c (PJoined i) ph) e" if e: "e \<in> set evs" for e
  proof -
    have ok: "ev_ok h ph e" using l e by (simp add: links_inv_def list_all_iff)
    have ne: "ev_conn e \<noteq> Some c" using c(1) e by (force simp: List.map_filter_def)
    have "ev_ok h' ph e"
    proof (cases e)
      case (EvLeave co so)
      with ok obtain d where d: "co = Some d" "fmlookup ph d = Some PGone" "d |\<in>| fmdom (h_conns h)"
        "case so of None \<Rightarrow> no_player_on h d
         | Some i \<Rightarrow> i |\<in>| h_players h \<and> (\<exists>s. fmlookup (h_sess h) i = Some s \<and> s_conn s = d)" by auto
      have "d \<noteq> c" using ne EvLeave d(1) by simp
      then have "case so of None \<Rightarrow> no_player_on h' d
         | Some i \<Rightarrow> i |\<in>| h_players h' \<and> (\<exists>s. fmlookup (h_sess h') i = Some s \<and> s_conn s = d)"
        using d(4) np [of d] keep [of _ d] by (cases so) simp_all
      with d EvLeave dom show ?thesis by simp
    qed (use ok rr in auto)
    then show ?thesis using ne by (rule ev_ok_set)
  qed
  with ph l show ?thesis by (simp add: links_inv_def list_all_iff)
qed

text \<open>Dispatching the head of the queue never panics and keeps everything.\<close>

lemma dispatch_ok:
  assumes inv: "hub_inv h" and l: "links_inv h (e # evs) ph" and nid: "h_nextID h \<noteq> - 1"
  shows "\<exists>r h'. dispatch tbl e h = Some (r, h') \<and> hub_inv h'
    \<and> (\<exists>ph'. y_phase (after_reply e r \<lparr>y_hub = h', y_events = evs, y_phase = ph, y_running = b\<rparr>) = ph'
         \<and> links_inv h' evs ph')"
proof (cases e)
  case (EvJoin c name)
  note tl = links_inv_tl [OF l]
  have ph: "fmlookup ph c = Some PJoining" using tl(2) EvJoin by simp
  then have "phase_ok h c PJoining" using tl(1) unfolding links_inv_def by blast
  then have c: "open_conn (h_conns h) c" "no_player_on h c" by (simp_all add: phase_ok_def)
  have nin: "c \<notin> set (List.map_filter ev_conn evs)" by (rule tl(3)) (simp add: EvJoin)
  from handleJoin_inv [OF inv c nid, of tbl name] obtain r h' where
    h': "handleJoin tbl c name h = Some (r, h')" "hub_inv h'"
    "case jr_sess r of None \<Rightarrow> refused tbl c name (jr_errMsg r) h h'
     | Some i \<Rightarrow> jr_errMsg r = [] \<and> admitted tbl c name i h h'" by blast
  have run: "dispatch tbl e h = Some (Some r, h')" using h'(1) EvJoin by (simp add: dispatch_def)
  show ?thesis
  proof (cases "jr_sess r")
    case None
    then have lr: "left_rel c {||} h h'" using h'(3) by (simp add: refused_def)
    then have "no_player_on h' c" using c(2) by (simp add: left_rel_def no_player_on_def)
    from links_inv_left [OF tl(1) lr nin ph _ _ this]
    have "links_inv h' evs (fmupd c PRejected ph)" by simp
    then show ?thesis using run h'(2) None EvJoin by (simp add: after_reply_def set_phase_def)
  next
    case (Some i)
    then obtain s where "jr_errMsg r = []" "joined_rel c i s h h'" using h'(3) by (auto simp: admitted_def)
    moreover from links_inv_joined [OF tl(1) this(2) _ nin ph] inv
    have "links_inv h' evs (fmupd c (PJoined i) ph)" by (simp add: hub_inv_def)
    ultimately show ?thesis using run h'(2) Some EvJoin by (simp add: after_reply_def set_phase_def)
  qed
next
  case (EvFlap so)
  note tl = links_inv_tl [OF l]
  obtain i where i: "so = Some i" "i |\<in>| fmdom (h_sess h)" using tl(2) EvFlap by auto
  from handleFlap_inv [OF inv i(2)] obtain h' where
    h': "handleFlap (Some i) h = Some h'" "hub_inv h'" "flap_rel i h h'" by blast
  have "links_inv h' evs ph" using links_inv_keep [OF keeps_links_flap [OF h'(3)] tl(1)] .
  then show ?thesis using h' i EvFlap by (simp add: dispatch_def after_reply_def)
next
  case (EvLeave co so)
  note tl = links_inv_tl [OF l]
  obtain c where c: "co = Some c" "fmlookup ph c = Some PGone" "c |\<in>| fmdom (h_conns h)"
    "case so of None \<Rightarrow> no_player_on h c
     | Some i \<Rightarrow> i |\<in>| h_players h \<and> (\<exists>s. fmlookup (h_sess h) i = Some s \<and> s_conn s = c)"
    using tl(2) EvLeave by auto
  have nin: "c \<notin> set (List.map_filter ev_conn evs)" by (rule tl(3)) (simp add: EvLeave c)
  have same: "fmupd c PGone ph = ph" using c(2) by (intro fmap_ext) auto
  have "\<exists>h'. handleLeave co so h = Some h' \<and> hub_inv h' \<and> links_inv h' evs ph"
  proof (cases so)
    case None
    then have np: "no_player_on h c" using c(4) by simp
    from handleLeave_unjoined_inv [OF inv c(3) np] obtain h' where
      h': "handleLeave (Some c) None h = Some h'" "hub_inv h'" "left_rel c {||} h h'" by blast
    have "no_player_on h' c" using np h'(3) by (simp add: left_rel_def no_player_on_def)
    from links_inv_left [OF tl(1) h'(3) nin c(2) _ _ this] same have "links_inv h' evs ph" by simp
    then show ?thesis using h' None c(1) by blast
  next
    case (Some i)
    then obtain s where s: "i |\<in>| h_players h" "fmlookup (h_sess h) i = Some s" "s_conn s = c" using c(4) by auto
    from handleLeave_inv [OF inv s(1,2)] obtain h' where
      h': "handleLeave (Some c) (Some i) h = Some h'" "hub_inv h'" "left_rel c {|i|} h h'" using s(3) by blast
    have "no_player_on h' c"
      unfolding no_player_on_def
    proof (intro allI impI)
      fix j u assume j: "j |\<in>| h_players h'" "fmlookup (h_sess h') j = Some u"
      then have "j |\<in>| h_players h" "j \<noteq> i" "fmlookup (h_sess h) j = Some u"
        using h'(3) by (auto simp: left_rel_def)
      moreover have "reg_inv h" using inv by (simp add: hub_inv_def)
      ultimately show "s_conn u \<noteq> c" using s unfolding reg_inv_def by blast
    qed
    from links_inv_left [OF tl(1) h'(3) nin c(2) _ _ this] same s have "links_inv h' evs ph" by auto
    then show ?thesis using h' Some c(1) by blast
  qed
  then show ?thesis using EvLeave by (auto simp: dispatch_def after_reply_def)
qed

lemma hub_inv_conns:
  assumes "hub_inv h" "conns_inv cs" "\<And>c. open_conn (h_conns h) c \<Longrightarrow> open_conn cs c"
  shows "hub_inv (h\<lparr>h_conns := cs\<rparr>)"
proof -
  let ?h = "h\<lparr>h_conns := cs\<rparr>"
  have reg: "reg_inv h" using assms(1) by (simp add: hub_inv_def)
  have "fmlookup (h_names h) (s_Name s) = Some i \<and> open_conn cs (s_conn s)"
    if "i |\<in>| h_players h" "fmlookup (h_sess h) i = Some s" for i s
  proof -
    have "fmlookup (h_names h) (s_Name s) = Some i \<and> open_conn (h_conns h) (s_conn s)"
      using reg that unfolding reg_inv_def by blast
    with assms(3) show ?thesis by blast
  qed
  then have "reg_inv ?h" using reg by (simp add: reg_inv_def)
  moreover have "race_inv ?h = race_inv h" by (rule race_inv_cong) simp_all
  moreover have "mem_inv ?h = mem_inv h" by (rule mem_inv_cong) simp_all
  ultimately show ?thesis using assms(1,2) by (simp add: hub_inv_def)
qed

lemma no_player_fresh:
  assumes "hub_inv h" "c |\<notin>| fmdom (h_conns h)"
  shows "no_player_on h c"
  unfolding no_player_on_def
proof (intro allI impI)
  fix i s assume "i |\<in>| h_players h" "fmlookup (h_sess h) i = Some s"
  then have "open_conn (h_conns h) (s_conn s)" using assms(1) unfolding hub_inv_def reg_inv_def by blast
  then show "s_conn s \<noteq> c" using open_conn_dom assms(2) by blast
qed

lemma connect_ok:
  assumes "hub_inv h" "links_inv h evs ph" "c |\<notin>| fmdom ph" "c |\<notin>| fmdom (h_conns h)"
  defines "h' \<equiv> h\<lparr>h_conns := fmupd c newClientConn (h_conns h)\<rparr>"
  shows "hub_inv h'" "links_inv h' evs (fmupd c PConn ph)"
proof -
  have op: "open_conn (fmupd c newClientConn (h_conns h)) d \<longleftrightarrow> d = c \<or> open_conn (h_conns h) d" for d
    using assms(4) by (auto simp: open_conn_def newClientConn_def)
  have "conns_inv (fmupd c newClientConn (h_conns h))"
    using assms(1) by (auto simp: hub_inv_def conns_inv_def newClientConn_def)
  then show inv: "hub_inv h'" unfolding h'_def using assms(1) op by (intro hub_inv_conns) auto
  have "keeps_links h h'" using op by (auto simp: keeps_links_def h'_def)
  then have l: "links_inv h' evs ph" using assms(2) by (rule links_inv_keep)
  have "no_player_on h' c" using no_player_fresh [OF assms(1,4)] by (simp add: no_player_on_def h'_def)
  then have "phase_ok h' c PConn" using op by (simp add: phase_ok_def h'_def)
  moreover have "c \<notin> set (List.map_filter ev_conn evs)"
  proof
    assume "c \<in> set (List.map_filter ev_conn evs)"
    then obtain e where e: "e \<in> set evs" "ev_conn e = Some c" by (auto simp: List.map_filter_def)
    then have "ev_ok h ph e" using assms(2) by (simp add: links_inv_def list_all_iff)
    with e(2) assms(3) show False by (cases e) (auto dest: fmdomI)
  qed
  ultimately show "links_inv h' evs (fmupd c PConn ph)" using l by (intro links_inv_set_phase)
qed

lemma write_ok:
  assumes "hub_inv h" "links_inv h evs ph" "fmlookup (h_conns h) c = Some q" "write_next q = Some (w, q')"
  defines "h' \<equiv> h\<lparr>h_conns := fmupd c q' (h_conns h)\<rparr>"
  shows "hub_inv h'" "links_inv h' evs ph"
proof -
  have q: "c_closed q' = c_closed q" "length (c_send q') \<le> length (c_send q)"
    using assms(4) by (auto simp: write_next_def split: list.splits if_splits)
  have op: "open_conn (fmupd c q' (h_conns h)) d = open_conn (h_conns h) d" for d
    using assms(3) q(1) by (auto simp: open_conn_def)
  have "length (c_send q) \<le> sendQueueLen"
    using assms(1,3) unfolding hub_inv_def conns_inv_def by blast
  then have "conns_inv (fmupd c q' (h_conns h))"
    using assms(1) q(2) by (auto simp: hub_inv_def conns_inv_def)
  then show "hub_inv h'" unfolding h'_def using assms(1) op by (intro hub_inv_conns) auto
  have "keeps_links h h'" using op by (auto simp: keeps_links_def h'_def)
  then show "links_inv h' evs ph" using assms(2) by (rule links_inv_keep)
qed

text \<open>The readers' own steps.\<close>

lemma reader_ok:
  assumes l: "links_inv h evs ph" and p: "fmlookup ph c = Some p" "p \<noteq> PJoining" "p \<noteq> PGone"
    and q: "phase_ok h c q" and e: "ev_conn e = Some c" "ev_ok h (fmupd c q ph) e"
  shows "links_inv h (if length evs < eventsCap then evs @ [e] else evs) (fmupd c q ph)"
  using links_inv_submit [OF l q idle_conn [OF l p] e] .

lemma links_inv_flap:
  assumes l: "links_inv h evs ph" and p: "fmlookup ph c = Some (PJoined i)"
  shows "links_inv h (if length evs < eventsCap then evs @ [EvFlap (Some i)] else evs) ph"
proof -
  have "phase_ok h c (PJoined i)" using l p unfolding links_inv_def by blast
  then have "i |\<in>| fmdom (h_sess h)" by (auto simp: phase_ok_def dest: fmdomI)
  then show ?thesis using l by (auto simp: links_inv_def List.map_filter_def)
qed

lemma submit_frame [simp]:
  "y_hub (submit e y) = y_hub y" "y_phase (submit e y) = y_phase y" "y_running (submit e y) = y_running y"
  "y_events (submit e y) = (if length (y_events y) < eventsCap then y_events y @ [e] else y_events y)"
  by (simp_all add: submit_def)

lemma set_phase_frame [simp]:
  "y_hub (set_phase c p y) = y_hub y" "y_phase (set_phase c p y) = fmupd c p (y_phase y)"
  "y_running (set_phase c p y) = y_running y" "y_events (set_phase c p y) = y_events y"
  by (simp_all add: set_phase_def)

lemma after_reply_frame [simp]:
  "y_hub (after_reply e r y) = y_hub y" "y_running (after_reply e r y) = y_running y"
  "y_events (after_reply e r y) = y_events y"
  by (simp_all add: after_reply_def split: event.split option.split)

lemma after_reply_phase:
  "y_phase y = y_phase z \<Longrightarrow> y_phase (after_reply e r y) = y_phase (after_reply e r z)"
  by (simp add: after_reply_def split: event.split option.split)

theorem sys_step_inv:
  assumes "sys_step tbl y y'" "sys_inv y"
  shows "sys_inv y'"
  using assms
proof (induction rule: sys_step.induct)
  case (connect c y)
  then show ?case using connect_ok [of "y_hub y" "y_events y" "y_phase y" c] by (auto simp: sys_inv_def)
next
  case (join y c name)
  have "links_inv (y_hub y) (y_events y) (y_phase y) \<Longrightarrow> phase_ok (y_hub y) c PConn"
    using join(1) unfolding links_inv_def by blast
  then have q: "links_inv (y_hub y) (y_events y) (y_phase y) \<Longrightarrow> phase_ok (y_hub y) c PJoining"
    by (simp add: phase_ok_def)
  show ?case
    using join reader_ok [OF _ join(1) _ _ q, of _ "EvJoin c name"] by (simp add: sys_inv_def)
next
  case (no_join y c)
  have "links_inv (y_hub y) (y_events y) (y_phase y) \<Longrightarrow> phase_ok (y_hub y) c PConn"
    using no_join(1) unfolding links_inv_def by blast
  then have q: "links_inv (y_hub y) (y_events y) (y_phase y) \<Longrightarrow>
      phase_ok (y_hub y) c PGone \<and> no_player_on (y_hub y) c" by (simp add: phase_ok_def)
  show ?case
    using no_join reader_ok [OF _ no_join(1), of "y_hub y" "y_events y" PGone "EvLeave (Some c) None"] q
    by (auto simp: sys_inv_def phase_ok_def)
next
  case (flap y c i)
  then show ?case using links_inv_flap [OF _ flap(1)] by (simp add: sys_inv_def)
next
  case (leave y c i)
  have "links_inv (y_hub y) (y_events y) (y_phase y) \<Longrightarrow> phase_ok (y_hub y) c (PJoined i)"
    using leave(1) unfolding links_inv_def by blast
  then show ?case
    using leave reader_ok [OF _ leave(1), of "y_hub y" "y_events y" PGone "EvLeave (Some c) (Some i)"]
    by (auto simp: sys_inv_def phase_ok_def)
next
  case (rejected y c)
  have "links_inv (y_hub y) (y_events y) (y_phase y) \<Longrightarrow> phase_ok (y_hub y) c PRejected"
    using rejected(1) unfolding links_inv_def by blast
  then show ?case
    using rejected reader_ok [OF _ rejected(1), of "y_hub y" "y_events y" PGone "EvLeave (Some c) None"]
    by (auto simp: sys_inv_def phase_ok_def)
next
  case (dispatch y e evs r h')
  have inv: "hub_inv (y_hub y)" and l: "links_inv (y_hub y) (e # evs) (y_phase y)"
    using dispatch by (simp_all add: sys_inv_def)
  from dispatch_ok [OF inv l dispatch(3), of tbl True] dispatch(1,4) show ?case
    using after_reply_phase [of "y\<lparr>y_hub := h', y_events := evs\<rparr>"
      "\<lparr>y_hub = h', y_events = evs, y_phase = y_phase y, y_running = True\<rparr>" e r]
    by (simp add: sys_inv_def)
next
  case (tick y h')
  then have inv: "hub_inv (y_hub y)" "links_inv (y_hub y) (y_events y) (y_phase y)" by (simp_all add: sys_inv_def)
  from tick_inv [OF inv(1)] tick(2) have "hub_inv h'" "same_players (y_hub y) h'" by auto
  then show ?case using links_inv_keep [OF keeps_links_same inv(2)] by (simp add: sys_inv_def)
next
  case (send_frame y c q w q')
  then show ?case using write_ok [of "y_hub y" "y_events y" "y_phase y" c q w q'] by (simp add: sys_inv_def)
next
  case (stop y h')
  then show ?case by (simp add: sys_inv_def)
qed

text \<open>A hub that no one has joined, with a store of any content.\<close>

lemma NewHub_inv: "hub_inv (NewHub cfg store clk rng)"
  by (simp add: NewHub_def hub_inv_def reg_inv_def race_inv_def mem_inv_def conns_inv_def Let_def)

lemma NewHub_fields [simp]:
  "h_players (NewHub cfg store clk rng) = {||}" "h_conns (NewHub cfg store clk rng) = fmempty"
  by (simp_all add: NewHub_def Let_def)

theorem reachable_inv:
  "reachable tbl (NewHub cfg store clk rng) y \<Longrightarrow> sys_inv y"
proof (induction rule: reachable.induct)
  case start
  show ?case using NewHub_inv by (simp add: sys_inv_def init_system_def links_inv_def List.map_filter_def)
next
  case (step y y')
  then show ?case using sys_step_inv by blast
qed

theorem reachable_hub:
  assumes "reachable tbl (NewHub cfg store clk rng) y" "y_running y"
  shows "hub_inv (y_hub y)" "links_inv (y_hub y) (y_events y) (y_phase y)"
  using reachable_inv [OF assms(1)] assms(2) by (simp_all add: sys_inv_def)

end
