(* ===== verification/Client_Net.thy ===== *)
theory Client_Net
  imports Protocol Go_Text
begin

text \<open>
  \<^verbatim>\<open>internal/client/net.go\<close>, \<^verbatim>\<open>session.go\<close>, \<^verbatim>\<open>backoff.go\<close> and \<^verbatim>\<open>nameentry.go\<close>: the queues of one
  connection, the session identity, the reconnect pacing and the start-screen buffer. A buffered
  channel is the list of its elements; a \<^verbatim>\<open>select\<close> with a default is one atomic step.
\<close>

section \<open>Session\<close>

record Sess =
  se_id :: u64
  se_name :: string
  se_bird :: "u8 \<times> u8"
  se_spect :: bool

definition zero_sess :: Sess where
  "zero_sess = \<lparr>se_id = 0, se_name = [], se_bird = (0, 0), se_spect = False\<rparr>"

definition Sess_Set :: "u64 \<Rightarrow> string \<Rightarrow> u8 \<Rightarrow> u8 \<Rightarrow> bool \<Rightarrow> Sess \<Rightarrow> Sess" where
  "Sess_Set i name pal acc spect s = \<lparr>se_id = i, se_name = name, se_bird = (pal, acc), se_spect = spect\<rparr>"

definition Sess_Get :: "Sess \<Rightarrow> u64 \<times> u8 \<times> u8" where
  "Sess_Get s = (se_id s, se_bird s)"

section \<open>One connection\<close>

datatype net_error = NetLost string | ErrFatal string

record Net =
  nt_cmd :: "string list"
  nt_snap :: "Snapshot list"
  nt_err :: "net_error option"
  nt_ws_closed :: bool
  nt_closed :: bool

definition cmdCap :: nat where [simp]: "cmdCap = 8"

definition NewNet :: Net where
  "NewNet = \<lparr>nt_cmd = [], nt_snap = [], nt_err = None, nt_ws_closed = False, nt_closed = False\<rparr>"

definition flap_msg :: string where
  "flap_msg = [CHR ''{'', CHR 0x22, CHR ''t'', CHR 0x22, CHR '':'', CHR ''2'', CHR ''}'']"

definition Flap :: "Net \<Rightarrow> Net" where
  "Flap n = (if length (nt_cmd n) < cmdCap then n\<lparr>nt_cmd := nt_cmd n @ [flap_msg]\<rparr> else n)"

text \<open>\<^verbatim>\<open>pushSnap\<close>: three selects, between which the render loop may receive \<open>k\<close> and \<open>l\<close> snapshots.
  The result is what was received meanwhile, and the queue.\<close>

definition pushSnap :: "nat \<Rightarrow> nat \<Rightarrow> 's \<Rightarrow> 's list \<Rightarrow> 's list \<times> 's list" where
  "pushSnap k l s q =
     (if length q < RingLen then ([], q @ [s])
      else (let q1 = tl (drop k q); q2 = drop l q1
            in (take k q @ take l q1, if length q2 < RingLen then q2 @ [s] else q2)))"

definition net_fail :: "net_error \<Rightarrow> Net \<Rightarrow> Net" where
  "net_fail err n = n\<lparr>nt_err := (case nt_err n of None \<Rightarrow> Some err | Some e \<Rightarrow> Some e), nt_ws_closed := True\<rparr>"

text \<open>One message of \<^verbatim>\<open>readLoop\<close>: an error ends it, text that does not decode is skipped.\<close>

datatype incoming = ReadError string | Junk | Received frame

definition read_message :: "incoming \<Rightarrow> Net \<Rightarrow> Sess \<Rightarrow> Net \<times> Sess" where
  "read_message m n s = (case m of
       ReadError err \<Rightarrow> ((net_fail (NetLost err) n)\<lparr>nt_closed := True\<rparr>, s)
     | Junk \<Rightarrow> (n, s)
     | Received (FSnapshot snap) \<Rightarrow> (n\<lparr>nt_snap := snd (pushSnap 0 0 snap (nt_snap n))\<rparr>, s)
     | Received (FWelcome w) \<Rightarrow>
         (n, Sess_Set (wm_You w) (wm_Name w) (Palette (wm_Bird w)) (Accessory (wm_Bird w)) (wm_Spect w) s)
     | Received (FError msg) \<Rightarrow> (net_fail (ErrFatal msg) n, s))"

text \<open>One round of \<^verbatim>\<open>writeLoop\<close>: the next command and whether writing it failed.\<close>

definition write_command :: "string option \<Rightarrow> Net \<Rightarrow> (string \<times> Net) option" where
  "write_command failure n = (case nt_cmd n of
       [] \<Rightarrow> None
     | c # cs \<Rightarrow> Some (c, (case failure of
           None \<Rightarrow> n\<lparr>nt_cmd := cs\<rparr>
         | Some err \<Rightarrow> net_fail (NetLost err) (n\<lparr>nt_cmd := cs\<rparr>))))"

text \<open>However the selects and the receives interleave, the new snapshot ends up last and only the
  oldest one is dropped, and only when the queue was full.\<close>

lemma pushSnap_keeps:
  assumes "pushSnap k l s q = (out, q')" "length q \<le> RingLen"
  shows "length q' \<le> RingLen \<and> last q' = s \<and> (out @ q' = q @ [s] \<or> length q = RingLen \<and> (\<exists>a b. q = a @ [hd (drop k q)] @ b \<and> out @ q' = a @ b @ [s]))"
proof (cases "length q < RingLen")
  case True
  then show ?thesis using assms by (auto simp: pushSnap_def)
next
  case False
  then have full: "length q = RingLen" using assms(2) by simp
  have o: "out = take k q @ take l (tl (drop k q))" "q' = drop l (tl (drop k q)) @ [s]"
    using assms(1) False full by (auto simp: pushSnap_def Let_def)
  show ?thesis
  proof (cases "drop k q")
    case Nil
    then show ?thesis using o full by (auto simp: take_all)
  next
    case (Cons x r)
    then have "q = take k q @ [x] @ r" by (metis append.left_neutral append_Cons append_take_drop_id)
    moreover have "length r < RingLen" using Cons full by (metis length_drop length_Cons diff_le_self less_eq_Suc_le)
    ultimately show ?thesis using o full Cons by (intro conjI disjI2 exI [of _ "take k q"] exI [of _ r]) auto
  qed
qed

section \<open>Reconnect pacing\<close>

text \<open>Durations in nanoseconds.\<close>

definition retryBaseDelay :: int where [simp]: "retryBaseDelay = 500 * 10 ^ 6"
definition retryMaxDelay :: int where [simp]: "retryMaxDelay = 8 * 10 ^ 9"

fun retry_loop :: "nat \<Rightarrow> int \<Rightarrow> int" where
  "retry_loop 0 d = d"
| "retry_loop (Suc n) d = (let d = d * 2 in if d \<ge> retryMaxDelay then retryMaxDelay else retry_loop n d)"

definition retryDelay :: "int \<Rightarrow> int" where
  "retryDelay attempts = retry_loop (nat (attempts - 1)) retryBaseDelay"

lemma retry_loop_min: "0 < d \<Longrightarrow> d < retryMaxDelay \<Longrightarrow> retry_loop n d = min retryMaxDelay (d * 2 ^ n)"
proof (induction n arbitrary: d)
  case (Suc n)
  have one: "(1::int) \<le> 2 ^ n" by simp
  show ?case
  proof (cases "d * 2 \<ge> retryMaxDelay")
    case True
    moreover have "d * 2 \<le> d * 2 ^ Suc n" using mult_left_mono [OF one, of "d * 2"] Suc.prems(1) by (simp add: mult.assoc)
    ultimately have "retryMaxDelay \<le> d * 2 ^ Suc n" by linarith
    then show ?thesis using True by (simp only: retry_loop.simps Let_def if_True min_absorb1)
  next
    case False
    then show ?thesis using Suc by (simp add: mult.assoc)
  qed
qed simp

lemma retryDelay_min: "1 \<le> k \<Longrightarrow> retryDelay k = min retryMaxDelay (retryBaseDelay * 2 ^ nat (k - 1))"
  unfolding retryDelay_def by (rule retry_loop_min) simp_all

section \<open>The start screen\<close>

fun type_chars :: "nat list \<Rightarrow> nat list \<Rightarrow> nat list" where
  "type_chars buf [] = buf"
| "type_chars buf (r # rs) = (if length buf \<ge> MaxNameLen then buf else type_chars (buf @ [r]) rs)"

definition applyNameInput :: "(nat \<Rightarrow> bool) \<Rightarrow> nat list \<Rightarrow> nat list \<Rightarrow> bool \<Rightarrow> bool \<Rightarrow> nat list \<times> string" where
  "applyNameInput tbl buf chars backspace enter =
     (let buf = type_chars buf chars;
          buf = (if backspace \<and> length buf > 0 then take (length buf - 1) buf else buf)
      in if enter
         then (case ValidateName tbl (of_runes buf) of (name, ok) \<Rightarrow> if ok then ([], name) else (buf, []))
         else (buf, []))"

definition httpBase :: "string \<Rightarrow> string" where
  "httpBase wsURL =
     (let base = trim_suffix wsURL ''/ws'' in
      if has_prefix base ''wss://'' then ''https://'' @ trim_prefix base ''wss://''
      else if has_prefix base ''ws://'' then ''http://'' @ trim_prefix base ''ws://''
      else base)"

lemma type_chars_take: "type_chars buf cs = buf @ take (MaxNameLen - length buf) cs"
  by (induction buf cs rule: type_chars.induct) (auto simp: take_Cons' Suc_diff_Suc)

lemma applyNameInput_length:
  "length buf \<le> MaxNameLen \<Longrightarrow> applyNameInput tbl buf cs bs en = (buf', name) \<Longrightarrow> length buf' \<le> MaxNameLen"
  by (auto simp: applyNameInput_def type_chars_take Let_def split: if_splits prod.splits)

end
