(* ===== verification/Web_Server.thy ===== *)
theory Web_Server
  imports System Go_Http Client_Net
begin

text \<open>
  The web side of the game: the mux of \<^verbatim>\<open>internal/server/server.go\<close>, the main of \<^verbatim>\<open>cmd/server\<close> and
  the URLs the clients of \<^verbatim>\<open>cmd/wasm\<close> and \<^verbatim>\<open>cmd/native\<close> start with. Paths are cleaned already: the
  mux redirects any other path before a handler runs. The websocket upgrade and the file server are
  parameters; the embedded files are a map from names to contents, since the build makes some of them.
\<close>

section \<open>The mux\<close>

datatype web_route = WebSocket | LeaderboardAPI | Health | GameWasm | Assets

text \<open>A pattern for GET also takes HEAD; \<^verbatim>\<open>GET /\<close> takes every path no other pattern has. Where a
  path has patterns but the method has none, the mux answers 405.\<close>

definition web_route :: "string \<Rightarrow> string \<Rightarrow> web_route option" where
  "web_route method path =
     (if method \<noteq> ''GET'' \<and> method \<noteq> ''HEAD'' then None
      else Some (if path = ''/ws'' then WebSocket
        else if path = ''/api/leaderboard'' then LeaderboardAPI
        else if path = ''/healthz'' then Health
        else if path = ''/game.wasm'' then GameWasm
        else Assets))"

datatype web_body = Text string | Board int "TopEntry list"

datatype web_reply =
  Replied int headers web_body
| Upgraded
| UpgradeRefused
| Served raw_reply

text \<open>The text for a missing \<^verbatim>\<open>game.wasm\<close>; the dash is the three bytes of U+2014.\<close>

definition not_built :: string where
  "not_built = ''game.wasm not built yet '' @ encode_rune 8212 @ '' run `make assets` (or `make build`) first.'' @ [CHR 0x0A]"

text \<open>\<^verbatim>\<open>Handler\<close>: the reply and the server after it. \<open>c\<close> is the address of a new connection.\<close>

definition Handler :: "(http_request \<Rightarrow> bool) \<Rightarrow> (http_request \<Rightarrow> raw_reply) \<Rightarrow> (string, string) fmap \<Rightarrow> nat
    \<Rightarrow> string \<Rightarrow> http_request \<Rightarrow> System \<Rightarrow> web_reply \<times> System" where
  "Handler upgrade fileServer webfs c path r y = (case web_route (rq_Method r) path of
       None \<Rightarrow> (Replied 405 (hdr_set ''Allow'' ''GET, HEAD'' fmempty) (Text (''Method Not Allowed'' @ [CHR 0x0A])), y)
     | Some WebSocket \<Rightarrow>
         (if \<not> upgrade r then (UpgradeRefused, y)
          else (Upgraded, set_phase c PConn
            (y\<lparr>y_hub := (y_hub y)\<lparr>h_conns := fmupd c newClientConn (h_conns (y_hub y))\<rparr>\<rparr>)))
     | Some LeaderboardAPI \<Rightarrow>
         (let (t, es) = APIBytes (h_store (y_hub y));
              h = hdr_set ''Content-Type'' ''application/json'' fmempty;
              h = hdr_set ''Cache-Control'' ''no-store'' h
          in (Replied 200 h (Board t es), y))
     | Some Health \<Rightarrow> (Replied 200 fmempty (Text (''ok'' @ [CHR 0x0A])), y)
     | Some GameWasm \<Rightarrow>
         (if fmlookup webfs ''game.wasm'' = None
          then (Replied 404 (hdr_set ''Content-Type'' ''text/plain; charset=utf-8'' fmempty) (Text not_built), y)
          else (Served (fileServer r), y))
     | Some Assets \<Rightarrow> (Served (fileServer r), y))"

section \<open>The mains\<close>

text \<open>\<^verbatim>\<open>cmd/server\<close>: open the store, log an unusable file, start the hub. \<open>log\<close> is what is logged.\<close>

definition server_main :: "string \<Rightarrow> bool \<Rightarrow> (string, state_file) fmap \<Rightarrow> (nat \<Rightarrow> save_outcome) \<Rightarrow> (nat \<Rightarrow> int) \<Rightarrow> u64
    \<Rightarrow> string list \<times> System" where
  "server_main data readable fs env clk rng =
     (let (store, err) = OpenStore data readable fs env;
          log = (if err \<noteq> None then [''leaderboard state unusable, starting fresh''] else [])
      in (log, init_system (NewHub DefaultConfig store clk rng)))"

definition defaultServer :: string where
  "defaultServer = ''wss://birds.klimlive.de/ws''"

text \<open>The URL of \<^verbatim>\<open>cmd/wasm\<close>, from the protocol and the host of the page.\<close>

definition page_url :: "string \<Rightarrow> string \<Rightarrow> string" where
  "page_url protocol host = (let scheme = ''ws://''; scheme = (if protocol = ''https:'' then ''wss://'' else scheme)
     in scheme @ host @ ''/ws'')"

end
