(* ===== verification/Saved_File.thy ===== *)
theory Saved_File
  imports Prelude
begin

text \<open>
  The contract of a program state that is kept in a file by write-to-temporary-and-rename: the
  leaderboard of the game server and the conversation map of the OpenHands proxy. An operation
  either writes the whole new document or leaves the file as it was. The lemma proved from it is
  the crash safety of both programs.
\<close>

locale saved_file =
  fixes step :: "'op \<Rightarrow> 's \<Rightarrow> 's" and file_of :: "'s \<Rightarrow> 'f option" and doc :: "'s \<Rightarrow> 'f"
    and wrote :: "'op \<Rightarrow> 's \<Rightarrow> bool"
  assumes file_step: "file_of (step x s) = (if wrote x s then Some (doc (step x s)) else file_of s)"
begin

text \<open>After a run the file holds the document of some moment, and no later operation has written.\<close>

lemma file_run:
  assumes "file_of s = Some (doc s)"
  shows "\<exists>k\<le>length xs. file_of (fold step xs s) = Some (doc (fold step (take k xs) s))
    \<and> (\<forall>j. k \<le> j \<longrightarrow> j < length xs \<longrightarrow> \<not> wrote (xs ! j) (fold step (take j xs) s))"
proof (induction xs rule: rev_induct)
  case Nil
  then show ?case using assms by simp
next
  case (snoc x xs)
  show ?case
  proof (cases "wrote x (fold step xs s)")
    case True
    then show ?thesis by (intro exI [of _ "Suc (length xs)"]) (simp add: file_step)
  next
    case False
    from snoc obtain k where "k \<le> length xs" "file_of (fold step xs s) = Some (doc (fold step (take k xs) s))"
      "\<forall>j. k \<le> j \<longrightarrow> j < length xs \<longrightarrow> \<not> wrote (xs ! j) (fold step (take j xs) s)" by blast
    then show ?thesis using False
      by (intro exI [of _ k]) (auto simp: file_step nth_append less_Suc_eq)
  qed
qed

end

end
