(* ===== verification/Core_Spec.thy ===== *)
theory Core_Spec
  imports Store Conn Rng Saved_File
begin

text \<open>
  Properties of the leaf components of the server: the random streams, birds, names and themes,
  the store and the connection queue.
\<close>

section \<open>Random streams\<close>

text \<open>The race generator and the scenery's copy of it produce the same values and states from
  the same seed, and a stream does not repeat a value before all \<open>2\<^sup>6\<^sup>4\<close> words have appeared.\<close>

theorem rng_full_period:
  "mix_next = rng_next \<and> distinct (fst (rng_stream (2 ^ 64) s))
   \<and> set (fst (rng_stream (2 ^ 64) s)) = UNIV"
proof -
  have d: "distinct (fst (rng_stream (2 ^ 64) s))" by (rule rng_stream_distinct) simp
  have "card (set (fst (rng_stream (2 ^ 64) s))) = 2 ^ 64"
    unfolding distinct_card [OF d] by (rule rng_stream_length)
  also have "(2 :: nat) ^ 64 = card (UNIV :: u64 set)" by (simp add: card_word)
  finally have "set (fst (rng_stream (2 ^ 64) s)) = UNIV" by (intro card_subset_eq) auto
  moreover have "mix_next = rng_next" by (simp add: fun_eq_iff mix_next_def rng_next_def splitmix_gamma_def Let_def)
  ultimately show ?thesis using d by simp
qed

text \<open>a gap centre is drawn from the closed interval of the playfield, for every state of the
  generator.\<close>

theorem gap_in_playfield:
  "GapYMin \<le> fst (rng_range GapYMin GapYMax s) \<and> fst (rng_range GapYMin GapYMax s) \<le> GapYMax"
proof -
  have "f64_exact 168" "f64_exact 552" "f64_exact (552 - 168)"
    using f64_exact_numeral by (simp_all add: f64_exact_def rnd64_of_int [of 168, simplified]
      rnd64_of_int [of 552, simplified] rnd64_of_int [of 384, simplified])
  then show ?thesis using rng_range_bounds [of 168 552 s] by simp
qed

text \<open>The interval is closed at the top, although \<^verbatim>\<open>Range\<close> announces \<open>[min, max)\<close>: from this
  state the sum is rounded up to the maximum itself.\<close>

theorem range_reaches_max: "fst (rng_range GapYMin GapYMax 3558559446808474027) = GapYMax"
proof -
  have "drop_bit 11 (fst (rng_next 3558559446808474027)) = 9007199254740991"
    by (simp add: rng_next_def splitmix_gamma_def Let_def)
  then have f: "fst (rng_float 3558559446808474027) = 9007199254740991 / 2 ^ 53"
    using rng_float_exact(1) [of 3558559446808474027] by simp
  have d: "fsub 552 168 = 384" by code_simp
  have m: "fmul 384 (9007199254740991 / 2 ^ 53) = 384 - 1 / 2 ^ 44" by code_simp
  have a: "fadd 168 (384 - 1 / 2 ^ 44) = 552" by code_simp
  show ?thesis
    unfolding rng_range_def case_prod_unfold Let_def fst_conv f GapYMin_def GapYMax_def d m a ..
qed

section \<open>Birds, names and themes\<close>

lemma random_bird_loop_free:
  "k < n \<Longrightarrow> \<not> taken (fst (draw_bird next (((\<lambda>s. snd (draw_bird next s)) ^^ k) s))) \<Longrightarrow>
   \<not> taken (fst (random_bird_loop n next (Some taken) s))"
proof (induction n arbitrary: k s)
  case (Suc n)
  show ?case
  proof (cases k)
    case 0
    then show ?thesis using Suc.prems by (simp add: case_prod_unfold Let_def)
  next
    case (Suc m)
    then have "\<not> taken (fst (random_bird_loop n next (Some taken) (snd (draw_bird next s))))"
      using Suc.IH [of m "snd (draw_bird next s)"] Suc.prems unfolding Suc funpow_Suc_right by simp
    then show ?thesis by (simp add: case_prod_unfold Let_def)
  qed
qed simp

text \<open>A random bird is always valid, and nobody has taken it whenever one of the 32 draws finds a
  bird that nobody has.\<close>

theorem random_bird:
  assumes "k < 32" "\<not> taken (fst (draw_bird next (((\<lambda>s. snd (draw_bird next s)) ^^ k) s)))"
  shows "\<not> taken (fst (RandomBird next (Some taken) s)) \<and> bird_valid (fst (RandomBird next (Some taken) s))"
  using random_bird_loop_free [of k 32 taken "next" s] assms random_bird_loop_valid by (simp add: RandomBird_def)

theorem random_bird_witness:
  "Palette (fst (RandomBird (\<lambda>n. (n, n + 1)) (Some (\<lambda>b. Palette b = 0)) 0)) \<noteq> 0"
  using random_bird [of 1 "\<lambda>b. Palette b = 0" "\<lambda>n. (n, n + 1)" 0]
  by (simp add: draw_bird_def)

text \<open>The username rule: a name is accepted exactly when its trimmed runes are one to sixteen
  printable ones, and an accepted name is a fixed point, so the server accepts what the start
  screen submits without changing it.\<close>

theorem name_rule:
  assumes "snd (ValidateName tbl s)"
  shows "ValidateName tbl (fst (ValidateName tbl s)) = (fst (ValidateName tbl s), True)
    \<and> runes (fst (ValidateName tbl s)) = trim_spaces (runes s)
    \<and> 0 < length (trim_spaces (runes s)) \<and> length (trim_spaces (runes s)) \<le> MaxNameLen
    \<and> list_all (is_print tbl) (trim_spaces (runes s))"
proof -
  have "trim_spaces (runes s) \<noteq> []" "length (trim_spaces (runes s)) \<le> MaxNameLen"
    "list_all (is_print tbl) (trim_spaces (runes s))"
    using assms by (simp_all add: ValidateName_ok_iff Let_def)
  then show ?thesis using ValidateName_fixed [OF assms] runes_ValidateName [of tbl s] by simp
qed

lemma runes_padded: "runes '' ada'' = [32, 97, 100, 97]"
  by (simp add: decode_rune.simps byte_def)

theorem name_rule_witness:
  "ValidateName (\<lambda>_. False) (fst (ValidateName (\<lambda>_. False) '' ada'')) = (fst (ValidateName (\<lambda>_. False) '' ada''), True)"
proof -
  have "snd (ValidateName (\<lambda>_. False) '' ada'')"
    by (simp add: ValidateName_ok_iff runes_padded trim_spaces_def is_space_def is_print_def del: runes.simps)
  then show ?thesis using name_rule [of "\<lambda>_. False" "'' ada''"] by blast
qed

text \<open>The theme names round trip: exactly the four themes have names that parse, each to itself.\<close>

theorem theme_round_trip:
  "ThemeFromString s = (t, True) \<longleftrightarrow> theme_valid t \<and> s = theme_string t"
proof
  assume "theme_valid t \<and> s = theme_string t"
  then show "ThemeFromString s = (t, True)"
    using theme_valid_cases [of t] by (auto simp: theme_string_def ThemeFromString_def)
qed (auto simp: ThemeFromString_def theme_string_def theme_valid_def split: if_splits)

theorem theme_round_trip_witness: "ThemeFromString ''forest'' = (ThemeForest, True)"
  using theme_round_trip [of "''forest''" ThemeForest] by (simp add: theme_valid_def theme_string_def)

section \<open>The store\<close>

text \<open>The hub's two ways of changing the store, and a run of them.\<close>

datatype store_op = Remember string Bird | Record "RaceEntry list" Theme int

fun run_op :: "store_op \<Rightarrow> Store \<Rightarrow> Store" where
  "run_op (Remember n b) s = RememberBird n b s"
| "run_op (Record es theme t) s = RecordRace es theme t s"

definition run_ops :: "store_op list \<Rightarrow> Store \<Rightarrow> Store" where
  "run_ops ops s = fold run_op ops s"

lemma save_count: "st_saves (fst (save s)) = Suc (st_saves s)"
  by (simp add: save_def Let_def split: save_outcome.split)

text \<open>Each of them is one save of the new database.\<close>

lemma persist_file:
  "fmlookup (st_fs (persist s)) (st_path s)
     = (if st_env s (st_saves s) = Saves then Some (marshal_db (st_db s)) else fmlookup (st_fs s) (st_path s))"
  "st_saves (persist s) = Suc (st_saves s)"
  by (simp_all add: save_path_content save_ok_iff) (simp add: persist_def refreshAPI_def save_count)

lemma fold_record_env [simp]:
  "st_env (fold (record_entry th t) es s) = st_env s" "st_saves (fold (record_entry th t) es s) = st_saves s"
  by (induction es arbitrary: s) (simp_all add: record_entry_def)

lemma run_op_persist:
  "\<exists>t. run_op op s = persist t \<and> st_path t = st_path s \<and> st_fs t = st_fs s \<and> st_env t = st_env s
     \<and> st_saves t = st_saves s"
proof (cases op)
  case (Remember n b)
  then show ?thesis by (auto simp: RememberBird_def)
next
  case (Record es theme t)
  let ?s = "rebuildTop (fold (record_entry (theme_string theme) t) es s)"
  have "st_env ?s = st_env s" "st_saves ?s = st_saves s" by (simp_all add: rebuildTop_def)
  then show ?thesis using Record
    by (intro exI [of _ "?s\<lparr>st_db := (st_db ?s)\<lparr>db_Updated := t\<rparr>\<rparr>"]) (simp add: RecordRace_def Let_def)
qed

lemma run_op_file:
  "fmlookup (st_fs (run_op op s)) (st_path s)
     = (if st_env s (st_saves s) = Saves then Some (marshal_db (st_db (run_op op s))) else fmlookup (st_fs s) (st_path s))"
  "st_path (run_op op s) = st_path s" "st_env (run_op op s) = st_env s"
  "st_saves (run_op op s) = Suc (st_saves s)"
proof -
  from run_op_persist [of op s] obtain t where
    t: "run_op op s = persist t" "st_path t = st_path s" "st_fs t = st_fs s" "st_env t = st_env s"
      "st_saves t = st_saves s" by blast
  show "fmlookup (st_fs (run_op op s)) (st_path s)
     = (if st_env s (st_saves s) = Saves then Some (marshal_db (st_db (run_op op s))) else fmlookup (st_fs s) (st_path s))"
    using persist_file(1) [of t] t by simp
  show "st_path (run_op op s) = st_path s" "st_env (run_op op s) = st_env s"
    "st_saves (run_op op s) = Suc (st_saves s)"
    using t persist_file(2) [of t] by simp_all
qed

lemma run_ops_frame:
  "st_path (run_ops ops s) = st_path s" "st_env (run_ops ops s) = st_env s"
  "st_saves (run_ops ops s) = st_saves s + length ops"
  unfolding run_ops_def by (induction ops arbitrary: s) (simp_all add: run_op_file)

interpretation board: saved_file run_op "\<lambda>s. fmlookup (st_fs s) (st_path s)" "\<lambda>s. marshal_db (st_db s)"
  "\<lambda>op s. st_env s (st_saves s) = Saves"
  by unfold_locales (simp add: run_op_file)

text \<open>The state the file holds: that of the last save that succeeded.\<close>

lemma run_ops_file:
  assumes "fmlookup (st_fs s) (st_path s) = Some (marshal_db (st_db s))"
  shows "\<exists>k\<le>length ops. fmlookup (st_fs (run_ops ops s)) (st_path s) = Some (marshal_db (st_db (run_ops (take k ops) s)))
    \<and> (\<forall>j. k \<le> j \<longrightarrow> j < length ops \<longrightarrow> st_env s (st_saves s + j) \<noteq> Saves)"
  using board.file_run [OF assms, of ops]
  by (auto simp: run_ops_frame simp flip: run_ops_def)

text \<open>A crash never corrupts the state. However the saves of a run end, and whatever a failed write
  leaves behind, opening the file again gives exactly the database after some prefix of the
  operations, and every operation after that prefix is one whose save had failed.\<close>

theorem store_survives_crash:
  assumes "fmlookup (st_fs s) (st_path s) = Some (marshal_db (st_db s))"
  shows "\<exists>k\<le>length ops. OpenStore (st_path s) True (st_fs (run_ops ops s)) env
        = (refreshAPI \<lparr>st_path = st_path s, st_db = st_db (run_ops (take k ops) s), st_api = (0, []),
             st_fs = st_fs (run_ops ops s), st_env = env, st_saves = 0\<rparr>, None)
    \<and> (\<forall>j. k \<le> j \<longrightarrow> j < length ops \<longrightarrow> st_env s (st_saves s + j) \<noteq> Saves)"
proof -
  from run_ops_file [OF assms] obtain k where k: "k \<le> length ops"
    "fmlookup (st_fs (run_ops ops s)) (st_path s) = Some (marshal_db (st_db (run_ops (take k ops) s)))"
    "\<forall>j. k \<le> j \<longrightarrow> j < length ops \<longrightarrow> st_env s (st_saves s + j) \<noteq> Saves" by blast
  then show ?thesis by (intro exI [of _ k], cases "st_db (run_ops (take k ops) s)")
      (simp add: OpenStore_def marshal_db_def)
qed

text \<open>A store whose second save fails while it writes the temporary file.\<close>

definition shaky_store :: Store where
  "shaky_store = fst (OpenStore ''s.json'' True (fmupd ''s.json'' (marshal_db empty_db) fmempty)
     (\<lambda>n. if n = 1 then WriteFails (Some FileJunk) else Saves))"

lemma shaky_store_file: "fmlookup (st_fs shaky_store) (st_path shaky_store) = Some (marshal_db (st_db shaky_store))"
  by (simp add: shaky_store_def OpenStore_def refreshAPI_def marshal_db_def empty_db_def)

theorem store_survives_crash_witness:
  "snd (OpenStore (st_path shaky_store) True
     (st_fs (run_ops [Remember ''ada'' \<lparr>Palette = 1, Accessory = 2\<rparr>, Record [] 0 5] shaky_store)) (\<lambda>_. Saves)) = None"
  using store_survives_crash [OF shaky_store_file, of
      "[Remember ''ada'' \<lparr>Palette = 1, Accessory = 2\<rparr>, Record [] 0 5]" "\<lambda>_. Saves"]
  by (elim exE conjE) simp

text \<open>C29: the published leaderboard. After a race the list is the unique one that holds the best runs of
  all players, best first with ties by name, at most \<^verbatim>\<open>MaxTopEntries\<close> long, whatever order the map of
  players is visited in, and it is what the API serves.\<close>

theorem leaderboard_published:
  assumes "s' = RecordRace es theme t s" "m = db_Players (st_db s')"
  shows "top_spec m (db_Top (st_db s')) \<and> (\<forall>l. top_spec m l \<longrightarrow> l = db_Top (st_db s'))
    \<and> (\<forall>ps. enumerates ps m \<longrightarrow> rebuild_from ps = db_Top (st_db s'))
    \<and> APIBytes s' = (t, db_Top (st_db s'))"
proof -
  have top: "db_Top (st_db s') = rebuild_from (sorted_list_of_fmap m)"
    unfolding assms by (rule RecordRace_top)
  have "rebuild_from ps = db_Top (st_db s')" if "enumerates ps m" for ps
    unfolding top by (rule rebuild_enum_indep_lemma [OF that enumerates_sorted])
  moreover have "top_spec m (db_Top (st_db s'))" unfolding top by (rule rebuild_top_spec [OF enumerates_sorted])
  moreover have "APIBytes s' = (t, db_Top (st_db s'))"
    by (simp add: assms APIBytes_def RecordRace_def Let_def)
  ultimately show ?thesis using top_spec_unique by blast
qed

theorem leaderboard_published_witness:
  "APIBytes (RecordRace [\<lparr>re_Name = ''ada'', re_Score = 3, re_Rank = 1, re_Bird = \<lparr>Palette = 1, Accessory = 2\<rparr>\<rparr>] 2 9 shaky_store)
   = (9, [\<lparr>te_Name = ''ada'', te_Score = 3, te_Theme = ''forest'', te_At = 9\<rparr>])"
proof -
  let ?e = "\<lparr>re_Name = ''ada'', re_Score = 3, re_Rank = 1, re_Bird = \<lparr>Palette = 1, Accessory = 2\<rparr>\<rparr>"
  let ?s' = "RecordRace [?e] 2 9 shaky_store"
  let ?p = "\<lparr>pl_Best = 3, pl_BestTheme = ''forest'', pl_BestAt = 9, pl_Races = 1, pl_Wins = 1,
     pl_Bird = \<lparr>Palette = 1, Accessory = 2\<rparr>\<rparr>"
  have m: "db_Players (st_db ?s') = fmupd ''ada'' ?p fmempty"
    by (simp add: RecordRace_players record_entry_def fold_entry_def theme_string_def zero_stat_def
        shaky_store_def OpenStore_def refreshAPI_def marshal_db_def empty_db_def)
  have "enumerates [(''ada'', ?p)] (db_Players (st_db ?s'))"
    unfolding m enumerates_def by (simp add: fun_eq_iff)
  then have "rebuild_from [(''ada'', ?p)] = db_Top (st_db ?s')"
    and "APIBytes ?s' = (9, db_Top (st_db ?s'))"
    using leaderboard_published [OF refl refl] by blast+
  moreover have "rebuild_from [(''ada'', ?p)] = [\<lparr>te_Name = ''ada'', te_Score = 3, te_Theme = ''forest'', te_At = 9\<rparr>]"
    by (simp add: rebuild_from_def sort_slice_def top_entry_def)
  ultimately show ?thesis by simp
qed

text \<open>What a race adds to the players: each finisher one race, a win for rank 1 and the better of
  both scores, with the theme and time of the run kept exactly when it is a new best; everybody
  else is untouched.\<close>

theorem race_recorded:
  assumes "distinct (map re_Name es)" "m = db_Players (st_db s)" "m' = db_Players (st_db (RecordRace es theme t s))"
  shows "(\<forall>e\<in>set es. (let p = fm_get zero_stat m (re_Name e); p' = fm_get zero_stat m' (re_Name e) in
        re_Name e |\<in>| fmdom m' \<and> pl_Races p' = pl_Races p + 1 \<and> pl_Wins p' = pl_Wins p + (if re_Rank e = 1 then 1 else 0)
      \<and> pl_Best p' = max (pl_Best p) (re_Score e) \<and> pl_Bird p' = re_Bird e
      \<and> (pl_BestTheme p', pl_BestAt p')
          = (if re_Score e > pl_Best p then (theme_string theme, t) else (pl_BestTheme p, pl_BestAt p))))
    \<and> (\<forall>n. n \<notin> re_Name ` set es \<longrightarrow> fmlookup m' n = fmlookup m n)"
proof -
  have look: "fmlookup m' n = (case map_of (map (\<lambda>e. (re_Name e, e)) es) n of
        None \<Rightarrow> fmlookup m n
      | Some e \<Rightarrow> Some (fold_entry (theme_string theme) t e (fm_get zero_stat m n)))" for n
    unfolding assms(2,3) RecordRace_players by (rule record_fold_lookup [OF assms(1)])
  have "fmlookup m' (re_Name e) = Some (fold_entry (theme_string theme) t e (fm_get zero_stat m (re_Name e)))"
    if "e \<in> set es" for e
  proof -
    have "map_of (map (\<lambda>e. (re_Name e, e)) es) (re_Name e) = Some e"
      using that assms(1) by (intro map_of_is_SomeI) (auto simp: comp_def)
    then show ?thesis unfolding look by simp
  qed
  moreover have "fmlookup m' n = fmlookup m n" if "n \<notin> re_Name ` set es" for n
  proof -
    have "map_of (map (\<lambda>e. (re_Name e, e)) es) n = None"
      using that by (auto simp: map_of_eq_None_iff)
    then show ?thesis unfolding look by simp
  qed
  ultimately show ?thesis
    by (auto simp: Let_def fm_get_def fold_entry_stats fmdom_notI fmlookup_dom_iff)
      (auto simp: fold_entry_def Let_def)
qed

theorem race_recorded_witness:
  "pl_Wins (fm_get zero_stat (db_Players (st_db (RecordRace
     [\<lparr>re_Name = ''ada'', re_Score = 3, re_Rank = 1, re_Bird = \<lparr>Palette = 1, Accessory = 2\<rparr>\<rparr>] 2 9 shaky_store))) ''ada'') = 1"
  using race_recorded [of "[\<lparr>re_Name = ''ada'', re_Score = 3, re_Rank = 1, re_Bird = \<lparr>Palette = 1, Accessory = 2\<rparr>\<rparr>]"
      _ shaky_store, OF _ refl refl]
  by (simp add: Let_def shaky_store_def OpenStore_def refreshAPI_def marshal_db_def empty_db_def zero_stat_def)

section \<open>The connection queue\<close>

fun enqueue_all :: "frame list \<Rightarrow> Conn \<Rightarrow> Conn option" where
  "enqueue_all [] c = Some c"
| "enqueue_all (f # fs) c = Option.bind (enqueue f c) (enqueue_all fs)"

lemma enqueue_all_conn: "enqueue_all fs c = conn.enq_all fs c"
proof (induction fs arbitrary: c)
  case (Cons f fs)
  then show ?case by (cases "enqueue f c") auto
qed simp

text \<open>A stalled client. A burst of any length to an open queue never blocks or fails, and of everything
  queued exactly the newest \<^verbatim>\<open>sendQueueLen\<close> frames survive, in order.\<close>

theorem burst_keeps_newest:
  assumes "\<not> c_closed c" "length (c_send c) \<le> sendQueueLen"
  shows "\<exists>c'. enqueue_all fs c = Some c' \<and> \<not> c_closed c'
    \<and> c_send c' = drop (length (c_send c) + length fs - sendQueueLen) (c_send c @ fs)"
  unfolding enqueue_all_conn by (rule conn.enq_all_newest [OF assms])

theorem burst_keeps_newest_witness:
  "\<exists>c'. enqueue_all (replicate 70 (FError ''a'') @ [FError ''b'']) newClientConn = Some c'
     \<and> length (c_send c') = 64 \<and> last (c_send c') = FError ''b''"
  using burst_keeps_newest [of newClientConn "replicate 70 (FError ''a'') @ [FError ''b'']"]
  by (auto simp: newClientConn_def)

end
