(* ===== verification/Main_Spec.thy ===== *)
theory Main_Spec
  imports Blog_Main Blog_Spec Web_Server Core_Spec
begin

text \<open>
  The properties of the commands: the blog's synchronisation as a whole, the game server restarted on
  its file and answering requests, and the URLs its clients derive.
\<close>

section \<open>The blog\<close>

text \<open>A status sent by a client.\<close>

definition status_of :: "mastodon \<Rightarrow> http_request \<Rightarrow> bool" where
  "status_of m q \<longleftrightarrow> (\<exists>t. q = status_request t ''public'' m)"

lemma syncPost_client:
  "\<exists>res b' qs. syncPost yaml base path b = Some (res, b') \<and> same_client (bl_api b) (bl_api b')
     \<and> posted b' = posted b @ qs \<and> length qs \<le> 1 \<and> list_all (status_of (bl_api b)) qs"
proof -
  have quiet: ?thesis if "syncPost yaml base path b = Some (r, b)" for r
    using that by (intro exI [of _ r] exI [of _ b] exI [of _ "[]"]) (simp add: same_client_def)
  show ?thesis
  proof (cases "\<exists>r. syncPost yaml base path b = Some (r, b)")
    case True
    then show ?thesis using quiet by blast
  next
    case False
    then obtain fm where "syncPost yaml base path b = announce path (post_url base path) fm b"
      by (auto simp: syncPost_def split: option.splits sum.splits if_splits)
    moreover obtain res b' where "announce path (post_url base path) fm b = Some (res, b')"
      "same_client (bl_api b) (bl_api b')"
      "posted b' = posted b \<or> (\<exists>t. posted b' = posted b @ [status_request t ''public'' (bl_api b)])"
      using announce_cases [of path "post_url base path" fm b] by blast
    moreover have "posted b' = posted b @ [] \<or> (\<exists>q. posted b' = posted b @ [q] \<and> status_of (bl_api b) q)"
      using calculation(4) by (auto simp: status_of_def)
    ultimately show ?thesis by (elim disjE exE conjE) fastforce+
  qed
qed

lemma status_of_cong: "same_client m m' \<Longrightarrow> status_of m' = status_of m"
  by (simp add: status_of_def status_request_cong fun_eq_iff)

lemma sync_entries_client:
  "\<exists>b' qs. sync_entries yaml base dir es b = Some b' \<and> same_client (bl_api b) (bl_api b')
     \<and> posted b' = posted b @ qs \<and> length qs \<le> length es \<and> list_all (status_of (bl_api b)) qs"
proof (induction es arbitrary: b)
  case (Cons e es)
  show ?case
  proof (cases "post_path dir (bl_fs b) e")
    case None
    then show ?thesis using Cons [of b] by (auto intro: le_SucI)
  next
    case (Some path)
    obtain res b1 qs1 where s: "syncPost yaml base path b = Some (res, b1)" "same_client (bl_api b) (bl_api b1)"
      "posted b1 = posted b @ qs1" "length qs1 \<le> 1" "list_all (status_of (bl_api b)) qs1" using syncPost_client by blast
    obtain b' qs where r: "sync_entries yaml base dir es b1 = Some b'" "same_client (bl_api b1) (bl_api b')"
      "posted b' = posted b1 @ qs" "length qs \<le> length es" "list_all (status_of (bl_api b1)) qs" using Cons by blast
    show ?thesis
      using Some s r same_client_trans [OF s(2) r(2)] status_of_cong [OF s(2)]
      by (intro exI [of _ b'] exI [of _ "qs1 @ qs"]) simp
  qed
qed (auto simp: same_client_def)

text \<open>C39: the whole synchronisation always completes. It sends at most one status per entry of the posts
  directory, all of them to the configured instance under the configured token, and without one of the
  two required variables it ends at once, with nothing sent and no file changed.\<close>

theorem sync_command:
  "\<exists>r b' qs. sync_main env yaml readdir b = Some (r, b') \<and> posted b' = posted b @ qs
    \<and> length qs \<le> (case readdir (path_join (envOr env ''CONTENT_DIR'' ''hugo/content'') ''posts'') of Inl _ \<Rightarrow> 0 | Inr es \<Rightarrow> length es)
    \<and> list_all (\<lambda>q. rq_Method q = ''POST'' \<and> rq_URL q = env ''MASTODON_INSTANCE_URL'' @ ''/api/v1/statuses''
         \<and> hdr_get (rq_Header q) ''Authorization'' = ''Bearer '' @ env ''MASTODON_ACCESS_TOKEN'') qs
    \<and> (env ''MASTODON_INSTANCE_URL'' = [] \<or> env ''MASTODON_ACCESS_TOKEN'' = [] \<longrightarrow> (\<exists>err. r = Inl err) \<and> b' = b)"
proof (cases "env ''MASTODON_INSTANCE_URL'' = [] \<or> env ''MASTODON_ACCESS_TOKEN'' = []")
  case True
  then obtain err where "sync_main env yaml readdir b = Some (Inl err, b)"
    by (cases "env ''MASTODON_INSTANCE_URL'' = []") (simp_all add: sync_main_def requireEnv_def Let_def)
  then show ?thesis by (intro exI [of _ "Inl err"] exI [of _ b] exI [of _ "[]"]) simp
next
  case False
  define url token where "url = env ''MASTODON_INSTANCE_URL''" and "token = env ''MASTODON_ACCESS_TOKEN''"
  define m where "m = NewClient url token (bl_api b)"
  define dir where "dir = path_join (envOr env ''CONTENT_DIR'' ''hugo/content'') ''posts''"
  define base where "base = envOr env ''BLOG_BASE_URL'' ''https://blog.klimlive.de''"
  have main: "sync_main env yaml readdir b = map_option (\<lambda>(r, b). (case r of
       Inl err \<Rightarrow> (Inl (''sync failed: '' @ err), b) | Inr _ \<Rightarrow> (Inr ''sync complete'', b)))
       (case readdir dir of Inl err \<Rightarrow> Some (Inl (''read posts dir: '' @ err), b\<lparr>bl_api := m\<rparr>)
        | Inr es \<Rightarrow> do { b \<leftarrow> sync_entries yaml base dir es (b\<lparr>bl_api := m\<rparr>); Some (Inr (), b) })"
    using False unfolding m_def url_def token_def dir_def base_def by (simp add: sync_main_def requireEnv_def Let_def Sync_def)
  have sent: "posted (b\<lparr>bl_api := m\<rparr>) = posted b" by (simp add: m_def NewClient_def post_requests_def)
  have request: "rq_Method q = ''POST'' \<and> rq_URL q = url @ ''/api/v1/statuses''
      \<and> hdr_get (rq_Header q) ''Authorization'' = ''Bearer '' @ token" if "status_of m q" for q
    using that by (auto simp: status_of_def status_request_def api_request_def m_def NewClient_def)
  show ?thesis
  proof (cases "readdir dir")
    case (Inl err)
    then show ?thesis using False main sent by (auto simp: dir_def)
  next
    case (Inr es)
    obtain b' qs where "sync_entries yaml base dir es (b\<lparr>bl_api := m\<rparr>) = Some b'"
      "posted b' = posted (b\<lparr>bl_api := m\<rparr>) @ qs" "length qs \<le> length es" "list_all (status_of m) qs"
      using sync_entries_client [of yaml base dir es "b\<lparr>bl_api := m\<rparr>"] by auto
    then show ?thesis using False main sent Inr request
      by (intro exI [of _ "Inr ''sync complete''"] exI [of _ b'] exI [of _ qs])
        (auto simp: list_all_iff url_def token_def dir_def)
  qed
qed

theorem sync_command_witness:
  "\<exists>r b' qs. sync_main (\<lambda>_. []) sample_yaml (\<lambda>_. Inr []) (sample_blog (placeholder [])) = Some (Inl r, b') \<and> b' = sample_blog (placeholder [])"
  using sync_command [of "\<lambda>_. []" sample_yaml "\<lambda>_. Inr []" "sample_blog (placeholder [])"] by auto

section \<open>The game server\<close>

definition board_headers :: headers where
  "board_headers = hdr_set ''Cache-Control'' ''no-store'' (hdr_set ''Content-Type'' ''application/json'' fmempty)"


definition get_request :: "string \<Rightarrow> http_request" where
  "get_request url = \<lparr>rq_Method = ''GET'', rq_URL = url, rq_Header = fmempty, rq_Body = []\<rparr>"


text \<open>Requests leave the race alone. A request is an action of the running server at most when it opens a
  websocket, and any other leaves the server as it is; methods other than GET and HEAD are refused.\<close>

theorem web_requests_safe:
  assumes "reachable tbl h y" "c |\<notin>| fmdom (y_phase y)" "c |\<notin>| fmdom (h_conns (y_hub y))"
  shows "reachable tbl h (snd (Handler upgrade files webfs c path r y))
    \<and> (web_route (rq_Method r) path \<noteq> Some WebSocket \<longrightarrow> snd (Handler upgrade files webfs c path r y) = y)
    \<and> (rq_Method r \<notin> {''GET'', ''HEAD''} \<longrightarrow> (\<exists>h t. fst (Handler upgrade files webfs c path r y) = Replied 405 h t))"
proof -
  have "sys_step tbl y (set_phase c PConn (y\<lparr>y_hub := (y_hub y)\<lparr>h_conns := fmupd c newClientConn (h_conns (y_hub y))\<rparr>\<rparr>))"
    by (rule sys_step.connect) (use assms in simp_all)
  note connected = reachable.step [OF assms(1) this]
  have refused: "rq_Method r \<notin> {''GET'', ''HEAD''} \<longrightarrow> web_route (rq_Method r) path = None" by (simp add: web_route_def)
  show ?thesis
  proof (cases "web_route (rq_Method r) path")
    case None
    then show ?thesis using assms(1) by (simp add: Handler_def)
  next
    case (Some route)
    then show ?thesis using assms(1) connected refused
      by (cases route) (simp_all add: Handler_def split_beta Let_def)
  qed
qed

section \<open>URLs\<close>

text \<open>The URL a page gives its client and the site the client reads the leaderboard from fit together:
  the base is the origin of the page, and the desktop client's is the public site.\<close>

theorem page_urls:
  assumes "protocol \<in> {''http:'', ''https:''}"
  shows "httpBase (page_url protocol host) = protocol @ ''//'' @ host"
    and "httpBase defaultServer = ''https://birds.klimlive.de''"
proof -
  have "trim_suffix (''ws://'' @ host @ ''/ws'') ''/ws'' = ''ws://'' @ host"
    "trim_suffix (''wss://'' @ host @ ''/ws'') ''/ws'' = ''wss://'' @ host"
    using trim_suffix_append [of "''ws://'' @ host" "''/ws''"] trim_suffix_append [of "''wss://'' @ host" "''/ws''"] by simp_all
  then show "httpBase (page_url protocol host) = protocol @ ''//'' @ host"
    using assms by (auto simp: httpBase_def page_url_def Let_def has_prefix_def trim_prefix_def)
  show "httpBase defaultServer = ''https://birds.klimlive.de''" unfolding httpBase_def defaultServer_def by code_simp
qed

end
