(* ===== verification/Client_Clock.thy ===== *)
theory Client_Clock
  imports Protocol
begin

text \<open>
  \<^verbatim>\<open>internal/client/clock.go\<close>: the client's estimate of the server clock, an exponential average of
  the offset between the two clocks with jump rejection. Readings of the local clock are arguments.
\<close>

record Clock =
  ck_offset :: f64
  ck_have :: bool
  ck_jumps :: int

definition emaAlpha :: f64 where "emaAlpha = rnd64 (2 / 10)"
definition jumpRejectMs :: f64 where [simp]: "jumpRejectMs = 250"
definition jumpsBeforeResync :: int where [simp]: "jumpsBeforeResync = 30"

definition NewClock :: Clock where
  "NewClock = \<lparr>ck_offset = 0, ck_have = False, ck_jumps = 0\<rparr>"

text \<open>The offset a sample observes.\<close>

definition observed :: "int \<Rightarrow> int \<Rightarrow> f64" where
  "observed serverNow localNow = rnd64 (of_int (serverNow - localNow))"

definition Sample :: "int \<Rightarrow> int \<Rightarrow> Clock \<Rightarrow> Clock" where
  "Sample serverNow localNow c = (let ob = observed serverNow localNow in
     if \<not> ck_have c then c\<lparr>ck_offset := ob, ck_have := True\<rparr>
     else if \<bar>fsub ob (ck_offset c)\<bar> > jumpRejectMs
     then (let c = c\<lparr>ck_jumps := ck_jumps c + 1\<rparr> in
           if ck_jumps c < jumpsBeforeResync then c else c\<lparr>ck_offset := ob, ck_jumps := 0\<rparr>)
     else c\<lparr>ck_jumps := 0, ck_offset := fadd (ck_offset c) (fmul (fsub ob (ck_offset c)) emaAlpha)\<rparr>)"

definition ServerNow :: "int \<Rightarrow> Clock \<Rightarrow> int" where
  "ServerNow localNow c = (if \<not> ck_have c then localNow else localNow + go_round (ck_offset c))"

section \<open>The average moves towards the sample\<close>

lemma emaAlpha_bounds: "1 / 8 \<le> emaAlpha" "emaAlpha \<le> 1 / 4"
  unfolding emaAlpha_def by code_simp+

lemma f64_multiple: "f64_exact x \<Longrightarrow> \<exists>n. x = of_int n * 2 powi (-1074)"
proof -
  assume x: "f64_exact x"
  show ?thesis
  proof (cases "x = 0")
    case False
    define e where "e = max (ilog2 \<bar>x\<bar>) (-1022) - 52"
    have "x = of_int (rne (x / ulp64 x)) * 2 powi e"
      using x False by (simp add: f64_exact_def rnd64_def ulp64_def e_def)
    also have "2 powi e = of_int (2 ^ nat (e - (-1074))) * (2::real) powi (-1074)"
      by (rule pow2_split) (simp add: e_def)
    finally show ?thesis by (metis mult.assoc of_int_mult)
  qed (intro exI [of _ 0], simp)
qed

lemma f64_gap:
  assumes "f64_exact a" "f64_exact b" "a < b"
  shows "2 powi (-1074) \<le> b - a"
proof -
  obtain m n where "a = of_int m * 2 powi (-1074)" "b = of_int n * (2::real) powi (-1074)"
    using f64_multiple assms by blast
  then have ab: "b - a = of_int (n - m) * 2 powi (-1074)" by (simp add: algebra_simps)
  then have "1 \<le> n - m" using assms(3) by (cases "n - m \<le> 0") (auto simp: mult_nonpos_nonneg)
  then have "1 * 2 powi (-1074) \<le> of_int (n - m) * (2::real) powi (-1074)" by (intro mult_right_mono) auto
  then show ?thesis using ab by simp
qed

lemma rnd64_double:
  assumes "2 powi (-1074) \<le> x"
  shows "rnd64 x \<le> 2 * x"
proof -
  have x: "0 < x" using assms pow2_pos [of "-1074"] by linarith
  define p where "p = (2::real) powi (ilog2 x + 1)"
  have "x < 2 powi (ilog2 x + 1)" "2 powi (ilog2 x) \<le> x" using ilog2_bounds [OF x] by auto
  moreover have "p = 2 * 2 powi (ilog2 x)" by (simp add: p_def power_int_add_1')
  moreover have "(-1074::int) < ilog2 x + 1"
    using assms calculation(1) pow2_strict by (metis le_less_trans)
  then have "f64_exact p" unfolding f64_exact_def by (intro rnd64_dyadic [of p 1 "ilog2 x + 1"]) (simp_all add: p_def)
  ultimately show ?thesis using rnd64_le [of x p] unfolding p_def by linarith
qed

lemma ema_between:
  assumes "f64_exact a" "f64_exact b" "a \<le> b"
  shows "a \<le> fadd a (fmul (fsub b a) emaAlpha)" "fadd a (fmul (fsub b a) emaAlpha) \<le> b"
proof -
  let ?m = "fmul (fsub b a) emaAlpha"
  have d: "0 \<le> fsub b a" using assms by (simp add: fsub_def rnd64_nonneg)
  then have m0: "0 \<le> ?m" using emaAlpha_bounds by (simp add: fmul_def rnd64_nonneg)
  have "?m \<le> b - a"
  proof (cases "a = b")
    case False
    then have gap: "2 powi (-1074) \<le> b - a" using f64_gap assms by simp
    then have d2: "fsub b a \<le> 2 * (b - a)" unfolding fsub_def by (rule rnd64_double)
    show ?thesis
    proof (cases "2 powi (-1074) \<le> fsub b a * emaAlpha")
      case True
      have "?m \<le> 2 * (fsub b a * emaAlpha)" unfolding fmul_def by (rule rnd64_double [OF True])
      also have "\<dots> \<le> 2 * (fsub b a * (1 / 4))" using emaAlpha_bounds(2) d by (intro mult_left_mono) simp_all
      also have "\<dots> \<le> b - a" using d2 by simp
      finally show ?thesis .
    next
      case False
      have "f64_exact (2 powi (-1074))" unfolding f64_exact_def by (rule rnd64_dyadic [of _ 1 "-1074"]) simp_all
      then have "?m \<le> 2 powi (-1074)" unfolding fmul_def using False by (intro rnd64_le) simp_all
      then show ?thesis using gap by linarith
    qed
  qed (simp add: fsub_def fmul_def)
  then show "fadd a ?m \<le> b" unfolding fadd_def using assms(2) by (intro rnd64_le) simp_all
  show "a \<le> fadd a ?m" unfolding fadd_def using m0 assms(1) by (intro rnd64_ge) simp_all
qed

lemma ema_between_down:
  assumes "f64_exact a" "f64_exact b" "b \<le> a"
  shows "b \<le> fadd a (fmul (fsub b a) emaAlpha)" "fadd a (fmul (fsub b a) emaAlpha) \<le> a"
proof -
  have n: "f64_exact (- a)" "f64_exact (- b)" "- a \<le> - b" using assms by (simp_all add: f64_exact_def rnd64_minus)
  have "fsub (- b) (- a) = - fsub b a" unfolding fsub_def by (metis minus_diff_eq minus_diff_minus rnd64_minus)
  then have "fadd (- a) (fmul (fsub (- b) (- a)) emaAlpha) = - fadd a (fmul (fsub b a) emaAlpha)"
    unfolding fadd_def fmul_def by (metis minus_add_distrib mult_minus_left rnd64_minus)
  then show "b \<le> fadd a (fmul (fsub b a) emaAlpha)" "fadd a (fmul (fsub b a) emaAlpha) \<le> a"
    using ema_between [OF n] by simp_all
qed

section \<open>Many samples\<close>

definition in_hull :: "real \<Rightarrow> real \<Rightarrow> Clock \<Rightarrow> bool" where
  "in_hull lo hi c \<longleftrightarrow> ck_have c \<and> f64_exact (ck_offset c) \<and> lo \<le> ck_offset c \<and> ck_offset c \<le> hi"

lemma Sample_hull:
  assumes "\<not> ck_have c \<or> in_hull lo hi c" "lo \<le> observed s l" "observed s l \<le> hi"
  shows "in_hull lo hi (Sample s l c)"
proof -
  have o: "f64_exact (observed s l)" by (simp add: observed_def)
  consider "\<not> ck_have c" | "ck_have c" "observed s l \<le> ck_offset c" "in_hull lo hi c"
    | "ck_have c" "ck_offset c \<le> observed s l" "in_hull lo hi c" using assms(1) by linarith
  then show ?thesis
  proof cases
    case 1
    then show ?thesis using assms(2,3) o by (simp add: Sample_def in_hull_def)
  next
    case 2
    then show ?thesis using ema_between_down [of "ck_offset c" "observed s l"] assms(2,3) o
      by (simp add: Sample_def in_hull_def Let_def)
  next
    case 3
    then show ?thesis using ema_between [of "ck_offset c" "observed s l"] assms(2,3) o
      by (simp add: Sample_def in_hull_def Let_def)
  qed
qed

definition sample_all :: "(int \<times> int) list \<Rightarrow> Clock \<Rightarrow> Clock" where
  "sample_all xs c = fold (\<lambda>(s, l). Sample s l) xs c"

lemma sample_all_hull:
  "(\<not> ck_have c \<and> xs \<noteq> []) \<or> in_hull lo hi c \<Longrightarrow> \<forall>(s, l)\<in>set xs. lo \<le> observed s l \<and> observed s l \<le> hi
   \<Longrightarrow> in_hull lo hi (sample_all xs c)"
proof (induction xs arbitrary: c)
  case (Cons x xs)
  obtain s l where x: "x = (s, l)" by (cases x)
  have "in_hull lo hi (Sample s l c)" using Cons.prems x by (intro Sample_hull) auto
  then show ?case using Cons x by (simp add: sample_all_def)
qed (simp add: sample_all_def)

lemma go_round_bounds:
  assumes "of_int lo \<le> x" "x \<le> of_int hi"
  shows "lo \<le> go_round x" "go_round x \<le> hi"
  using assms by (simp_all add: go_round_def) linarith+

end
