(* ===== verification/Client_Ring.thy ===== *)
theory Client_Ring
  imports Protocol
begin

text \<open>
  \<^verbatim>\<open>internal/client/interp.go\<close>: the ring of the last snapshots and the interpolated view. The ring
  is a list, oldest first; the pointers \<^verbatim>\<open>s0\<close> and \<^verbatim>\<open>s1\<close> into it are indices, and comparing
  the pointers is comparing the indices. The views are values: the reuse of the output buffers by
  the next call is not modelled.
\<close>

section \<open>State\<close>

record BirdView =
  bv_ID :: u64
  bv_Name :: string
  bv_Y :: f64
  bv_Vy :: f64
  bv_Score :: int
  bv_Dead :: bool
  bv_Left :: bool
  bv_Flap :: bool
  bv_Pal :: u8
  bv_Acc :: u8

record PipeView =
  pv_ID :: u64
  pv_X :: f64
  pv_GapY :: f64
  pv_GapH :: f64

record View =
  vw_St :: race_state
  vw_Theme :: u8
  vw_Seed :: u64
  vw_GoAt :: int
  vw_Dist :: f64
  vw_Wait :: int
  vw_Birds :: "BirdView list"
  vw_Pipes :: "PipeView list"
  vw_Res :: "ResultSnap list"

type_synonym Ring = "Snapshot list"

definition NewRing :: Ring where "NewRing = []"

definition Push :: "Snapshot \<Rightarrow> Ring \<Rightarrow> Ring" where
  "Push s r =
     (if length r > 0 \<and> sn_Now s \<le> sn_Now (last r) then r
      else (let r = r @ [s] in if length r > RingLen then tl r else r))"

definition Reset :: "Ring \<Rightarrow> Ring" where "Reset r = []"

definition Newest :: "Ring \<Rightarrow> Snapshot option" where
  "Newest r = (if r = [] then None else Some (last r))"

section \<open>Interpolation\<close>

definition lerp :: "f64 \<Rightarrow> f64 \<Rightarrow> f64 \<Rightarrow> f64" where
  "lerp a b t = fadd a (fmul (fsub b a) t)"

definition findBird :: "Snapshot \<Rightarrow> u64 \<Rightarrow> BirdSnap option" where
  "findBird s i = List.find (\<lambda>b. bs_ID b = i) (sn_Birds s)"

definition findPipe :: "Snapshot \<Rightarrow> u64 \<Rightarrow> PipeSnap option" where
  "findPipe s i = List.find (\<lambda>p. ps_ID p = i) (sn_Pipes s)"

text \<open>The loop over the ring: the indices of \<^verbatim>\<open>s0\<close> and \<^verbatim>\<open>s1\<close> so far, the index, the rest.\<close>

fun bracket :: "int \<Rightarrow> nat \<times> nat \<Rightarrow> nat \<Rightarrow> Snapshot list \<Rightarrow> nat \<times> nat" where
  "bracket t s i [] = s"
| "bracket t s i (x # xs) =
     (if sn_Now x \<le> t then bracket t (i, if xs \<noteq> [] then Suc i else i) (Suc i) xs else s)"

text \<open>The pose to draw: the two snapshots and how far to go from the first to the second.\<close>

definition pose :: "int \<Rightarrow> Ring \<Rightarrow> Snapshot \<times> Snapshot \<times> f64" where
  "pose renderT r = (let (i0, i1) = bracket renderT (0, 0) 0 r; s0 = r ! i0; s1 = r ! i1 in
     if i0 \<noteq> i1
     then (let span = sn_Now s1 - sn_Now s0 in
           if span > SnapGapMs then (s0, s0, 0)
           else if span > 0
           then (s0, s1, fdiv (rnd64 (of_int (renderT - sn_Now s0))) (rnd64 (of_int span)))
           else (s0, s1, 0))
     else (s0, s1, 1))"

definition bird_view :: "Snapshot \<Rightarrow> f64 \<Rightarrow> BirdSnap \<Rightarrow> BirdView" where
  "bird_view s0 alpha b =
     (let bv = \<lparr>bv_ID = bs_ID b, bv_Name = bs_Name b, bv_Y = 0, bv_Vy = 0, bv_Score = bs_Score b,
                bv_Dead = bs_Dead b, bv_Left = bs_Left b, bv_Flap = bs_Flap b, bv_Pal = bs_Pal b,
                bv_Acc = bs_Acc b\<rparr>
      in case findBird s0 (bs_ID b) of
        Some ob \<Rightarrow> bv\<lparr>bv_Y := lerp (bs_Y ob) (bs_Y b) alpha, bv_Vy := lerp (bs_Vy ob) (bs_Vy b) alpha\<rparr>
      | None \<Rightarrow> bv\<lparr>bv_Y := bs_Y b, bv_Vy := bs_Vy b\<rparr>)"

definition pipe_view :: "Snapshot \<Rightarrow> f64 \<Rightarrow> PipeSnap \<Rightarrow> PipeView" where
  "pipe_view s0 alpha p =
     \<lparr>pv_ID = ps_ID p,
      pv_X = (case findPipe s0 (ps_ID p) of Some ob \<Rightarrow> lerp (ps_X ob) (ps_X p) alpha | None \<Rightarrow> ps_X p),
      pv_GapY = ps_G p, pv_GapH = ps_H p\<rparr>"

definition Interp :: "int \<Rightarrow> Ring \<Rightarrow> View option" where
  "Interp renderT r =
     (if length r = 0 then None
      else (let (s0, s1, alpha) = pose renderT r in Some
        \<lparr>vw_St = sn_St s1, vw_Theme = sn_Theme s1, vw_Seed = sn_Seed s1, vw_GoAt = sn_GoAt s1,
         vw_Dist = lerp (sn_Dist s0) (sn_Dist s1) alpha, vw_Wait = sn_Wait s1,
         vw_Birds = map (bird_view s0 alpha) (sn_Birds s1),
         vw_Pipes = map (pipe_view s0 alpha) (sn_Pipes s1), vw_Res = sn_Res s1\<rparr>))"

section \<open>The ring\<close>

definition ring_inv :: "Ring \<Rightarrow> bool" where
  "ring_inv r \<longleftrightarrow> length r \<le> RingLen \<and> sorted_wrt (\<lambda>a b. sn_Now a < sn_Now b) r"

lemma sorted_wrt_tl: "sorted_wrt P xs \<Longrightarrow> sorted_wrt P (tl xs)"
  by (cases xs) simp_all

lemma last_is_newest:
  "sorted_wrt (\<lambda>a b. sn_Now a < sn_Now b) r \<Longrightarrow> x \<in> set r \<Longrightarrow> sn_Now x \<le> sn_Now (last r)"
  by (induction r) (auto simp: order_less_imp_le split: if_splits)

lemma Push_inv [inv_intros]: "ring_inv r \<Longrightarrow> ring_inv (Push s r)"
proof -
  assume r: "ring_inv r"
  show ?thesis
  proof (cases "length r > 0 \<and> sn_Now s \<le> sn_Now (last r)")
    case False
    then have "\<forall>x\<in>set r. sn_Now x < sn_Now s"
      using r last_is_newest unfolding ring_inv_def by fastforce
    then have "sorted_wrt (\<lambda>a b. sn_Now a < sn_Now b) (r @ [s])"
      using r by (simp add: ring_inv_def sorted_wrt_append)
    then show ?thesis using False r sorted_wrt_tl by (auto simp: ring_inv_def Push_def Let_def)
  qed (use r in \<open>auto simp: Push_def\<close>)
qed

text \<open>The snapshots that are not stale: each later than all before it.\<close>

fun fresh_snaps :: "Snapshot list \<Rightarrow> Snapshot list \<Rightarrow> Snapshot list" where
  "fresh_snaps acc [] = acc"
| "fresh_snaps acc (s # ss) =
     fresh_snaps (if list_all (\<lambda>x. sn_Now x < sn_Now s) acc then acc @ [s] else acc) ss"

definition last_n :: "nat \<Rightarrow> 'a list \<Rightarrow> 'a list" where
  "last_n n xs = drop (length xs - n) xs"

lemma last_last_n: "0 < n \<Longrightarrow> last (last_n n xs) = last xs \<and> (last_n n xs = [] \<longleftrightarrow> xs = [])"
proof (cases "xs = []")
  case False
  moreover assume "0 < n"
  ultimately have "length xs - n < length xs" by simp
  then show ?thesis using False by (simp add: last_n_def last_drop)
qed (simp add: last_n_def)

lemma Push_last_n:
  assumes "sorted_wrt (\<lambda>a b. sn_Now a < sn_Now b) acc"
  shows "Push s (last_n RingLen acc)
    = last_n RingLen (if list_all (\<lambda>x. sn_Now x < sn_Now s) acc then acc @ [s] else acc)"
proof -
  have l: "last (last_n 8 acc) = last acc" "last_n 8 acc = [] \<longleftrightarrow> acc = []" by (simp_all add: last_last_n)
  have "list_all (\<lambda>x. sn_Now x < sn_Now s) acc \<longleftrightarrow> acc = [] \<or> sn_Now (last acc) < sn_Now s"
    using last_is_newest [OF assms] by (cases "acc = []") (auto simp: list_all_iff intro: le_less_trans)
  moreover have "tl (drop (length acc - 8) acc @ [s]) = drop (Suc (length acc) - 8) (acc @ [s])" if "8 \<le> length acc"
  proof -
    have "drop (length acc - 8) acc \<noteq> []" using that by simp
    moreover have "length acc - 7 = Suc (length acc - 8)" using that by linarith
    ultimately show ?thesis using that by (simp add: drop_Suc tl_drop tl_append2)
  qed
  ultimately show ?thesis
    using l by (auto simp: Push_def Let_def last_n_def not_less not_le)
qed

section \<open>The bracket\<close>

text \<open>Where the loop stops: at the last snapshot not after \<open>t\<close>, with its successor if there is one.\<close>

definition passed_snaps :: "int \<Rightarrow> Ring \<Rightarrow> nat" where
  "passed_snaps t r = length (takeWhile (\<lambda>x. sn_Now x \<le> t) r)"

lemma bracket_passed:
  "bracket t s i xs = (if passed_snaps t xs = 0 then s
     else (i + passed_snaps t xs - 1, if passed_snaps t xs < length xs then i + passed_snaps t xs else i + passed_snaps t xs - 1))"
proof (induction xs arbitrary: s i)
  case (Cons x xs)
  show ?case
  proof (cases "sn_Now x \<le> t")
    case True
    then have "passed_snaps t (x # xs) = Suc (passed_snaps t xs)" by (simp add: passed_snaps_def)
    moreover have "passed_snaps t xs \<le> length xs" by (simp add: passed_snaps_def length_takeWhile_le)
    ultimately show ?thesis using Cons [of "(i, if xs \<noteq> [] then Suc i else i)" "Suc i"] True by auto
  qed (simp add: passed_snaps_def)
qed (simp add: passed_snaps_def)

lemma passed_before: "i < passed_snaps t r \<Longrightarrow> sn_Now (r ! i) \<le> t"
  unfolding passed_snaps_def by (metis nth_mem set_takeWhileD takeWhile_nth)

lemma passed_after: "passed_snaps t r < length r \<Longrightarrow> t < sn_Now (r ! passed_snaps t r)"
  unfolding passed_snaps_def using nth_length_takeWhile [of "\<lambda>x. sn_Now x \<le> t" r] by simp

lemma fdiv_unit:
  assumes "0 \<le> x" "x \<le> y" "0 < y"
  shows "0 \<le> fdiv (rnd64 (of_int x)) (rnd64 (of_int y))" "fdiv (rnd64 (of_int x)) (rnd64 (of_int y)) \<le> 1"
proof -
  have x: "0 \<le> rnd64 (of_int x)" using assms(1) by (simp add: rnd64_nonneg)
  have "rnd64 1 \<le> rnd64 (of_int y)" using assms(3) by (intro rnd64_mono) simp
  then have y: "0 < rnd64 (of_int y)" using f64_exact_numeral(4) unfolding f64_exact_def by linarith
  have xy: "rnd64 (of_int x) \<le> rnd64 (of_int y)" using assms(2) by (intro rnd64_mono) simp
  show "0 \<le> fdiv (rnd64 (of_int x)) (rnd64 (of_int y))" using x y by (simp add: fdiv_def rnd64_nonneg)
  show "fdiv (rnd64 (of_int x)) (rnd64 (of_int y)) \<le> 1" unfolding fdiv_def
    using xy y by (intro rnd64_le) (simp_all add: divide_le_eq)
qed

text \<open>The three ways to hold a pose and the one to interpolate.\<close>

lemma pose_cases:
  assumes "ring_inv r" "r \<noteq> []"
  obtains (before) "pose t r = (hd r, hd r, 1)" "t < sn_Now (hd r)"
  | (after) "pose t r = (last r, last r, 1)" "sn_Now (last r) \<le> t"
  | (hole) i where "Suc i < length r" "pose t r = (r ! i, r ! i, 0)" "sn_Now (r ! i) \<le> t" "t < sn_Now (r ! Suc i)"
      "SnapGapMs < sn_Now (r ! Suc i) - sn_Now (r ! i)"
  | (between) i alpha where "Suc i < length r" "pose t r = (r ! i, r ! Suc i, alpha)" "sn_Now (r ! i) \<le> t"
      "t < sn_Now (r ! Suc i)" "sn_Now (r ! Suc i) - sn_Now (r ! i) \<le> SnapGapMs" "0 \<le> alpha" "alpha \<le> 1" "t = sn_Now (r ! i) \<Longrightarrow> alpha = 0"
      "alpha = fdiv (rnd64 (of_int (t - sn_Now (r ! i)))) (rnd64 (of_int (sn_Now (r ! Suc i) - sn_Now (r ! i))))"
proof (cases "passed_snaps t r")
  case 0
  have "t < sn_Now (r ! passed_snaps t r)" by (rule passed_after) (use 0 assms(2) in simp)
  moreover have "pose t r = (hd r, hd r, 1)"
    using 0 assms(2) by (simp add: pose_def bracket_passed hd_conv_nth)
  ultimately show thesis using before assms(2) 0 by (simp add: hd_conv_nth)
next
  case (Suc i)
  have le: "passed_snaps t r \<le> length r" by (simp add: passed_snaps_def length_takeWhile_le)
  have bi: "sn_Now (r ! i) \<le> t" using passed_before [of i t r] Suc by simp
  show thesis
  proof (cases "Suc i < length r")
    case False
    then have "i = length r - 1" using le Suc by linarith
    then have "r ! i = last r" using assms(2) by (simp add: last_conv_nth)
    moreover have "pose t r = (r ! i, r ! i, 1)" using Suc False by (simp add: pose_def bracket_passed)
    ultimately show thesis using after bi by simp
  next
    case True
    have ai: "t < sn_Now (r ! Suc i)" using passed_after [of t r] Suc True by simp
    show thesis
    proof (cases "SnapGapMs < sn_Now (r ! Suc i) - sn_Now (r ! i)")
      case gap: True
      then have "pose t r = (r ! i, r ! i, 0)" using True Suc by (simp add: pose_def bracket_passed Let_def)
      then show thesis using hole [of i] True bi ai gap by simp
    next
      case False
      let ?a = "fdiv (rnd64 (of_int (t - sn_Now (r ! i)))) (rnd64 (of_int (sn_Now (r ! Suc i) - sn_Now (r ! i))))"
      have "0 \<le> ?a" "?a \<le> 1"
        using fdiv_unit [of "t - sn_Now (r ! i)" "sn_Now (r ! Suc i) - sn_Now (r ! i)"] bi ai by simp_all
      moreover have "pose t r = (r ! i, r ! Suc i, ?a)"
        using False True Suc bi ai by (simp add: pose_def bracket_passed Let_def)
      moreover have "t = sn_Now (r ! i) \<Longrightarrow> ?a = 0" by (simp add: fdiv_def)
      ultimately show thesis using between [OF True _ bi ai] False by (simp only: not_less)
    qed
  qed
qed

section \<open>Linear interpolation\<close>

lemma lerp_0: "f64_exact a \<Longrightarrow> lerp a b 0 = a"
  by (simp add: lerp_def fmul_def fadd_def f64_exact_def)

lemma lerp_same: "f64_exact a \<Longrightarrow> lerp a a t = a"
  by (simp add: lerp_def fsub_def fmul_def fadd_def f64_exact_def)

text \<open>Between two values of at most 2048 pixels the result leaves their interval by less than 2^-39.\<close>

lemma lerp_between:
  assumes "\<bar>a\<bar> \<le> 2048" "\<bar>b\<bar> \<le> 2048" "0 \<le> t" "t \<le> 1"
  shows "min a b - 1 / 2 ^ 39 \<le> lerp a b t" "lerp a b t \<le> max a b + 1 / 2 ^ 39"
proof -
  have e1: "\<bar>fsub a' b' - (a' - b')\<bar> \<le> 1 / 2 ^ 41" if "\<bar>a'\<bar> \<le> 2048" "\<bar>b'\<bar> \<le> 2048" for a' b'
    using rnd64_error_le [of "a' - b'" 13] that by (simp add: fsub_def power_int_def power_one_over)
  have d: "\<bar>fsub b a - (b - a)\<bar> \<le> 1 / 2 ^ 41" using e1 assms by blast
  have dt: "\<bar>fsub b a * t - (b - a) * t\<bar> \<le> 1 / 2 ^ 41"
  proof -
    have "\<bar>fsub b a * t - (b - a) * t\<bar> = \<bar>fsub b a - (b - a)\<bar> * t" using assms(3) by (simp add: abs_mult flip: left_diff_distrib)
    also have "\<dots> \<le> \<bar>fsub b a - (b - a)\<bar> * 1" using assms(4) by (intro mult_left_mono) simp_all
    also have "\<dots> \<le> 1 / 2 ^ 41" using d by simp
    finally show ?thesis .
  qed
  have ab: "min a b - a \<le> (b - a) * t" "(b - a) * t \<le> max a b - a"
  proof -
    have "(b - a) * t \<le> max (b - a) 0" using assms(3,4) mult_left_le [of t "b - a"] mult_nonpos_nonneg [of "b - a" t]
      by (cases "0 \<le> b - a") (auto simp: max_def mult_left_le)
    then show "(b - a) * t \<le> max a b - a" by linarith
    have "min (b - a) 0 \<le> (b - a) * t"
    proof (cases "0 \<le> b - a")
      case False
      have "(a - b) * t \<le> a - b" using False assms(4) by (intro mult_left_le) simp_all
      then show ?thesis using False by (simp add: algebra_simps min_def)
    qed (use assms(3) in auto)
    then show "min a b - a \<le> (b - a) * t" by linarith
  qed
  define p where "p = fsub b a * t"
  define q where "q = (b - a) * t"
  define f where "f = fmul (fsub b a) t"
  have pq: "\<bar>p - q\<bar> \<le> 1 / 2 ^ 41" "min a b - a \<le> q" "q \<le> max a b - a"
    using dt ab by (simp_all add: p_def q_def)
  have q4: "\<bar>q\<bar> \<le> 4096" using pq(2,3) assms(1,2) by (auto simp: min_def max_def split: if_splits)
  have "\<bar>p\<bar> \<le> \<bar>q\<bar> + \<bar>p - q\<bar>" using abs_triangle_ineq [of q "p - q"] by simp
  moreover have "\<bar>p - q\<bar> \<le> 1" by (rule order_trans [OF pq(1)]) simp
  ultimately have "\<bar>p\<bar> \<le> \<bar>q\<bar> + 1" by simp
  then have p4: "\<bar>p\<bar> \<le> 4097" using q4 by linarith
  have m: "\<bar>f - p\<bar> \<le> 1 / 2 ^ 41"
  proof -
    have "\<bar>p\<bar> < 2 powi 13" using p4 by (simp add: power_int_def)
    from rnd64_error_le [OF this] show ?thesis by (simp add: f_def p_def fmul_def power_int_def power_one_over)
  qed
  have s: "\<bar>lerp a b t - (a + f)\<bar> \<le> 1 / 2 ^ 41"
  proof -
    have "\<bar>f\<bar> \<le> \<bar>p\<bar> + \<bar>f - p\<bar>" using abs_triangle_ineq [of p "f - p"] by simp
    moreover have "\<bar>f - p\<bar> \<le> 1" by (rule order_trans [OF m]) simp
    ultimately have "\<bar>a + f\<bar> \<le> 2048 + (\<bar>p\<bar> + 1)" using abs_triangle_ineq [of a f] assms(1) by simp
    then have "\<bar>a + f\<bar> < 2 powi 13" using p4 by (simp add: power_int_def)
    from rnd64_error_le [OF this] show ?thesis by (simp add: lerp_def f_def fadd_def power_int_def power_one_over)
  qed
  show "min a b - 1 / 2 ^ 39 \<le> lerp a b t" "lerp a b t \<le> max a b + 1 / 2 ^ 39"
    using pq(2,3) abs_le_D1 [OF pq(1)] abs_le_D2 [OF pq(1)] abs_le_D1 [OF m] abs_le_D2 [OF m]
      abs_le_D1 [OF s] abs_le_D2 [OF s] by simp_all
qed

end
