(* ===== verification/Client_Canvas.thy ===== *)
theory Client_Canvas
  imports Protocol
begin

text \<open>
  The drawing vocabulary of the client (\<^verbatim>\<open>internal/client/draw\<close>): colours, filled shapes,
  pre-rendered images, the label cache of \<^verbatim>\<open>text.go\<close> and the bird sprites of \<^verbatim>\<open>sprites.go\<close>.
  An image is its size and what was painted on it, in order; a frame is the list of commands sent to
  the screen. Rasterising, antialiasing and the font are the library's. Coordinates written as plain
  arithmetic are integers and halves of small size, which both float widths represent exactly.
\<close>

section \<open>Colours and images\<close>

type_synonym RGBA = "u8 \<times> u8 \<times> u8 \<times> u8"

type_synonym rgba = "f32 \<times> f32 \<times> f32 \<times> f32"

definition clamp01 :: "f32 \<Rightarrow> f32" where
  "clamp01 v = (if v < 0 then 0 else if v > 1 then 1 else v)"

definition channel :: "f32 \<Rightarrow> u8" where
  "channel v = of_int (go_trunc (fmul32 (clamp01 v) 255))"

definition Color :: "rgba \<Rightarrow> RGBA" where
  "Color c = (case c of (r, g, b, a) \<Rightarrow> (channel r, channel g, channel b, channel a))"

text \<open>A literal \<^verbatim>\<open>rgba{r, g, b, a}\<close> with two decimals, in hundredths.\<close>

definition rgba_lit :: "int \<Rightarrow> int \<Rightarrow> int \<Rightarrow> int \<Rightarrow> rgba" where
  "rgba_lit r g b a = (rnd32 (of_int r / 100), rnd32 (of_int g / 100), rnd32 (of_int b / 100), rnd32 (of_int a / 100))"

datatype shape = FillRect real real real real RGBA | FillCircle real real real RGBA

text \<open>Vector shapes on a transparent image, or one colour for every row.\<close>

datatype image = Shapes int int "shape list" | Rows int "RGBA list"

fun image_width :: "image \<Rightarrow> int" where
  "image_width (Shapes w h ss) = w"
| "image_width (Rows w rs) = w"

fun image_shapes :: "image \<Rightarrow> shape list" where
  "image_shapes (Shapes w h ss) = ss"
| "image_shapes (Rows w rs) = []"

text \<open>What a frame consists of: text (shadowed or not, with size, position, colour, centred or not),
  shapes, a fill of the whole screen, an image at a position, the sky stretched horizontally, and a
  sprite turned about its centre with an opacity.\<close>

datatype draw_cmd =
    DrawText bool string real real real RGBA bool
  | Fill shape
  | FillScreen RGBA
  | Blit image real real
  | BlitStretched image real
  | BlitSprite image real real real real

section \<open>Text\<close>

type_synonym labelKey = "string \<times> real \<times> bool \<times> RGBA"

text \<open>A rendered label: its image size, the passes (offset and colour) painted on it, and the layout
  width. Measuring a text is the font library's.\<close>

record labelImg =
  li_size :: "int \<times> int"
  li_passes :: "(real \<times> RGBA) list"
  li_w :: real

record Texter =
  tx_faces :: "real fset"
  tx_labels :: "(labelKey, labelImg) fmap"

definition labelPad :: int where [simp]: "labelPad = 4"
definition maxLabelImgs :: nat where [simp]: "maxLabelImgs = 1024"

definition NewText :: Texter where
  "NewText = \<lparr>tx_faces = fempty, tx_labels = fmempty\<rparr>"

definition face :: "real \<Rightarrow> Texter \<Rightarrow> Texter" where
  "face sz t = (if sz |\<in>| tx_faces t then t else t\<lparr>tx_faces := finsert sz (tx_faces t)\<rparr>)"

definition label_of :: "(string \<Rightarrow> real \<Rightarrow> f64 \<times> f64) \<Rightarrow> labelKey \<Rightarrow> labelImg" where
  "label_of msr k = (case k of (s, sz, shadow, clr) \<Rightarrow> (case msr s sz of (w, h) \<Rightarrow>
     \<lparr>li_size = (\<lceil>w\<rceil> + 2 * labelPad + 2, \<lceil>h\<rceil> + 2 * labelPad + 2),
      li_passes = (if shadow then [(of_int labelPad + 3 / 2, (0, 0, 0, 150))] else []) @ [(of_int labelPad, clr)],
      li_w = w\<rparr>))"

definition renderLabel :: "(string \<Rightarrow> real \<Rightarrow> f64 \<times> f64) \<Rightarrow> labelKey \<Rightarrow> Texter \<Rightarrow> labelImg \<times> Texter" where
  "renderLabel msr k t = (label_of msr k, face (fst (snd k)) t)"

definition label :: "(string \<Rightarrow> real \<Rightarrow> f64 \<times> f64) \<Rightarrow> labelKey \<Rightarrow> Texter \<Rightarrow> labelImg \<times> Texter" where
  "label msr k t = (case fmlookup (tx_labels t) k of
       Some l \<Rightarrow> (l, t)
     | None \<Rightarrow>
       (let t = (if fcard (fmdom (tx_labels t)) \<ge> maxLabelImgs then t\<lparr>tx_labels := fmempty\<rparr> else t);
            (l, t) = renderLabel msr k t
        in (l, t\<lparr>tx_labels := fmupd k l (tx_labels t)\<rparr>)))"

definition blit :: "labelImg \<Rightarrow> f64 \<Rightarrow> f64 \<Rightarrow> bool \<Rightarrow> labelImg \<times> f64 \<times> f64" where
  "blit l x y center = (let x = (if center then fsub x (fdiv (li_w l) 2) else x)
     in (l, fsub x (of_int labelPad), fsub y (of_int labelPad)))"

text \<open>\<^verbatim>\<open>Draw\<close> and \<^verbatim>\<open>DrawShadowed\<close>: the blits made, none for the empty text.\<close>

definition draw_label :: "(string \<Rightarrow> real \<Rightarrow> f64 \<times> f64) \<Rightarrow> bool \<Rightarrow> string \<Rightarrow> real \<Rightarrow> f64 \<Rightarrow> f64 \<Rightarrow> RGBA \<Rightarrow> bool \<Rightarrow> Texter
    \<Rightarrow> (labelImg \<times> f64 \<times> f64) list \<times> Texter" where
  "draw_label msr shadow s sz x y clr center t =
     (if s = [] then ([], t)
      else (let (l, t) = label msr (s, sz, shadow, clr) t in ([blit l x y center], t)))"

text \<open>The texts of a frame through the cache, in order.\<close>

fun draw_texts :: "(string \<Rightarrow> real \<Rightarrow> f64 \<times> f64) \<Rightarrow> draw_cmd list \<Rightarrow> Texter \<Rightarrow> (labelImg \<times> f64 \<times> f64) list \<times> Texter" where
  "draw_texts msr [] t = ([], t)"
| "draw_texts msr (DrawText shadow s sz x y clr center # cs) t =
     (let (b, t) = draw_label msr shadow s sz x y clr center t; (bs, t) = draw_texts msr cs t in (b @ bs, t))"
| "draw_texts msr (_ # cs) t = draw_texts msr cs t"

text \<open>The cache holds what rendering afresh would give, and is bounded.\<close>

definition text_inv :: "(string \<Rightarrow> real \<Rightarrow> f64 \<times> f64) \<Rightarrow> Texter \<Rightarrow> bool" where
  "text_inv msr t \<longleftrightarrow> fcard (fmdom (tx_labels t)) \<le> maxLabelImgs
     \<and> (\<forall>k l. fmlookup (tx_labels t) k = Some l \<longrightarrow> l = label_of msr k)"

lemma NewText_inv: "text_inv msr NewText"
  by (simp add: text_inv_def NewText_def fcard_fempty)

lemma label_transparent:
  assumes t: "text_inv msr t" and l: "label msr k t = (l, t')"
  shows "l = label_of msr k" "text_inv msr t'"
proof (atomize (full), cases "fmlookup (tx_labels t) k")
  case None
  let ?t = "if fcard (fmdom (tx_labels t)) \<ge> maxLabelImgs then t\<lparr>tx_labels := fmempty\<rparr> else t"
  have r: "l = label_of msr k" "tx_labels t' = fmupd k l (tx_labels ?t)"
    using None l by (auto simp: label_def renderLabel_def face_def Let_def)
  have "fcard (finsert k (fmdom (tx_labels ?t))) \<le> 1024"
    by (auto simp: fcard_finsert_if fcard_fempty)
  then show "l = label_of msr k \<and> text_inv msr t'" using t r by (auto simp: text_inv_def split: if_splits)
next
  case (Some l0)
  then have "l0 = l" "t' = t" using l by (simp_all add: label_def)
  moreover have "l0 = label_of msr k" using t Some unfolding text_inv_def by blast
  ultimately show "l = label_of msr k \<and> text_inv msr t'" using t by simp
qed

text \<open>The blits a frame's texts come to when every label is rendered afresh.\<close>

fun fresh_texts :: "(string \<Rightarrow> real \<Rightarrow> f64 \<times> f64) \<Rightarrow> draw_cmd list \<Rightarrow> (labelImg \<times> f64 \<times> f64) list" where
  "fresh_texts msr [] = []"
| "fresh_texts msr (DrawText shadow s sz x y clr center # cs) =
     (if s = [] then [] else [blit (label_of msr (s, sz, shadow, clr)) x y center]) @ fresh_texts msr cs"
| "fresh_texts msr (_ # cs) = fresh_texts msr cs"

lemma draw_texts_fresh:
  "text_inv msr t \<Longrightarrow> draw_texts msr cs t = (bs, t') \<Longrightarrow> bs = fresh_texts msr cs \<and> text_inv msr t'"
proof (induction msr cs t arbitrary: bs t' rule: draw_texts.induct)
  case (2 msr shadow s sz x y clr center cs t)
  obtain b t1 where b: "draw_label msr shadow s sz x y clr center t = (b, t1)" by fastforce
  obtain bs1 t2 where bs: "draw_texts msr cs t1 = (bs1, t2)" by fastforce
  have "text_inv msr t1 \<and> b = fresh_texts msr [DrawText shadow s sz x y clr center]"
    using b 2(2) label_transparent [OF 2(2)] by (auto simp: draw_label_def split: if_splits prod.splits)
  then show ?case using 2(1) [OF b [symmetric] refl _ bs] 2(3) b bs by (auto split: if_splits)
qed auto

section \<open>Bird sprites\<close>

definition sprite_body :: "int \<times> int \<times> int \<Rightarrow> int \<times> int \<times> int \<Rightarrow> int \<times> int \<times> int \<Rightarrow> rgba \<times> rgba \<times> rgba" where
  "sprite_body b w k = (case (b, w, k) of ((b1, b2, b3), (w1, w2, w3), (k1, k2, k3)) \<Rightarrow>
     (rgba_lit b1 b2 b3 100, rgba_lit w1 w2 w3 100, rgba_lit k1 k2 k3 100))"

definition palettes :: "(rgba \<times> rgba \<times> rgba) list" where
  "palettes =
     [sprite_body (91, 36, 29) (78, 25, 20) (100, 60, 15),
      sprite_body (29, 66, 91) (20, 50, 76) (100, 60, 15),
      sprite_body (95, 79, 30) (85, 65, 20) (95, 50, 10),
      sprite_body (44, 81, 49) (32, 66, 38) (100, 60, 15),
      sprite_body (66, 44, 91) (52, 32, 76) (100, 60, 15),
      sprite_body (95, 60, 29) (82, 46, 18) (100, 75, 10),
      sprite_body (95, 44, 70) (82, 30, 56) (100, 60, 15),
      sprite_body (31, 88, 82) (20, 72, 66) (100, 60, 15),
      sprite_body (66, 47, 31) (52, 35, 22) (100, 60, 15),
      sprite_body (94, 94, 94) (78, 80, 84) (100, 60, 15),
      sprite_body (29, 35, 42) (18, 22, 28) (100, 60, 15),
      sprite_body (23, 75, 69) (15, 60, 55) (100, 60, 15)]"

definition beakColor :: RGBA where "beakColor = Color (rgba_lit 100 62 12 100)"
definition eyeDark :: RGBA where "eyeDark = (20, 20, 20, 255)"
definition spriteW :: real where [simp]: "spriteW = 44"
definition spriteH :: real where [simp]: "spriteH = 34"
definition NameOffset :: f64 where [simp]: "NameOffset = 28"

definition drawAccessory :: "u8 \<Rightarrow> real \<Rightarrow> real \<Rightarrow> shape list" where
  "drawAccessory acc cx cy = (let a = acc mod 4 in
     if a = 1 then
       [FillRect (cx - 10) (cy - 16) 20 6 (40, 60, 90, 255), FillRect (cx + 4) (cy - 12) 12 3 (40, 60, 90, 255)]
     else if a = 2 then
       FillRect (cx - 9) (cy - 15) 18 4 (255, 217, 51, 255)
       # map (\<lambda>i. FillRect (cx - 9 + 7 * of_nat i) (cy - 20) 4 6 (255, 217, 51, 255)) [0..<3]
     else if a = 3 then
       [FillRect (cx - 10) (cy + 6) 18 5 (200, 60, 60, 255), FillRect (cx - 14) (cy + 10) 5 10 (200, 60, 60, 255)]
     else [])"

definition birdSprite :: "u8 \<Rightarrow> u8 \<Rightarrow> u8 \<Rightarrow> image option" where
  "birdSprite pal acc frame =
     (let i = unat (pal mod 12) in
      if i \<ge> length palettes then None
      else (let (p0, p1, p2) = palettes ! i; body = Color p0; wing = Color p1; cx = spriteW / 2; cy = spriteH / 2
        in Some (Shapes 44 34
          ([FillCircle (cx - 2) cy 14 body, FillCircle (cx + 4) (cy + 2) 12 body,
            FillCircle (cx + 3) (cy + 6) 8 (255, 255, 255, 70),
            (if frame mod 3 = 0 then FillCircle (cx - 8) (cy - 9) 8 wing
             else if frame mod 3 = 1 then FillCircle (cx - 10) (cy - 2) 8 wing
             else FillCircle (cx - 9) (cy + 5) 8 wing),
            FillCircle (cx + 8) (cy - 6) (9 / 2) eyeDark,
            FillCircle (cx + 10) (cy - 7) (rnd32 (16 / 10)) eyeDark,
            FillCircle (cx + 11) (cy - 15 / 2) (rnd32 (14 / 10)) (255, 255, 255, 220),
            FillRect (cx + 12) (cy - 2) 10 5 beakColor, FillRect (cx + 12) (cy + 3) 8 3 beakColor]
           @ drawAccessory acc cx cy))))"

type_synonym Sprites = "(u8 \<times> u8 \<times> u8, image) fmap"

definition sprites_Get :: "u8 \<Rightarrow> u8 \<Rightarrow> u8 \<Rightarrow> Sprites \<Rightarrow> (image \<times> Sprites) option" where
  "sprites_Get pal acc frame m = (case fmlookup m (pal, acc, frame) of
       Some img \<Rightarrow> Some (img, m)
     | None \<Rightarrow> map_option (\<lambda>img. (img, fmupd (pal, acc, frame) img m)) (birdSprite pal acc frame))"

definition BirdRotation :: "f64 \<Rightarrow> f64" where
  "BirdRotation vy = (let rot = fdiv vy 16; rot = (if rot < - (1 / 2) then - (1 / 2) else rot)
     in if rot > 5 / 4 then 5 / 4 else rot)"

definition sprites_inv :: "Sprites \<Rightarrow> bool" where
  "sprites_inv m \<longleftrightarrow> (\<forall>pal acc frame img. fmlookup m (pal, acc, frame) = Some img \<longrightarrow> birdSprite pal acc frame = Some img)"

lemma birdSprite_total: "\<exists>img. birdSprite pal acc frame = Some img"
proof -
  have "unat (pal mod 12) < 12" by (simp add: unat_mod)
  then show ?thesis by (auto simp: birdSprite_def palettes_def Let_def split: prod.splits)
qed

lemma sprites_Get_transparent:
  assumes "sprites_inv m"
  obtains img m' where "sprites_Get pal acc frame m = Some (img, m')" "birdSprite pal acc frame = Some img" "sprites_inv m'"
proof -
  obtain img where img: "birdSprite pal acc frame = Some img" using birdSprite_total by blast
  show thesis
  proof (cases "fmlookup m (pal, acc, frame)")
    case None
    show thesis
      by (rule that [of img "fmupd (pal, acc, frame) img m"]) (use None assms img in \<open>auto simp: sprites_Get_def sprites_inv_def\<close>)
  next
    case (Some i)
    then have "i = img" using assms img unfolding sprites_inv_def by force
    then show thesis using Some assms img by (intro that [of img m]) (simp_all add: sprites_Get_def)
  qed
qed

end
