(* ===== verification/Client_Scenery.thy ===== *)
theory Client_Scenery
  imports Client_Canvas Rng
begin

text \<open>
  \<^verbatim>\<open>internal/client/draw/themes.go\<close> and \<^verbatim>\<open>pipes.go\<close>: the scenery of a race, a function of theme
  and seed. A builder returns the shapes it paints and the state of the generator. The float loops
  run over the values of their variable; \<open>float_steps_loop\<close> shows that these are the values the
  rounded additions go through.
\<close>

section \<open>Themes\<close>

record themeDef =
  td_skyTop :: rgba
  td_skyBot :: rgba
  td_far :: rgba
  td_mid :: rgba
  td_ground :: rgba
  td_groundAlt :: rgba
  td_pipe :: rgba
  td_pipeEdge :: rgba
  td_textOnSky :: RGBA

definition themes :: "themeDef list" where
  "themes =
     [\<lparr>td_skyTop = rgba_lit 100 85 56 100, td_skyBot = rgba_lit 100 64 37 100,
       td_far = rgba_lit 79 54 29 100, td_mid = rgba_lit 91 63 36 100,
       td_ground = rgba_lit 94 76 44 100, td_groundAlt = rgba_lit 86 66 36 100,
       td_pipe = rgba_lit 72 50 30 100, td_pipeEdge = rgba_lit 52 34 19 100, td_textOnSky = (90, 50, 20, 255)\<rparr>,
      \<lparr>td_skyTop = rgba_lit 42 72 95 100, td_skyBot = rgba_lit 75 90 100 100,
       td_far = rgba_lit 100 100 100 85, td_mid = rgba_lit 100 100 100 100,
       td_ground = rgba_lit 45 75 35 100, td_groundAlt = rgba_lit 36 63 28 100,
       td_pipe = rgba_lit 90 94 97 100, td_pipeEdge = rgba_lit 55 65 75 100, td_textOnSky = (20, 40, 70, 255)\<rparr>,
      \<lparr>td_skyTop = rgba_lit 55 78 92 100, td_skyBot = rgba_lit 80 92 72 100,
       td_far = rgba_lit 29 54 35 100, td_mid = rgba_lit 23 48 29 100,
       td_ground = rgba_lit 31 48 23 100, td_groundAlt = rgba_lit 24 40 18 100,
       td_pipe = rgba_lit 54 42 27 100, td_pipeEdge = rgba_lit 30 48 22 100, td_textOnSky = (25, 45, 25, 255)\<rparr>,
      \<lparr>td_skyTop = rgba_lit 10 35 54 100, td_skyBot = rgba_lit 4 16 29 100,
       td_far = rgba_lit 10 40 55 55, td_mid = rgba_lit 9 30 42 90,
       td_ground = rgba_lit 16 35 42 100, td_groundAlt = rgba_lit 12 28 34 100,
       td_pipe = rgba_lit 85 47 41 100, td_pipeEdge = rgba_lit 60 28 24 100, td_textOnSky = (220, 235, 245, 255)\<rparr>]"

definition sceneryTileW :: real where [simp]: "sceneryTileW = 960"
definition groundH :: real where [simp]: "groundH = 80"
definition gtop :: f32 where [simp]: "gtop = 800 - groundH"

section \<open>Builders\<close>

definition sky_row :: "themeDef \<Rightarrow> nat \<Rightarrow> RGBA" where
  "sky_row def y = (case (td_skyTop def, td_skyBot def) of ((a0, a1, a2, _), (b0, b1, b2, _)) \<Rightarrow>
     (let t = fdiv32 (of_nat y) (of_int CanvasH) in
      Color (fadd32 a0 (fmul32 (fsub32 b0 a0) t), fadd32 a1 (fmul32 (fsub32 b1 a1) t),
             fadd32 a2 (fmul32 (fsub32 b2 a2) t), 1)))"

definition skyImage :: "themeDef \<Rightarrow> image" where
  "skyImage def = Rows CanvasW (map (sky_row def) [0..<nat CanvasH])"

text \<open>\<^verbatim>\<open>float32(rng.Next() % n)\<close>.\<close>

definition draw_mod :: "u64 \<Rightarrow> u64 \<Rightarrow> f32 \<times> u64" where
  "draw_mod n rng = (let (v, rng) = mix_next rng in (of_nat (unat (v mod n)), rng))"

text \<open>A loop whose body paints and draws random numbers.\<close>

fun each_rng :: "('x \<Rightarrow> u64 \<Rightarrow> shape list \<times> u64) \<Rightarrow> 'x list \<Rightarrow> u64 \<Rightarrow> shape list \<times> u64" where
  "each_rng f [] rng = ([], rng)"
| "each_rng f (x # xs) rng = (let (a, rng) = f x rng; (b, rng) = each_rng f xs rng in (a @ b, rng))"

text \<open>The values of \<^verbatim>\<open>for x := a; x < h; x += step\<close>.\<close>

definition float_steps :: "f32 \<Rightarrow> f32 \<Rightarrow> f32 \<Rightarrow> f32 list" where
  "float_steps a step h = map (\<lambda>k. a + step * of_nat k) [0..<nat \<lceil>(h - a) / step\<rceil>]"

definition ground_speck :: "RGBA \<Rightarrow> u64 \<Rightarrow> shape list \<times> u64" where
  "ground_speck alt rng =
     (let (x, rng) = draw_mod 960 rng;
          (y, rng) = draw_mod 68 rng;
          (w, rng) = draw_mod 6 rng
      in ([FillRect x (6 + y) (2 + w) (fdiv32 (2 + w) 2) alt], rng))"

definition groundTile :: "themeDef \<Rightarrow> image" where
  "groundTile def = Shapes 960 80
     (FillRect 0 0 sceneryTileW groundH (Color (td_ground def))
      # fst (each_rng (\<lambda>_. ground_speck (Color (td_groundAlt def))) [0..<90] 1234567))"

definition mound :: "f32 \<Rightarrow> f32 \<Rightarrow> f32 \<Rightarrow> RGBA \<Rightarrow> shape list" where
  "mound x w h clr = map (\<lambda>y. let cw = fmul32 w (fsub32 1 (fdiv32 y h)) in
       FillRect (fadd32 x (fdiv32 (fsub32 w cw) 2)) (fsub32 (fsub32 gtop y) 4) cw 4 clr)
     (float_steps 0 4 h)"

definition drawPyramids :: "RGBA \<Rightarrow> shape list" where
  "drawPyramids clr = concat (map (\<lambda>i. mound (80 + of_nat i * 320) (120 + of_nat i * 30) (150 + of_nat i * 40) clr) [0..<3])"

definition drawDunes :: "RGBA \<Rightarrow> u64 \<Rightarrow> shape list \<times> u64" where
  "drawDunes clr = each_rng (\<lambda>x rng.
     let (w, rng) = draw_mod 80 rng; (h, rng) = draw_mod 50 rng in (mound x (180 + w) (40 + h) clr, rng))
     (float_steps 0 160 sceneryTileW)"

definition cloud :: "RGBA \<Rightarrow> f32 \<Rightarrow> f32 \<Rightarrow> f32 \<Rightarrow> shape list" where
  "cloud clr cx cy r =
     [FillCircle cx cy r clr,
      FillCircle (fsub32 cx (fmul32 r (rnd32 (8 / 10)))) (fadd32 cy (fmul32 r (1 / 4))) (fmul32 r (rnd32 (7 / 10))) clr,
      FillCircle (fadd32 cx (fmul32 r (rnd32 (8 / 10)))) (fadd32 cy (fmul32 r (rnd32 (3 / 10)))) (fmul32 r (rnd32 (65 / 100))) clr]"

definition drawCloudBand :: "RGBA \<Rightarrow> nat \<Rightarrow> u64 \<Rightarrow> shape list \<times> u64" where
  "drawCloudBand clr n = each_rng (\<lambda>_ rng.
     let (cx, rng) = draw_mod 960 rng; (cy, rng) = draw_mod 420 rng; (r, rng) = draw_mod 30 rng
     in (cloud clr cx (80 + cy) (26 + r), rng)) [0..<n]"

definition drawHills :: "RGBA \<Rightarrow> u64 \<Rightarrow> shape list \<times> u64" where
  "drawHills clr = each_rng (\<lambda>x rng.
     let (w, rng) = draw_mod 60 rng; (h, rng) = draw_mod 70 rng in (mound x (200 + w) (70 + h) clr, rng))
     (float_steps 0 140 sceneryTileW)"

definition drawTrees :: "RGBA \<Rightarrow> u64 \<Rightarrow> shape list \<times> u64" where
  "drawTrees clr = each_rng (\<lambda>x rng.
     let (h, rng) = draw_mod 70 rng; h = 90 + h; y = gtop - h; (r, rng) = draw_mod 14 rng
     in ([FillRect (x - 5) y 10 h (90, 62, 40, 255), FillCircle x y (34 + r) clr,
          FillCircle (x - 22) (y + 18) 24 clr, FillCircle (x + 22) (y + 18) 24 clr], rng))
     (float_steps 30 95 sceneryTileW)"

definition drawRays :: "RGBA \<Rightarrow> u64 \<Rightarrow> shape list \<times> u64" where
  "drawRays clr = each_rng (\<lambda>_ rng.
     let (x, rng) = draw_mod 960 rng; (w, rng) = draw_mod 60 rng
     in (map (\<lambda>y. FillRect (fadd32 x (fmul32 y (rnd32 (35 / 100)))) y (40 + w) 8 clr) (float_steps 0 8 (of_int CanvasH)), rng))
     [0..<6]"

definition drawKelp :: "RGBA \<Rightarrow> u64 \<Rightarrow> shape list \<times> u64" where
  "drawKelp clr = each_rng (\<lambda>x rng.
     let (h, rng) = draw_mod 260 rng; h = 180 + h;
         (lean, rng) = draw_mod 40 rng; lean = lean - 20;
         (w, rng) = draw_mod 8 rng
     in (map (\<lambda>y. FillRect (fadd32 x (fmul32 (fdiv32 y h) lean)) (gtop - y - 6) (10 + w) 6 clr) (float_steps 0 6 h), rng))
     (float_steps 40 70 sceneryTileW)"

definition drawCoral :: "RGBA \<Rightarrow> u64 \<Rightarrow> shape list \<times> u64" where
  "drawCoral clr = each_rng (\<lambda>_ rng.
     let (x, rng) = draw_mod 960 rng; (r, rng) = draw_mod 22 rng; r = 10 + r
     in ([FillCircle x (gtop - r / 2) r clr], rng)) [0..<12]"

section \<open>The scenery\<close>

record Scenery =
  sc_theme :: Theme
  sc_Sky :: image
  sc_Far :: image
  sc_Mid :: image
  sc_Ground :: image
  sc_pipe :: RGBA
  sc_pipeEdge :: RGBA
  sc_hud :: RGBA

definition emptyTile :: "shape list \<Rightarrow> image" where
  "emptyTile = Shapes 960 CanvasH"

text \<open>The shapes on the far and the middle layer.\<close>

definition decorate :: "Theme \<Rightarrow> themeDef \<Rightarrow> u64 \<Rightarrow> shape list \<times> shape list" where
  "decorate theme def rng =
     (if theme = ThemeDesert then
        (let far = drawPyramids (Color (td_far def)); (mid, rng) = drawDunes (Color (td_mid def)) rng in (far, mid))
      else if theme = ThemeClouds then
        (let (far, rng) = drawCloudBand (Color (td_far def)) 8 rng; (mid, rng) = drawCloudBand (Color (td_mid def)) 6 rng in (far, mid))
      else if theme = ThemeForest then
        (let (far, rng) = drawHills (Color (td_far def)) rng; (mid, rng) = drawTrees (Color (td_mid def)) rng in (far, mid))
      else if theme = ThemeUnderwater then
        (let (far, rng) = drawRays (Color (td_far def)) rng; (kelp, rng) = drawKelp (Color (td_mid def)) rng;
             (coral, rng) = drawCoral (Color (td_pipe def)) rng in (far, kelp @ coral))
      else ([], []))"

definition BuildScenery :: "Theme \<Rightarrow> u64 \<Rightarrow> Scenery option" where
  "BuildScenery theme seed =
     (if unat (theme mod ThemeCount) \<ge> length themes then None
      else (let def = themes ! unat (theme mod ThemeCount);
          rng = seed XOR (ucast theme * 0x9E3779B97F4A7C15);
          (far, mid) = decorate theme def rng
        in Some \<lparr>sc_theme = theme, sc_Sky = skyImage def, sc_Far = emptyTile far, sc_Mid = emptyTile mid,
             sc_Ground = groundTile def, sc_pipe = Color (td_pipe def), sc_pipeEdge = Color (td_pipeEdge def),
             sc_hud = td_textOnSky def\<rparr>))"

definition PipeColors :: "Scenery \<Rightarrow> RGBA \<times> RGBA" where "PipeColors s = (sc_pipe s, sc_pipeEdge s)"
definition HUDColor :: "Scenery \<Rightarrow> RGBA" where "HUDColor s = sc_hud s"

section \<open>Pipes\<close>

definition pipeW :: f32 where [simp]: "pipeW = 80"
definition pipeLipH :: f32 where [simp]: "pipeLipH = 10"
definition pipeHi :: RGBA where "pipeHi = (255, 255, 255, 60)"

definition column :: "Scenery \<Rightarrow> f32 \<Rightarrow> f32 \<Rightarrow> f32 \<Rightarrow> shape list" where
  "column sc x y0 y1 = (let h = fsub32 y1 y0 in
     if h \<le> 0 then []
     else [FillRect x y0 pipeW h (sc_pipe sc), FillRect x y0 3 h (sc_pipeEdge sc),
           FillRect (fsub32 (fadd32 x pipeW) 3) y0 3 h (sc_pipeEdge sc), FillRect (fadd32 x 6) y0 4 h pipeHi])"

definition DrawPipe :: "Scenery \<Rightarrow> f32 \<Rightarrow> f32 \<Rightarrow> f32 \<Rightarrow> shape list" where
  "DrawPipe sc x gapY gapH =
     (let topEnd = fsub32 gapY (fdiv32 gapH 2); botY = fadd32 gapY (fdiv32 gapH 2) in
      column sc x 0 topEnd @ column sc x botY gtop
      @ [FillRect (fsub32 x 4) (fsub32 topEnd pipeLipH) (fadd32 pipeW 8) pipeLipH (sc_pipeEdge sc),
         FillRect (fsub32 x 4) botY (fadd32 pipeW 8) pipeLipH (sc_pipeEdge sc)])"

section \<open>Loops and sizes\<close>

lemma float_steps_loop:
  assumes "0 < n" "\<bar>i + n\<bar> < 2 ^ 24"
  shows "float_steps (of_int i) (of_int n) h =
    (if of_int i < h then of_int i # float_steps (fadd32 (of_int i) (of_int n)) (of_int n) h else [])"
proof -
  have s: "fadd32 (of_int i) (of_int n) = of_int (i + n)"
    using rnd32_of_int [OF assms(2)] by (simp add: fadd32_def)
  show ?thesis
  proof (cases "of_int i < h")
    case True
    have n: "(0::real) < of_int n" using assms(1) by simp
    have "(h - of_int i) / of_int n = (h - of_int (i + n)) / of_int n + 1"
      using n by (simp add: field_simps)
    then have "\<lceil>(h - of_int i) / of_int n\<rceil> = \<lceil>(h - of_int (i + n)) / of_int n\<rceil> + 1" by simp
    moreover have "0 \<le> \<lceil>(h - of_int (i + n)) / of_int n\<rceil>"
      using True n by (simp add: field_simps)
    ultimately have "nat \<lceil>(h - of_int i) / of_int n\<rceil> = Suc (nat \<lceil>(h - of_int (i + n)) / of_int n\<rceil>)" by linarith
    then show ?thesis using True
      by (simp add: float_steps_def s upt_conv_Cons map_Suc_upt [symmetric] comp_def algebra_simps del: upt_Suc)
  next
    case False
    then have "(h - of_int i) / of_int n \<le> 0" using assms(1) by (simp add: divide_nonpos_pos)
    then have "\<lceil>(h - of_int i) / of_int n\<rceil> \<le> 0" by linarith
    then show ?thesis using False by (simp add: float_steps_def)
  qed
qed

lemma BuildScenery_total:
  obtains sc where "BuildScenery theme seed = Some sc"
    "image_width (sc_Far sc) = 960" "image_width (sc_Mid sc) = 960" "image_width (sc_Ground sc) = 960"
proof -
  have "unat (theme mod 4) < 4" by (simp add: unat_mod)
  then show thesis
    using that by (cases "BuildScenery theme seed")
      (auto simp: BuildScenery_def themes_def Let_def emptyTile_def groundTile_def split: prod.splits)
qed

end
