(* ===== verification/Client_HUD.thy ===== *)
theory Client_HUD
  imports Client_Ring Client_Scenery Go_Sort
begin

text \<open>
  \<^verbatim>\<open>internal/client/hud.go\<close> and \<^verbatim>\<open>draw/hud.go\<close>: the overlay derived from the newest snapshot and its
  drawing as a list of commands; the coordinates are halves of integers, which both float widths
  represent exactly.
\<close>

section \<open>Deriving the overlay\<close>

record HUDRow =
  hr_ID :: u64
  hr_Name :: string
  hr_Score :: int
  hr_Alive :: bool
  hr_Left :: bool
  hr_Self :: bool
  hr_Rank :: int

record HUD =
  hd_Countdown :: string
  hd_Go :: bool
  hd_OwnScore :: int
  hd_Rows :: "HUDRow list"
  hd_Waiting :: int
  hd_Dead :: bool
  hd_Spect :: bool
  hd_Results :: "ResultSnap list"

definition digit :: "int \<Rightarrow> char" where
  "digit n = ''0123456789'' ! nat n"

text \<open>The digits are written backwards into a buffer of eight bytes; \<open>i\<close> is the write position.\<close>

fun itoa_loop :: "nat \<Rightarrow> int \<Rightarrow> string \<Rightarrow> string option" where
  "itoa_loop 0 n acc = (if n > 0 then None else Some acc)"
| "itoa_loop (Suc i) n acc = (if n > 0 then itoa_loop i (n div 10) (digit (n mod 10) # acc) else Some acc)"

definition itoa :: "int \<Rightarrow> string option" where
  "itoa n = (if 0 \<le> n \<and> n \<le> 9 then Some [digit n]
     else if n < 0 then map_option (\<lambda>s. CHR ''-'' # s) (itoa_loop 8 (- n) [])
     else itoa_loop 8 n [])"

definition clampInt :: "int \<Rightarrow> int \<Rightarrow> int \<Rightarrow> int" where
  "clampInt v lo hi = (if v < lo then lo else if v > hi then hi else v)"

definition hud_row :: "u64 \<Rightarrow> BirdSnap \<Rightarrow> HUDRow" where
  "hud_row self b = \<lparr>hr_ID = bs_ID b, hr_Name = bs_Name b, hr_Score = bs_Score b, hr_Alive = \<not> bs_Dead b,
     hr_Left = bs_Left b, hr_Self = (bs_ID b = self), hr_Rank = 0\<rparr>"

definition hud_less :: "HUDRow \<Rightarrow> HUDRow \<Rightarrow> bool" where
  "hud_less a b = (if hr_Alive a \<noteq> hr_Alive b then hr_Alive a
     else if hr_Score a \<noteq> hr_Score b then hr_Score a > hr_Score b
     else hr_ID a < hr_ID b)"

definition hud_rows :: "u64 \<Rightarrow> BirdSnap list \<Rightarrow> HUDRow list" where
  "hud_rows self birds =
     (let rows = sort_slice hud_less (map (hud_row self) birds);
          rows = map2 (\<lambda>i r. r\<lparr>hr_Rank := int i + 1\<rparr>) [0..<length rows] rows
      in if length rows > MaxLeaderboardRows then take MaxLeaderboardRows rows else rows)"

text \<open>The own bird: score, death, and that there is one.\<close>

fun own_bird :: "u64 \<Rightarrow> BirdSnap list \<Rightarrow> HUD \<Rightarrow> HUD" where
  "own_bird self [] h = h"
| "own_bird self (b # bs) h = own_bird self bs
     (if bs_ID b = self then h\<lparr>hd_OwnScore := bs_Score b, hd_Dead := bs_Dead b, hd_Spect := False\<rparr> else h)"

definition DeriveHUD :: "Snapshot \<Rightarrow> int \<Rightarrow> u64 \<Rightarrow> HUD option" where
  "DeriveHUD snap serverNow self =
     (let h = \<lparr>hd_Countdown = [], hd_Go = False, hd_OwnScore = 0, hd_Rows = [], hd_Waiting = sn_Wait snap,
               hd_Dead = False, hd_Spect = False, hd_Results = sn_Res snap\<rparr>
      in do {
        h \<leftarrow> (case sn_St snap of
            StCountdown \<Rightarrow>
              (let remaining = sn_GoAt snap - serverNow in
               if remaining > 0
               then map_option (\<lambda>s. h\<lparr>hd_Countdown := s\<rparr>) (itoa (clampInt ((remaining + 999) div 1000) 1 3))
               else Some (h\<lparr>hd_Go := True\<rparr>))
          | StRacing \<Rightarrow> Some (if serverNow - sn_GoAt snap < 700 then h\<lparr>hd_Go := True\<rparr> else h)
          | _ \<Rightarrow> Some h);
        let h = own_bird self (sn_Birds snap) (h\<lparr>hd_Spect := True\<rparr>);
        Some (h\<lparr>hd_Rows := hud_rows self (sn_Birds snap)\<rparr>)
      })"

section \<open>Drawing it\<close>

record HUDState =
  ds_St :: race_state
  ds_Countdown :: string
  ds_Go :: bool
  ds_OwnScore :: int
  ds_Wait :: int
  ds_Dead :: bool
  ds_Spect :: bool
  ds_Rows :: "HUDRow list"
  ds_Results :: "ResultSnap list"

definition toDrawHUD :: "HUD \<Rightarrow> View \<Rightarrow> HUDState" where
  "toDrawHUD h v = \<lparr>ds_St = vw_St v, ds_Countdown = hd_Countdown h, ds_Go = hd_Go h, ds_OwnScore = hd_OwnScore h,
     ds_Wait = hd_Waiting h, ds_Dead = hd_Dead h, ds_Spect = hd_Spect h,
     ds_Rows = hd_Rows h, ds_Results = hd_Results h\<rparr>"

definition panelBG :: RGBA where "panelBG = (10, 14, 24, 110)"
definition textDim :: RGBA where "textDim = (255, 255, 255, 130)"
definition accGold :: RGBA where "accGold = (255, 217, 51, 255)"

definition em_dash :: string where "em_dash = [CHR 0xE2, CHR 0x80, CHR 0x94]"
definition ellipsis :: string where "ellipsis = [CHR 0xE2, CHR 0x80, CHR 0xA6]"

definition marked :: "string \<Rightarrow> bool \<Rightarrow> string" where
  "marked name left = (if left then name @ '' (left)'' else name)"

definition ranked :: "int \<Rightarrow> string \<Rightarrow> string" where
  "ranked r name = show_int r @ ''. '' @ name"

definition drawLeaderboard :: "HUDRow list \<Rightarrow> real \<Rightarrow> real \<Rightarrow> draw_cmd list" where
  "drawLeaderboard rows x y =
     [Fill (FillRect x y 186 (of_nat (14 + 20 * length rows)) panelBG),
      DrawText False ''Leaderboard'' 13 (x + 186 / 2) (y + 4) textDim True]
     @ concat (map2 (\<lambda>i r. let clr = (if hr_Alive r \<and> hr_Self r then accGold else textDim) in
         [DrawText True (ranked (hr_Rank r) (marked (hr_Name r) (hr_Left r))) 13 (x + 10) (y + 22 + of_nat i * 20) clr False,
          DrawText True (show_int (hr_Score r)) 13 (x + 186 - 14) (y + 22 + of_nat i * 20) clr False])
       [0..<length rows] rows)"

definition podium_color :: "int \<Rightarrow> RGBA" where
  "podium_color r = (if r = 1 then accGold else if r = 2 then (210, 210, 210, 255)
     else if r = 3 then (205, 130, 80, 255) else textDim)"

definition drawPodium :: "ResultSnap list \<Rightarrow> real \<Rightarrow> draw_cmd list" where
  "drawPodium res viewW =
     (if length res = 0 then []
      else (let h = of_nat (74 + 22 * length res); x = viewW / 2 - 130; y = of_int CanvasH * 32 / 100 - h / 2 in
        [Fill (FillRect x y 260 h panelBG), Fill (FillRect x y 260 2 accGold), Fill (FillRect x (y + h - 2) 260 2 accGold),
         DrawText True ''Race results'' 20 (x + 130) (y + 10) accGold True]
        @ concat (map2 (\<lambda>i r.
            [DrawText True (ranked (rs_Rank r) (marked (rs_Name r) (rs_Left r))) 16 (x + 18) (y + 42 + of_nat i * 22)
               (podium_color (rs_Rank r)) False,
             DrawText True (show_int (rs_Score r)) 16 (x + 242) (y + 42 + of_nat i * 22) (podium_color (rs_Rank r)) False])
          [0..<length res] res)
        @ [DrawText False (''next race starts in a moment'' @ ellipsis) 13 (x + 130) (y + h - 16) textDim True]))"

definition DrawHUD :: "Scenery \<Rightarrow> HUDState \<Rightarrow> real \<Rightarrow> draw_cmd list" where
  "DrawHUD sc h viewW =
     (let hudClr = HUDColor sc;
          (banners, y) =
        (if ds_Spect h \<and> ds_St h = StRacing
         then (let b = [DrawText True (''Race in progress '' @ em_dash @ '' you fly in the next one!'') 17 (viewW / 2) 64 hudClr True]
               in if ds_Wait h > 1
                  then (b @ [DrawText True (show_int (ds_Wait h) @ '' waiting for the next race'') 14 (viewW / 2) 88 hudClr True], 108)
                  else (b, 88))
         else if ds_Dead h
         then ([DrawText True (''You'' @ [CHR 0x27] @ ''re out '' @ em_dash @ '' spectating!'') 17 (viewW / 2) 64 hudClr True], 88)
         else ([], 64))
      in [DrawText True (show_int (ds_OwnScore h)) 44 (viewW / 2) 14 hudClr True]
         @ (if ds_Go h then [DrawText True (''LET'' @ [CHR 0x27] @ ''S GO!'') 46 (viewW / 2) 300 accGold True]
            else if ds_Countdown h \<noteq> [] then [DrawText True (ds_Countdown h) 110 (viewW / 2) 260 hudClr True] else [])
         @ banners
         @ drawLeaderboard (ds_Rows h) (viewW - 196) (y + 10)
         @ (if ds_St h = StFinished then drawPodium (ds_Results h) viewW else []))"

section \<open>Numbers\<close>

lemma digit_show: "0 \<le> n \<Longrightarrow> n < 10 \<Longrightarrow> digit n = mk_byte (48 + nat n)"
proof -
  assume n: "0 \<le> n" "n < 10"
  then have "nat n \<in> set [0..<10]" by simp
  moreover have "\<forall>k\<in>set [0..<10]. ''0123456789'' ! k = mk_byte (48 + k)"
    by (simp add: mk_byte_def upt_rec char_of_def bit_0)
  ultimately show ?thesis unfolding digit_def by blast
qed

lemma itoa_loop_show:
  "0 \<le> n \<Longrightarrow> itoa_loop k n acc = (if n < 10 ^ k then Some ((if n = 0 then [] else show_nat (nat n)) @ acc) else None)"
proof (induction k arbitrary: n acc)
  case (Suc k)
  show ?case
  proof (cases "n = 0")
    case False
    then have n: "0 < n" using Suc.prems by simp
    have d: "(n div 10 < 10 ^ k) = (n < 10 ^ Suc k)"
      using zdiv_mono1 [of n "10 ^ Suc k - 1" 10] by (auto simp: div_less_iff_less_mult)
    have dig: "digit (n mod 10) = mk_byte (48 + nat n mod 10)"
      using digit_show [of "n mod 10"] Suc.prems by (simp add: nat_mod_distrib)
    have "show_nat (nat n) = (if n div 10 = 0 then [] else show_nat (nat (n div 10))) @ [digit (n mod 10)]"
    proof (cases "n < 10")
      case True
      then have "nat n < 10" using n by simp
      then show ?thesis using dig n True by (subst show_nat.simps) simp
    next
      case False
      then show ?thesis using dig n by (subst show_nat.simps) (simp add: nat_div_distrib)
    qed
    then show ?thesis using Suc.IH [of "n div 10"] d n by auto
  qed simp
qed simp

text \<open>The buffer is large enough below 10^8 in absolute value, and only there.\<close>

lemma itoa_show: "itoa n = (if \<bar>n\<bar> < 10 ^ 8 then Some (show_int n) else None)"
proof -
  consider "0 \<le> n" "n \<le> 9" | "9 < n" | "n < 0" by linarith
  then show ?thesis
  proof cases
    case 1
    then show ?thesis by (simp add: itoa_def show_int_def digit_show show_nat.simps)
  next
    case 2
    then show ?thesis using itoa_loop_show [of n 8 "[]"] by (simp add: itoa_def show_int_def)
  next
    case 3
    then show ?thesis using itoa_loop_show [of "- n" 8 "[]"] by (simp add: itoa_def show_int_def)
  qed
qed

section \<open>The leaderboard\<close>

lemma hud_less_eq:
  "hud_less = (\<lambda>a b. hr_Alive a \<and> \<not> hr_Alive b \<or> hr_Alive a = hr_Alive b
     \<and> (hr_Score a > hr_Score b \<or> hr_Score a = hr_Score b \<and> hr_ID a < hr_ID b))"
  by (intro ext) (auto simp: hud_less_def)

interpretation live_board: key_order hud_less hr_ID
  by unfold_locales (auto simp: hud_less_def split: if_splits)

lemma own_bird_fields:
  "hd_Rows (own_bird i bs h) = hd_Rows h" "hd_Countdown (own_bird i bs h) = hd_Countdown h"
  "hd_Go (own_bird i bs h) = hd_Go h" "hd_Waiting (own_bird i bs h) = hd_Waiting h"
  "hd_Results (own_bird i bs h) = hd_Results h"
  "hd_Spect (own_bird i bs h) = (hd_Spect h \<and> i \<notin> bs_ID ` set bs)"
  by (induction bs arbitrary: h) auto

lemma own_bird_self:
  "distinct (map bs_ID bs) \<Longrightarrow> b \<in> set bs \<Longrightarrow> bs_ID b = i \<Longrightarrow>
   hd_OwnScore (own_bird i bs h) = bs_Score b \<and> hd_Dead (own_bird i bs h) = bs_Dead b"
proof (induction bs arbitrary: h)
  case (Cons c bs)
  have other: "i \<notin> bs_ID ` set cs \<Longrightarrow> hd_OwnScore (own_bird i cs h) = hd_OwnScore h \<and> hd_Dead (own_bird i cs h) = hd_Dead h"
    for cs h by (induction cs arbitrary: h) auto
  show ?case using Cons other by auto
qed simp

lemma hud_rows_take:
  "hud_rows i birds = take MaxLeaderboardRows
     (map2 (\<lambda>k r. r\<lparr>hr_Rank := int k + 1\<rparr>) [0..<length birds] (sort_slice hud_less (map (hud_row i) birds)))"
  by (simp add: hud_rows_def Let_def)

end
