(* ===== verification/Client_Game.thy ===== *)
theory Client_Game
  imports Client_Clock Client_HUD Client_Net "HOL-Library.Signed_Division"
begin

text \<open>
  \<^verbatim>\<open>internal/client/game.go\<close>: the game object, its update (start screen, network pump, reconnect
  state machine) and its frame. \<^verbatim>\<open>Client\<close> adds what the goroutines share with it: the
  session, the connections it has opened (a pointer is an index), the two result channels of
  capacity one (an option), and the dial goroutines in flight. Everything the library reads from the
  outside, key presses, clocks, window size, is an argument.
\<close>

section \<open>State\<close>

record Game =
  gm_net :: "nat option"
  gm_clk :: Clock
  gm_ring :: Ring
  gm_sprites :: Sprites
  gm_text :: "Texter option"
  gm_scenery :: "Scenery option"
  gm_themeID :: u8
  gm_seed :: u64
  gm_url :: string
  gm_name :: string
  gm_viewW :: int
  gm_frame :: u64
  gm_fatal :: string
  gm_lastErr :: string
  gm_entering :: bool
  gm_typed :: "nat list"
  gm_entryErr :: bool
  gm_board :: "TopEntry list"
  gm_boardLoaded :: bool
  gm_dialing :: bool
  gm_attempts :: int
  gm_nextTry :: "int option"
  gm_everConnected :: bool

text \<open>\<^verbatim>\<open>dialRes\<close>, and a dial goroutine: dialling for a name, or about to send its result.\<close>

datatype dial_result = Dialled nat | DialFailed string

datatype dial_task = Dialling string | Finished dial_result

record Client =
  cl_game :: Game
  cl_sess :: Sess
  cl_nets :: "Net list"
  cl_tasks :: "dial_task list"
  cl_dialRes :: "dial_result option"
  cl_boardCh :: "TopEntry list option"
  cl_fetching :: "string list"
  cl_joins :: "string list"

text \<open>One frame of input: the keys, buttons and touches that the library reports as just pressed, and the readings of the clocks: milliseconds for
  the \<open>k\<close>-th sample, nanoseconds for the pacing.\<close>

datatype key = KeySpace | KeyArrowUp | KeyW | KeyBackspace | KeyEnter | KeyNumpadEnter | MouseLeft

record Input =
  in_chars :: "nat list"
  in_keys :: "key list"
  in_touches :: nat
  in_millis :: "nat \<Rightarrow> int"
  in_now :: int

definition flapPressed :: "Input \<Rightarrow> bool" where
  "flapPressed inp =
     (if KeySpace \<in> set (in_keys inp) \<or> KeyArrowUp \<in> set (in_keys inp) \<or> KeyW \<in> set (in_keys inp) then True
      else if MouseLeft \<in> set (in_keys inp) then True
      else in_touches inp > 0)"

definition in_backspace :: "Input \<Rightarrow> bool" where
  "in_backspace inp \<longleftrightarrow> KeyBackspace \<in> set (in_keys inp)"

definition in_enter :: "Input \<Rightarrow> bool" where
  "in_enter inp \<longleftrightarrow> KeyEnter \<in> set (in_keys inp) \<or> KeyNumpadEnter \<in> set (in_keys inp)"

text \<open>Whether the embedded font loaded is the library's answer.\<close>

definition NewGame :: "bool \<Rightarrow> string \<Rightarrow> string \<Rightarrow> Game" where
  "NewGame font url name =
     \<lparr>gm_net = None, gm_clk = NewClock, gm_ring = NewRing, gm_sprites = fmempty, gm_text = (if font then Some NewText else None),
      gm_scenery = None, gm_themeID = 0, gm_seed = 0, gm_url = url, gm_name = name, gm_viewW = CanvasW,
      gm_frame = 0, gm_fatal = [], gm_lastErr = [], gm_entering = (name = []), gm_typed = [],
      gm_entryErr = False, gm_board = [], gm_boardLoaded = False, gm_dialing = False, gm_attempts = 0,
      gm_nextTry = None, gm_everConnected = False\<rparr>"

definition new_client :: "bool \<Rightarrow> string \<Rightarrow> string \<Rightarrow> Client" where
  "new_client font url name =
     \<lparr>cl_game = NewGame font url name, cl_sess = zero_sess, cl_nets = [], cl_tasks = [], cl_dialRes = None,
      cl_boardCh = None, cl_fetching = (if name = [] then [httpBase url] else []), cl_joins = []\<rparr>"

text \<open>How \<^verbatim>\<open>fetchBoard\<close> ends: nothing is delivered when the request or the decoding fails, nor when
  the channel is full.\<close>

definition fetchBoard :: "TopEntry list option \<Rightarrow> Client \<Rightarrow> Client" where
  "fetchBoard answer c = (case answer of
       None \<Rightarrow> c
     | Some top_list \<Rightarrow> (case cl_boardCh c of None \<Rightarrow> c\<lparr>cl_boardCh := Some top_list\<rparr> | Some _ \<Rightarrow> c))"

section \<open>Update\<close>

definition enterName :: "(nat \<Rightarrow> bool) \<Rightarrow> Input \<Rightarrow> Client \<Rightarrow> Client" where
  "enterName tbl inp c =
     (let g = cl_game c;
          g = (case cl_boardCh c of None \<Rightarrow> g | Some top_list \<Rightarrow> g\<lparr>gm_board := top_list, gm_boardLoaded := True\<rparr>);
          g = (if length (in_chars inp) > 0 \<or> in_backspace inp then g\<lparr>gm_entryErr := False\<rparr> else g);
          (typed, submitted) = applyNameInput tbl (gm_typed g) (in_chars inp) (in_backspace inp) (in_enter inp);
          g = g\<lparr>gm_typed := typed\<rparr>;
          g = (if submitted = [] then (if in_enter inp then g\<lparr>gm_entryErr := True\<rparr> else g)
               else g\<lparr>gm_name := submitted, gm_entering := False\<rparr>)
      in c\<lparr>cl_game := g, cl_boardCh := None\<rparr>)"

definition scheduleRetry :: "int \<Rightarrow> Game \<Rightarrow> Game" where
  "scheduleRetry now g = (let g = g\<lparr>gm_attempts := gm_attempts g + 1\<rparr> in
     g\<lparr>gm_nextTry := Some (now + retryDelay (gm_attempts g))\<rparr>)"

text \<open>The drain loop: each queued snapshot goes into the clock and the ring.\<close>

fun pump_snaps :: "(nat \<Rightarrow> int) \<Rightarrow> nat \<Rightarrow> Snapshot list \<Rightarrow> Game \<Rightarrow> Game" where
  "pump_snaps millis k [] g = g"
| "pump_snaps millis k (s # ss) g =
     pump_snaps millis (Suc k) ss (g\<lparr>gm_clk := Sample (sn_Now s) (millis k) (gm_clk g), gm_ring := Push s (gm_ring g)\<rparr>)"

definition pumpNet :: "Input \<Rightarrow> Client \<Rightarrow> Client option" where
  "pumpNet inp c = (case gm_net (cl_game c) of None \<Rightarrow> None | Some a \<Rightarrow>
     if a \<ge> length (cl_nets c) then None
     else (let n = cl_nets c ! a;
               g = pump_snaps (in_millis inp) 0 (nt_snap n) (cl_game c);
               n = n\<lparr>nt_snap := []\<rparr>
           in Some (case nt_err n of
               Some err \<Rightarrow>
                 (let n = n\<lparr>nt_err := None\<rparr>; g = g\<lparr>gm_net := None\<rparr>;
                      g = (case err of ErrFatal msg \<Rightarrow> g\<lparr>gm_fatal := msg\<rparr>
                           | NetLost _ \<Rightarrow> scheduleRetry (in_now inp) (g\<lparr>gm_lastErr := ''connection lost''\<rparr>))
                  in c\<lparr>cl_game := g, cl_nets := (cl_nets c)[a := n]\<rparr>)
             | None \<Rightarrow> c\<lparr>cl_game := g, cl_nets := (cl_nets c)[a := (if flapPressed inp then Flap n else n)]\<rparr>)))"

definition reconnect :: "Input \<Rightarrow> Client \<Rightarrow> Client" where
  "reconnect inp c =
     (let g = cl_game c in
      if \<not> gm_dialing g then
        (if (case gm_nextTry g of None \<Rightarrow> False | Some t \<Rightarrow> in_now inp < t) then c
         else (let name = se_name (cl_sess c); name = (if name = [] then gm_name g else name)
               in c\<lparr>cl_game := g\<lparr>gm_dialing := True\<rparr>, cl_tasks := cl_tasks c @ [Dialling name]\<rparr>))
      else (case cl_dialRes c of
          None \<Rightarrow> c
        | Some res \<Rightarrow>
            (let g = g\<lparr>gm_dialing := False\<rparr> in
             c\<lparr>cl_dialRes := None, cl_game := (case res of
                 DialFailed err \<Rightarrow> scheduleRetry (in_now inp) (g\<lparr>gm_lastErr := err\<rparr>)
               | Dialled a \<Rightarrow> g\<lparr>gm_net := Some a, gm_attempts := 0, gm_lastErr := [], gm_everConnected := True,
                                gm_ring := Reset (gm_ring g)\<rparr>)\<rparr>)))"

definition Update :: "(nat \<Rightarrow> bool) \<Rightarrow> Input \<Rightarrow> Client \<Rightarrow> Client option" where
  "Update tbl inp c =
     (let c = c\<lparr>cl_game := (cl_game c)\<lparr>gm_frame := gm_frame (cl_game c) + 1\<rparr>\<rparr> in
      if gm_entering (cl_game c) then Some (enterName tbl inp c)
      else if gm_fatal (cl_game c) \<noteq> [] then Some c
      else do {
        c \<leftarrow> (if gm_net (cl_game c) \<noteq> None then pumpNet inp c else Some c);
        Some (if gm_net (cl_game c) = None \<and> gm_fatal (cl_game c) = [] then reconnect inp c else c)
      })"

definition Layout :: "int \<Rightarrow> int \<Rightarrow> Game \<Rightarrow> (int \<times> int) \<times> Game" where
  "Layout outsideWidth outsideHeight g =
     (let w = of_int CanvasW;
          w = (if outsideWidth > 0 \<and> outsideHeight > 0
               then fmul (fdiv (rnd64 (of_int outsideWidth)) (rnd64 (of_int outsideHeight))) (of_int CanvasH) else w);
          w = (if w < of_int ViewMinW then of_int ViewMinW else if w > of_int ViewMaxW then of_int ViewMaxW else w);
          g = g\<lparr>gm_viewW := go_round w\<rparr>
      in ((gm_viewW g, CanvasH), g))"

section \<open>Draw\<close>

definition otherBirdAlpha :: f32 where "otherBirdAlpha = rnd32 (55 / 100)"
definition hudNeutralColor :: RGBA where "hudNeutralColor = (255, 255, 255, 255)"
definition hudErrorColor :: RGBA where "hudErrorColor = (255, 120, 110, 255)"
definition hudErrorSubColor :: RGBA where "hudErrorSubColor = (255, 190, 185, 220)"
definition entrySubColor :: RGBA where "entrySubColor = (159, 176, 216, 255)"
definition backdrop :: RGBA where "backdrop = (11, 16, 32, 255)"
definition en_dash :: string where "en_dash = [CHR 0xE2, CHR 0x80, CHR 0x93]"

definition viewMid :: "Game \<Rightarrow> real" where "viewMid g = of_int (gm_viewW g) / 2"

definition ensureScenery :: "u8 \<Rightarrow> u64 \<Rightarrow> Game \<Rightarrow> Game option" where
  "ensureScenery theme seed g =
     (if gm_scenery g \<noteq> None \<and> gm_themeID g = theme \<and> gm_seed g = seed then Some g
      else map_option (\<lambda>sc. g\<lparr>gm_scenery := Some sc, gm_themeID := theme, gm_seed := seed\<rparr>) (BuildScenery theme seed))"

text \<open>The left edges of the tiles.\<close>

function tile_xs :: "int \<Rightarrow> int \<Rightarrow> int \<Rightarrow> int list" where
  "tile_xs w viewW x = (if x < viewW \<and> 0 < w then x # tile_xs w viewW (x + w) else [])"
  by pat_completeness auto
termination by (relation "measure (\<lambda>(w, viewW, x). nat (viewW - x))") auto

declare tile_xs.simps [simp del]

definition drawTiled :: "int \<Rightarrow> image \<Rightarrow> f64 \<Rightarrow> f64 \<Rightarrow> draw_cmd list option" where
  "drawTiled viewW layer shift y =
     (let w = image_width layer in
      if w = 0 then None
      else (let off = w - go_trunc shift smod w
            in Some (map (\<lambda>x. Blit layer (of_int x) y) (tile_xs w viewW (- off)))))"

definition drawBird :: "u64 \<Rightarrow> BirdView \<Rightarrow> f32 \<Rightarrow> Sprites \<Rightarrow> (draw_cmd list \<times> Sprites) option" where
  "drawBird frameNo b alpha m =
     (let frame = (if bv_Flap b then ucast ((frameNo div 5) mod 3) else 1) in do {
        (img, m) \<leftarrow> sprites_Get (bv_Pal b) (bv_Acc b) frame m;
        Some ([BlitSprite img (BirdRotation (bv_Vy b)) BirdX (bv_Y b) alpha,
               DrawText True (bv_Name b) 12 BirdX (fsub (bv_Y b) NameOffset)
                 (if bv_Dead b then hudErrorSubColor else hudNeutralColor) True], m) })"

fun drawBirds :: "u64 \<Rightarrow> f32 \<Rightarrow> BirdView list \<Rightarrow> Sprites \<Rightarrow> (draw_cmd list \<times> Sprites) option" where
  "drawBirds frameNo alpha [] m = Some ([], m)"
| "drawBirds frameNo alpha (b # bs) m = do {
     (c, m) \<leftarrow> drawBird frameNo b alpha m;
     (cs, m) \<leftarrow> drawBirds frameNo alpha bs m;
     Some (c @ cs, m) }"

definition own_live :: "u64 \<Rightarrow> BirdView \<Rightarrow> bool" where
  "own_live selfID b \<longleftrightarrow> bv_ID b = selfID \<and> \<not> bv_Dead b"

definition drawWorld :: "int \<Rightarrow> Sess \<Rightarrow> Snapshot \<Rightarrow> Game \<Rightarrow> (draw_cmd list \<times> Game) option" where
  "drawWorld millis sess newest g =
     (let serverNow = ServerNow millis (gm_clk g) in
      case Interp (serverNow - InterpDelayMs) (gm_ring g) of
        None \<Rightarrow> Some ([], g)
      | Some view \<Rightarrow> do {
          g \<leftarrow> ensureScenery (vw_Theme view) (vw_Seed view) g;
          sc \<leftarrow> gm_scenery g;
          let selfID = fst (Sess_Get sess);
          far \<leftarrow> drawTiled (gm_viewW g) (sc_Far sc) (fmul (vw_Dist view) (rnd64 (15 / 100))) 0;
          mid \<leftarrow> drawTiled (gm_viewW g) (sc_Mid sc) (fmul (vw_Dist view) (rnd64 (35 / 100))) 0;
          let pipes = concat (map (\<lambda>p. DrawPipe sc (rnd32 (pv_X p)) (rnd32 (pv_GapY p)) (rnd32 (pv_GapH p))) (vw_Pipes view));
          (others, m) \<leftarrow> drawBirds (gm_frame g) otherBirdAlpha (filter (\<lambda>b. \<not> own_live selfID b) (vw_Birds view)) (gm_sprites g);
          (own, m) \<leftarrow> drawBirds (gm_frame g) 1 (filter (own_live selfID) (vw_Birds view)) m;
          ground \<leftarrow> drawTiled (gm_viewW g) (sc_Ground sc) (vw_Dist view) GroundY;
          hud \<leftarrow> DeriveHUD newest serverNow selfID;
          Some ([BlitStretched (sc_Sky sc) (fdiv (of_int (gm_viewW g)) (of_int CanvasW))] @ far @ mid @ map Fill pipes
                @ others @ own @ ground @ DrawHUD sc (toDrawHUD hud view) (of_int (gm_viewW g)),
                g\<lparr>gm_sprites := m\<rparr>) })"

definition drawFrozen :: "int \<Rightarrow> Sess \<Rightarrow> string \<Rightarrow> string \<Rightarrow> RGBA \<Rightarrow> RGBA \<Rightarrow> Game \<Rightarrow> (draw_cmd list \<times> Game) option" where
  "drawFrozen millis sess title sub titleClr subClr g = do {
     (cs, g) \<leftarrow> (case Newest (gm_ring g) of Some newest \<Rightarrow> drawWorld millis sess newest g | None \<Rightarrow> Some ([FillScreen backdrop], g));
     Some (cs @ [DrawText True title 30 (viewMid g) 360 titleClr True, DrawText False sub 14 (viewMid g) 404 subClr True], g) }"

definition reconnStatus :: "Game \<Rightarrow> string \<times> string" where
  "reconnStatus g =
     (if \<not> gm_everConnected g then (''Connecting'', ''waiting for the server'' @ ellipsis)
      else if gm_attempts g = 0 then (''Reconnecting'', ''connection lost '' @ em_dash @ '' retrying'' @ ellipsis)
      else (''Reconnecting'', ''attempt '' @ show_int (gm_attempts g) @ '' '' @ em_dash @ '' '' @ gm_lastErr g))"

definition drawEntry :: "Game \<Rightarrow> draw_cmd list" where
  "drawEntry g =
     (let cx = viewMid g;
          typed = of_runes (gm_typed g);
          (line, clr) = (if typed = [] then (''e.g. Swift Falcon'', entrySubColor)
                         else (if gm_frame g div 30 mod 2 = 0 then typed @ ''_'' else typed, hudNeutralColor))
      in [FillScreen backdrop, DrawText True ''Flappy Race'' 30 cx 262 hudNeutralColor True,
          DrawText False (''space, click or tap to flap '' @ em_dash @ '' every pipe counts'') 14 cx 298 entrySubColor True,
          DrawText False ''Your name (shown on the leaderboard)'' 12 cx 356 entrySubColor True,
          DrawText False line 18 cx 388 clr True]
         @ (if gm_entryErr g then [DrawText False (''pick a name (1'' @ en_dash @ ''16 characters)'') 13 cx 418 hudErrorColor True] else [])
         @ (if \<not> gm_boardLoaded g then []
            else DrawText False ''ALL-TIME TOP 10'' 12 cx 466 entrySubColor True
              # (if length (gm_board g) = 0 then [DrawText False (''no races yet '' @ em_dash @ '' be the first!'') 13 cx 492 entrySubColor True]
                 else map2 (\<lambda>i e. DrawText False (show_int (int i + 1) @ ''. '' @ te_Name e @ '' '' @ em_dash @ '' '' @ show_int (te_Score e))
                        13 cx (of_nat (492 + 22 * i)) hudNeutralColor True) [0..<min 10 (length (gm_board g))] (gm_board g))))"

definition frame_cmds :: "int \<Rightarrow> Sess \<Rightarrow> Game \<Rightarrow> (draw_cmd list \<times> Game) option" where
  "frame_cmds millis sess g =
     (if gm_entering g then Some (drawEntry g, g)
      else if gm_fatal g \<noteq> [] then drawFrozen millis sess ''Disconnected'' (gm_fatal g) hudErrorColor hudErrorSubColor g
      else if gm_net g = None then
        (let (title, sub) = reconnStatus g in drawFrozen millis sess title sub hudNeutralColor hudNeutralColor g)
      else (case Newest (gm_ring g) of
          None \<Rightarrow> (let name = se_name sess; name = (if name = [] then ellipsis else name) in
            Some ([DrawText True ''Connecting'' 28 (viewMid g) 380 hudNeutralColor True,
                   DrawText False (''flapping as '' @ name) 15 (viewMid g) 420 hudNeutralColor True], g))
        | Some newest \<Rightarrow> drawWorld millis sess newest g))"

text \<open>A frame: its commands, the label images its texts come to, and the game with its caches.\<close>

definition Draw :: "(string \<Rightarrow> real \<Rightarrow> f64 \<times> f64) \<Rightarrow> int \<Rightarrow> Sess \<Rightarrow> Game
    \<Rightarrow> (draw_cmd list \<times> (labelImg \<times> f64 \<times> f64) list \<times> Game) option" where
  "Draw msr millis sess g = (case gm_text g of
       None \<Rightarrow> Some ([], [], g)
     | Some t \<Rightarrow> do {
         (cs, g) \<leftarrow> frame_cmds millis sess g;
         let (bs, t) = draw_texts msr cs t;
         Some (cs, bs, g\<lparr>gm_text := Some t\<rparr>) })"

end
