(* ===== verification/Client_Run.thy ===== *)
theory Client_Run
  imports Client_Game
begin

text \<open>
  The running client: the render loop's updates, frames and resizes interleaved with the dial, read,
  write and fetch goroutines. The parameters are the printable-rune table, the font's measure and the
  messages the server may send. The invariant is proved once; the properties read it off.
\<close>

section \<open>Steps\<close>

definition set_net :: "nat \<Rightarrow> Net \<Rightarrow> Client \<Rightarrow> Client" where
  "set_net a n c = c\<lparr>cl_nets := (cl_nets c)[a := n]\<rparr>"

inductive client_step :: "(nat \<Rightarrow> bool) \<Rightarrow> (string \<Rightarrow> real \<Rightarrow> f64 \<times> f64) \<Rightarrow> (incoming \<Rightarrow> bool) \<Rightarrow> Client \<Rightarrow> Client \<Rightarrow> bool"
  for tbl msr srv where
  update: "Update tbl inp c = Some c' \<Longrightarrow> client_step tbl msr srv c c'"
| draw: "Draw msr millis (cl_sess c) (cl_game c) = Some (cs, bs, g) \<Longrightarrow> client_step tbl msr srv c (c\<lparr>cl_game := g\<rparr>)"
| resize: "client_step tbl msr srv c (c\<lparr>cl_game := snd (Layout w h (cl_game c))\<rparr>)"
| dial_ok: "cl_tasks c = ts @ Dialling name # us \<Longrightarrow>
    client_step tbl msr srv c (c\<lparr>cl_nets := cl_nets c @ [NewNet], cl_joins := cl_joins c @ [name],
      cl_tasks := ts @ Finished (Dialled (length (cl_nets c))) # us\<rparr>)"
| dial_fail: "cl_tasks c = ts @ Dialling name # us \<Longrightarrow>
    client_step tbl msr srv c (c\<lparr>cl_tasks := ts @ Finished (DialFailed err) # us\<rparr>)"
| dial_send: "cl_tasks c = ts @ Finished res # us \<Longrightarrow> cl_dialRes c = None \<Longrightarrow>
    client_step tbl msr srv c (c\<lparr>cl_dialRes := Some res, cl_tasks := ts @ us\<rparr>)"
| receive: "a < length (cl_nets c) \<Longrightarrow> \<not> nt_closed (cl_nets c ! a) \<Longrightarrow> srv m \<Longrightarrow>
    read_message m (cl_nets c ! a) (cl_sess c) = (n, s) \<Longrightarrow>
    client_step tbl msr srv c (set_net a n (c\<lparr>cl_sess := s\<rparr>))"
| send: "a < length (cl_nets c) \<Longrightarrow> write_command failure (cl_nets c ! a) = Some (msg, n) \<Longrightarrow>
    client_step tbl msr srv c (set_net a n c)"
| fetched: "cl_fetching c = base # rest \<Longrightarrow>
    client_step tbl msr srv c (fetchBoard answer (c\<lparr>cl_fetching := rest\<rparr>))"

inductive client_run :: "(nat \<Rightarrow> bool) \<Rightarrow> (string \<Rightarrow> real \<Rightarrow> f64 \<times> f64) \<Rightarrow> (incoming \<Rightarrow> bool) \<Rightarrow> Client \<Rightarrow> Client \<Rightarrow> bool"
  for tbl msr srv c0 where
  start: "client_run tbl msr srv c0 c0"
| step: "client_run tbl msr srv c0 c \<Longrightarrow> client_step tbl msr srv c c' \<Longrightarrow> client_run tbl msr srv c0 c'"

section \<open>The invariant\<close>

fun opened :: "nat \<Rightarrow> dial_result \<Rightarrow> bool" where
  "opened n (Dialled a) = (a < n)"
| "opened n (DialFailed _) = True"

fun task_ok :: "nat \<Rightarrow> dial_task \<Rightarrow> bool" where
  "task_ok n (Dialling _) = True"
| "task_ok n (Finished r) = opened n r"

text \<open>One attempt at a time: the goroutine or its result, exactly while \<^verbatim>\<open>dialing\<close> is set, and never
  beside a connection, the start screen or a rejection.\<close>

definition dial_inv :: "Client \<Rightarrow> bool" where
  "dial_inv c \<longleftrightarrow>
     length (cl_tasks c) + (if cl_dialRes c = None then 0 else 1) = (if gm_dialing (cl_game c) then 1 else 0)
     \<and> list_all (task_ok (length (cl_nets c))) (cl_tasks c)
     \<and> pred_option (opened (length (cl_nets c))) (cl_dialRes c)
     \<and> pred_option (\<lambda>a. a < length (cl_nets c) \<and> gm_everConnected (cl_game c)) (gm_net (cl_game c))
     \<and> (gm_net (cl_game c) \<noteq> None \<or> gm_entering (cl_game c) \<or> gm_fatal (cl_game c) \<noteq> [] \<longrightarrow> \<not> gm_dialing (cl_game c))
     \<and> (gm_entering (cl_game c) \<or> gm_fatal (cl_game c) \<noteq> [] \<longrightarrow> gm_net (cl_game c) = None)
     \<and> (gm_entering (cl_game c) \<longrightarrow> gm_fatal (cl_game c) = []) \<and> 0 \<le> gm_attempts (cl_game c)"

definition net_ok :: "Net \<Rightarrow> bool" where
  "net_ok n \<longleftrightarrow> length (nt_cmd n) \<le> cmdCap \<and> length (nt_snap n) \<le> RingLen"

definition queues_inv :: "Client \<Rightarrow> bool" where
  "queues_inv c \<longleftrightarrow> list_all net_ok (cl_nets c)
     \<and> ring_inv (gm_ring (cl_game c)) \<and> length (gm_typed (cl_game c)) \<le> MaxNameLen"

definition cache_inv :: "(string \<Rightarrow> real \<Rightarrow> f64 \<times> f64) \<Rightarrow> Game \<Rightarrow> bool" where
  "cache_inv msr g \<longleftrightarrow> pred_option (text_inv msr) (gm_text g)
     \<and> sprites_inv (gm_sprites g)
     \<and> pred_option (\<lambda>sc. BuildScenery (gm_themeID g) (gm_seed g) = Some sc) (gm_scenery g)"

definition client_inv :: "(string \<Rightarrow> real \<Rightarrow> f64 \<times> f64) \<Rightarrow> Client \<Rightarrow> bool" where
  "client_inv msr c \<longleftrightarrow> dial_inv c \<and> queues_inv c \<and> cache_inv msr (cl_game c)"

section \<open>What the parts of an update change\<close>

lemma pump_snaps_fields [simp]:
  "gm_net (pump_snaps f k ss g) = gm_net g" "gm_dialing (pump_snaps f k ss g) = gm_dialing g"
  "gm_fatal (pump_snaps f k ss g) = gm_fatal g" "gm_entering (pump_snaps f k ss g) = gm_entering g"
  "gm_everConnected (pump_snaps f k ss g) = gm_everConnected g" "gm_typed (pump_snaps f k ss g) = gm_typed g"
  "gm_text (pump_snaps f k ss g) = gm_text g" "gm_sprites (pump_snaps f k ss g) = gm_sprites g"
  "gm_scenery (pump_snaps f k ss g) = gm_scenery g" "gm_themeID (pump_snaps f k ss g) = gm_themeID g"
  "gm_seed (pump_snaps f k ss g) = gm_seed g" "gm_attempts (pump_snaps f k ss g) = gm_attempts g"
  "gm_nextTry (pump_snaps f k ss g) = gm_nextTry g" "gm_name (pump_snaps f k ss g) = gm_name g"
  by (induction ss arbitrary: k g) simp_all

lemma pump_snaps_ring: "gm_ring (pump_snaps f k ss g) = fold Push ss (gm_ring g)"
  by (induction ss arbitrary: k g) simp_all

lemma fold_Push_inv: "ring_inv r \<Longrightarrow> ring_inv (fold Push ss r)"
  by (induction ss arbitrary: r) (auto intro: Push_inv)

lemma scheduleRetry_fields [simp]:
  "gm_net (scheduleRetry t g) = gm_net g" "gm_dialing (scheduleRetry t g) = gm_dialing g"
  "gm_fatal (scheduleRetry t g) = gm_fatal g" "gm_entering (scheduleRetry t g) = gm_entering g"
  "gm_everConnected (scheduleRetry t g) = gm_everConnected g" "gm_typed (scheduleRetry t g) = gm_typed g"
  "gm_text (scheduleRetry t g) = gm_text g" "gm_sprites (scheduleRetry t g) = gm_sprites g"
  "gm_scenery (scheduleRetry t g) = gm_scenery g" "gm_themeID (scheduleRetry t g) = gm_themeID g"
  "gm_seed (scheduleRetry t g) = gm_seed g" "gm_attempts (scheduleRetry t g) = gm_attempts g + 1"
  "gm_nextTry (scheduleRetry t g) = Some (t + retryDelay (gm_attempts g + 1))"
  "gm_ring (scheduleRetry t g) = gm_ring g" "gm_name (scheduleRetry t g) = gm_name g"
  "gm_lastErr (scheduleRetry t g) = gm_lastErr g"
  by (simp_all add: scheduleRetry_def Let_def)

lemma Reset_inv: "ring_inv (Reset r)"
  by (simp add: Reset_def ring_inv_def)

lemma Flap_queues: "length (nt_cmd n) \<le> cmdCap \<Longrightarrow> length (nt_cmd (Flap n)) \<le> cmdCap"
  by (simp add: Flap_def)

lemma Flap_snap [simp]: "nt_snap (Flap n) = nt_snap n" "nt_err (Flap n) = nt_err n"
  by (simp_all add: Flap_def)

lemma cache_inv_keep:
  "cache_inv msr g \<Longrightarrow> gm_text g' = gm_text g \<Longrightarrow> gm_sprites g' = gm_sprites g \<Longrightarrow> gm_scenery g' = gm_scenery g \<Longrightarrow>
   gm_themeID g' = gm_themeID g \<Longrightarrow> gm_seed g' = gm_seed g \<Longrightarrow> cache_inv msr g'"
  by (simp add: cache_inv_def)

section \<open>Updates\<close>

lemma enterName_eq:
  assumes a: "applyNameInput tbl (gm_typed (cl_game c)) (in_chars inp) (in_backspace inp) (in_enter inp) = (t, sub)"
  shows "enterName tbl inp c = c\<lparr>cl_boardCh := None, cl_game := (cl_game c)\<lparr>
     gm_board := (case cl_boardCh c of None \<Rightarrow> gm_board (cl_game c) | Some b \<Rightarrow> b),
     gm_boardLoaded := (gm_boardLoaded (cl_game c) \<or> cl_boardCh c \<noteq> None), gm_typed := t,
     gm_entryErr := (if sub = [] \<and> in_enter inp then True
        else gm_entryErr (cl_game c) \<and> \<not> (length (in_chars inp) > 0 \<or> in_backspace inp)),
     gm_name := (if sub = [] then gm_name (cl_game c) else sub),
     gm_entering := (sub = [] \<and> gm_entering (cl_game c))\<rparr>\<rparr>"
proof -
  obtain g where g: "cl_game c = g" by blast
  define typing where "typing \<longleftrightarrow> length (in_chars inp) > 0 \<or> in_backspace inp"
  show ?thesis
    using a unfolding enterName_def Let_def typing_def [symmetric]
    by (cases g; cases "cl_boardCh c"; cases typing; cases "sub = []"; cases "in_enter inp"; simp add: g)
qed

lemma enterName_inv:
  assumes "client_inv msr c" "gm_entering (cl_game c)"
  shows "client_inv msr (enterName tbl inp c)"
proof -
  obtain t sub where a:
    "applyNameInput tbl (gm_typed (cl_game c)) (in_chars inp) (in_backspace inp) (in_enter inp) = (t, sub)" by fastforce
  have "length t \<le> 16" using applyNameInput_length [OF _ a] assms(1) by (simp add: client_inv_def queues_inv_def)
  then show ?thesis
    using assms by (simp add: enterName_eq [OF a] client_inv_def dial_inv_def queues_inv_def cache_inv_def)
qed

text \<open>The three ways a pump ends.\<close>

lemma pumpNet_cases:
  fixes inp :: Input
  assumes "gm_net (cl_game c) = Some a" "a < length (cl_nets c)"
  defines "n \<equiv> (cl_nets c ! a)\<lparr>nt_snap := []\<rparr>"
  defines "g \<equiv> pump_snaps (in_millis inp) 0 (nt_snap (cl_nets c ! a)) (cl_game c)"
  obtains (lost) e where "nt_err n = Some (NetLost e)" "pumpNet inp c = Some (set_net a (n\<lparr>nt_err := None\<rparr>)
      (c\<lparr>cl_game := scheduleRetry (in_now inp) (g\<lparr>gm_net := None, gm_lastErr := ''connection lost''\<rparr>)\<rparr>))"
  | (refused) msg where "nt_err n = Some (ErrFatal msg)"
      "pumpNet inp c = Some (set_net a (n\<lparr>nt_err := None\<rparr>) (c\<lparr>cl_game := g\<lparr>gm_net := None, gm_fatal := msg\<rparr>\<rparr>))"
  | (alive) "nt_err n = None" "pumpNet inp c = Some (set_net a (if flapPressed inp then Flap n else n) (c\<lparr>cl_game := g\<rparr>))"
proof (cases "nt_err n")
  case None
  then show thesis using alive assms(1,2) by (simp add: pumpNet_def Let_def set_net_def n_def g_def)
next
  case (Some err)
  then show thesis using lost refused assms(1,2)
    by (cases err) (simp_all add: pumpNet_def Let_def set_net_def n_def g_def)
qed

text \<open>The four ways a disconnected update ends.\<close>

lemma reconnect_cases:
  obtains (wait) "reconnect inp c = c"
      "gm_dialing (cl_game c) \<and> cl_dialRes c = None \<or> \<not> gm_dialing (cl_game c) \<and> (\<exists>t. gm_nextTry (cl_game c) = Some t \<and> in_now inp < t)"
  | (dial) name where "\<not> gm_dialing (cl_game c)" "\<And>t. gm_nextTry (cl_game c) = Some t \<Longrightarrow> t \<le> in_now inp"
      "name = (if se_name (cl_sess c) = [] then gm_name (cl_game c) else se_name (cl_sess c))"
      "reconnect inp c = c\<lparr>cl_game := (cl_game c)\<lparr>gm_dialing := True\<rparr>, cl_tasks := cl_tasks c @ [Dialling name]\<rparr>"
  | (failed) err where "gm_dialing (cl_game c)" "cl_dialRes c = Some (DialFailed err)"
      "reconnect inp c = c\<lparr>cl_dialRes := None,
         cl_game := scheduleRetry (in_now inp) ((cl_game c)\<lparr>gm_dialing := False, gm_lastErr := err\<rparr>)\<rparr>"
  | (connected) a where "gm_dialing (cl_game c)" "cl_dialRes c = Some (Dialled a)"
      "reconnect inp c = c\<lparr>cl_dialRes := None, cl_game := (cl_game c)\<lparr>gm_dialing := False, gm_net := Some a,
         gm_attempts := 0, gm_lastErr := [], gm_everConnected := True, gm_ring := []\<rparr>\<rparr>"
proof (cases "gm_dialing (cl_game c)")
  case True
  then show thesis
  proof (cases "cl_dialRes c")
    case None
    then show thesis using True wait by (simp add: reconnect_def Let_def)
  next
    case (Some r)
    then show thesis using True failed connected by (cases r) (simp_all add: reconnect_def Let_def Reset_def)
  qed
next
  case False
  then show thesis
  proof (cases "case gm_nextTry (cl_game c) of None \<Rightarrow> False | Some t \<Rightarrow> in_now inp < t")
    case True
    then show thesis using False by (intro wait) (auto simp: reconnect_def Let_def split: option.splits)
  next
    case wait_over: False
    show thesis using False wait_over by (intro dial) (auto simp: reconnect_def Let_def split: option.splits)
  qed
qed

lemma list_all_update: "list_all P xs \<Longrightarrow> P x \<Longrightarrow> list_all P (xs[i := x])"
  by (auto simp: list_all_iff dest!: set_update_subset_insert [THEN subsetD])

lemma set_net_fields [simp]:
  "cl_game (set_net a n c) = cl_game c" "cl_sess (set_net a n c) = cl_sess c" "cl_tasks (set_net a n c) = cl_tasks c"
  "cl_dialRes (set_net a n c) = cl_dialRes c" "cl_joins (set_net a n c) = cl_joins c"
  "length (cl_nets (set_net a n c)) = length (cl_nets c)" "cl_nets (set_net a n c) = (cl_nets c)[a := n]"
  by (simp_all add: set_net_def)

lemma set_net_inv: "client_inv msr c \<Longrightarrow> net_ok n \<Longrightarrow> client_inv msr (set_net a n c)"
  by (simp add: client_inv_def dial_inv_def queues_inv_def list_all_update)

lemma pumpNet_inv:
  assumes "client_inv msr c" "gm_net (cl_game c) \<noteq> None"
  shows "\<exists>c'. pumpNet inp c = Some c' \<and> client_inv msr c' \<and> gm_entering (cl_game c') = gm_entering (cl_game c)"
proof -
  obtain a where a: "gm_net (cl_game c) = Some a" using assms(2) by blast
  then have la: "a < length (cl_nets c)" using assms(1) by (simp add: client_inv_def dial_inv_def)
  have q: "net_ok (cl_nets c ! a)" using assms(1) la by (simp add: client_inv_def queues_inv_def list_all_length)
  have r: "ring_inv (fold Push (nt_snap (cl_nets c ! a)) (gm_ring (cl_game c)))"
    using assms(1) by (intro fold_Push_inv) (simp add: client_inv_def queues_inv_def)
  define g where "g = pump_snaps (in_millis inp) 0 (nt_snap (cl_nets c ! a)) (cl_game c)"
  have game: "client_inv msr (c\<lparr>cl_game := g\<lparr>gm_net := None, gm_fatal := msg\<rparr>\<rparr>)"
    "client_inv msr (c\<lparr>cl_game := scheduleRetry t (g\<lparr>gm_net := None, gm_lastErr := e\<rparr>)\<rparr>)"
    "client_inv msr (c\<lparr>cl_game := g\<rparr>)" for msg t e
    using assms(1) a r by (simp_all add: g_def client_inv_def dial_inv_def queues_inv_def cache_inv_def pump_snaps_ring)
  have cleared: "net_ok ((cl_nets c ! a)\<lparr>nt_snap := [], nt_err := None\<rparr>)" "net_ok ((cl_nets c ! a)\<lparr>nt_snap := []\<rparr>)"
    "net_ok (Flap ((cl_nets c ! a)\<lparr>nt_snap := []\<rparr>))" using q Flap_queues by (simp_all add: net_ok_def)
  from a la show ?thesis
  proof (cases rule: pumpNet_cases [where inp = inp])
    case (lost e)
    then show ?thesis using set_net_inv [OF game(2) cleared(1)] by (simp add: g_def)
  next
    case (refused msg)
    then show ?thesis using set_net_inv [OF game(1) cleared(1)] by (simp add: g_def)
  next
    case alive
    then show ?thesis using set_net_inv [OF game(3) cleared(2)] set_net_inv [OF game(3) cleared(3)] by (simp add: g_def)
  qed
qed

lemma reconnect_inv:
  assumes "client_inv msr c" "gm_net (cl_game c) = None" "gm_fatal (cl_game c) = []" "\<not> gm_entering (cl_game c)"
  shows "client_inv msr (reconnect inp c)"
proof (cases rule: reconnect_cases [of inp c])
  case wait
  then show ?thesis using assms(1) by simp
next
  case (dial name)
  then show ?thesis using assms by (simp add: client_inv_def dial_inv_def queues_inv_def cache_inv_def split: if_splits)
next
  case (failed err)
  then show ?thesis using assms by (simp add: client_inv_def dial_inv_def queues_inv_def cache_inv_def)
next
  case (connected a)
  then show ?thesis using assms by (simp add: client_inv_def dial_inv_def queues_inv_def cache_inv_def ring_inv_def)
qed

lemma client_inv_frame:
  "client_inv msr c \<Longrightarrow> client_inv msr (c\<lparr>cl_game := (cl_game c)\<lparr>gm_frame := k\<rparr>\<rparr>)"
  by (simp add: client_inv_def dial_inv_def queues_inv_def cache_inv_def)

text \<open>An update completes and keeps the invariant.\<close>

lemma Update_inv:
  assumes "client_inv msr c"
  shows "\<exists>c'. Update tbl inp c = Some c' \<and> client_inv msr c'"
proof -
  define c1 where "c1 = c\<lparr>cl_game := (cl_game c)\<lparr>gm_frame := gm_frame (cl_game c) + 1\<rparr>\<rparr>"
  have c1: "client_inv msr c1" unfolding c1_def by (rule client_inv_frame [OF assms])
  consider "gm_entering (cl_game c1)" | "\<not> gm_entering (cl_game c1)" "gm_fatal (cl_game c1) \<noteq> []"
    | "\<not> gm_entering (cl_game c1)" "gm_fatal (cl_game c1) = []" by blast
  then show ?thesis
  proof cases
    case 1
    then show ?thesis using enterName_inv [OF c1] by (simp add: Update_def flip: c1_def)
  next
    case 2
    then show ?thesis using c1 by (simp add: Update_def flip: c1_def)
  next
    case 3
    obtain c2 where c2: "(if gm_net (cl_game c1) \<noteq> None then pumpNet inp c1 else Some c1) = Some c2" "client_inv msr c2"
      "\<not> gm_entering (cl_game c2)"
      using pumpNet_inv [OF c1, of inp] c1 3 by (cases "gm_net (cl_game c1)") auto
    then have "Update tbl inp c = Some (if gm_net (cl_game c2) = None \<and> gm_fatal (cl_game c2) = [] then reconnect inp c2 else c2)"
      using 3 by (simp add: Update_def flip: c1_def)
    then show ?thesis using c2(2,3) reconnect_inv [OF c2(2)] by auto
  qed
qed

section \<open>Frames\<close>

definition same_but_caches :: "Game \<Rightarrow> Game \<Rightarrow> bool" where
  "same_but_caches g g' \<longleftrightarrow> g' = g\<lparr>gm_sprites := gm_sprites g', gm_text := gm_text g', gm_scenery := gm_scenery g',
     gm_themeID := gm_themeID g', gm_seed := gm_seed g'\<rparr>"

lemma same_but_caches_text: "same_but_caches g g' \<Longrightarrow> same_but_caches g (g'\<lparr>gm_text := t\<rparr>)"
  by (cases g; cases g') (simp add: same_but_caches_def)

text \<open>The commands of one bird without the cache.\<close>

definition bird_cmds :: "u64 \<Rightarrow> f32 \<Rightarrow> BirdView \<Rightarrow> draw_cmd list" where
  "bird_cmds frameNo alpha b =
     [BlitSprite (the (birdSprite (bv_Pal b) (bv_Acc b) (if bv_Flap b then ucast ((frameNo div 5) mod 3) else 1)))
        (BirdRotation (bv_Vy b)) BirdX (bv_Y b) alpha,
      DrawText True (bv_Name b) 12 BirdX (fsub (bv_Y b) NameOffset) (if bv_Dead b then hudErrorSubColor else hudNeutralColor) True]"

lemma drawBirds_cmds:
  "sprites_inv m \<Longrightarrow> \<exists>m'. drawBirds k a bs m = Some (concat (map (bird_cmds k a) bs), m') \<and> sprites_inv m'"
proof (induction bs arbitrary: m)
  case (Cons b bs)
  let ?f = "if bv_Flap b then ucast ((k div 5) mod 3) else 1"
  obtain img m1 where img: "sprites_Get (bv_Pal b) (bv_Acc b) ?f m = Some (img, m1)"
    "birdSprite (bv_Pal b) (bv_Acc b) ?f = Some img" "sprites_inv m1"
    using sprites_Get_transparent [OF Cons.prems] by blast
  then have "drawBird k b a m = Some (bird_cmds k a b, m1)"
    by (simp add: drawBird_def bird_cmds_def del: fm_get_def)
  with Cons.IH [OF img(3)] show ?case by auto
qed simp

lemma DeriveHUD_total: "\<exists>h. DeriveHUD snap now self = Some h"
proof -
  have "\<bar>clampInt k 1 3\<bar> < 10 ^ 8" for k by (simp add: clampInt_def)
  then have "itoa (clampInt k 1 3) = Some (show_int (clampInt k 1 3))" for k by (simp add: itoa_show)
  then show ?thesis by (cases "sn_St snap") (simp_all add: DeriveHUD_def Let_def)
qed

lemma ensureScenery_total:
  assumes "cache_inv msr g"
  obtains sc where "BuildScenery theme seed = Some sc"
    "ensureScenery theme seed g = Some (g\<lparr>gm_scenery := Some sc, gm_themeID := theme, gm_seed := seed\<rparr>)"
    "image_width (sc_Far sc) = 960" "image_width (sc_Mid sc) = 960" "image_width (sc_Ground sc) = 960"
proof -
  obtain sc where sc: "BuildScenery theme seed = Some sc"
    "image_width (sc_Far sc) = 960" "image_width (sc_Mid sc) = 960" "image_width (sc_Ground sc) = 960"
    using BuildScenery_total by blast
  have "ensureScenery theme seed g = Some (g\<lparr>gm_scenery := Some sc, gm_themeID := theme, gm_seed := seed\<rparr>)"
    using sc(1) assms by (cases g) (auto simp: ensureScenery_def cache_inv_def)
  then show thesis using that sc by blast
qed

text \<open>The frame of a view, without caches.\<close>

definition tiles :: "int \<Rightarrow> image \<Rightarrow> f64 \<Rightarrow> f64 \<Rightarrow> draw_cmd list" where
  "tiles viewW layer shift y = map (\<lambda>x. Blit layer (of_int x) y)
     (tile_xs (image_width layer) viewW (go_trunc shift smod image_width layer - image_width layer))"

definition world_picture :: "Scenery \<Rightarrow> Game \<Rightarrow> u64 \<Rightarrow> View \<Rightarrow> HUD \<Rightarrow> draw_cmd list" where
  "world_picture sc g self view hud =
     [BlitStretched (sc_Sky sc) (fdiv (of_int (gm_viewW g)) (of_int CanvasW))]
     @ tiles (gm_viewW g) (sc_Far sc) (fmul (vw_Dist view) (rnd64 (15 / 100))) 0
     @ tiles (gm_viewW g) (sc_Mid sc) (fmul (vw_Dist view) (rnd64 (35 / 100))) 0
     @ map Fill (concat (map (\<lambda>p. DrawPipe sc (rnd32 (pv_X p)) (rnd32 (pv_GapY p)) (rnd32 (pv_GapH p))) (vw_Pipes view)))
     @ concat (map (bird_cmds (gm_frame g) otherBirdAlpha) (filter (\<lambda>b. \<not> own_live self b) (vw_Birds view)))
     @ concat (map (bird_cmds (gm_frame g) 1) (filter (own_live self) (vw_Birds view)))
     @ tiles (gm_viewW g) (sc_Ground sc) (vw_Dist view) GroundY
     @ DrawHUD sc (toDrawHUD hud view) (of_int (gm_viewW g))"

lemma drawWorld_picture:
  assumes "cache_inv msr g"
  shows "\<exists>cs g'. drawWorld millis sess newest g = Some (cs, g') \<and> same_but_caches g g' \<and> cache_inv msr g'
    \<and> (case Interp (ServerNow millis (gm_clk g) - InterpDelayMs) (gm_ring g) of
         None \<Rightarrow> cs = []
       | Some view \<Rightarrow> (\<exists>sc hud. BuildScenery (vw_Theme view) (vw_Seed view) = Some sc
           \<and> DeriveHUD newest (ServerNow millis (gm_clk g)) (se_id sess) = Some hud
           \<and> cs = world_picture sc g (se_id sess) view hud))"
proof (cases "Interp (ServerNow millis (gm_clk g) - InterpDelayMs) (gm_ring g)")
  case None
  then show ?thesis using assms by (cases g) (simp add: drawWorld_def same_but_caches_def)
next
  case (Some view)
  let ?th = "vw_Theme view" and ?sd = "vw_Seed view" and ?now = "ServerNow millis (gm_clk g)"
  obtain sc where sc: "BuildScenery ?th ?sd = Some sc"
    "ensureScenery ?th ?sd g = Some (g\<lparr>gm_scenery := Some sc, gm_themeID := ?th, gm_seed := ?sd\<rparr>)"
    "image_width (sc_Far sc) = 960" "image_width (sc_Mid sc) = 960" "image_width (sc_Ground sc) = 960"
    using ensureScenery_total [OF assms] by metis
  have m: "sprites_inv (gm_sprites g)" using assms by (simp add: cache_inv_def)
  obtain m1 where m1: "drawBirds (gm_frame g) otherBirdAlpha (filter (\<lambda>b. \<not> own_live (se_id sess) b) (vw_Birds view)) (gm_sprites g)
      = Some (concat (map (bird_cmds (gm_frame g) otherBirdAlpha) (filter (\<lambda>b. \<not> own_live (se_id sess) b) (vw_Birds view))), m1)"
    "sprites_inv m1" using drawBirds_cmds [OF m] by blast
  obtain m2 where m2: "drawBirds (gm_frame g) 1 (filter (own_live (se_id sess)) (vw_Birds view)) m1
      = Some (concat (map (bird_cmds (gm_frame g) 1) (filter (own_live (se_id sess)) (vw_Birds view))), m2)"
    "sprites_inv m2" using drawBirds_cmds [OF m1(2)] by blast
  obtain hud where hud: "DeriveHUD newest ?now (se_id sess) = Some hud" using DeriveHUD_total by blast
  have "drawWorld millis sess newest g = Some (world_picture sc g (se_id sess) view hud,
      g\<lparr>gm_scenery := Some sc, gm_themeID := ?th, gm_seed := ?sd, gm_sprites := m2\<rparr>)"
    using Some sc m1(1) m2(1) hud
    by (simp add: drawWorld_def Let_def Sess_Get_def drawTiled_def world_picture_def tiles_def)
  then show ?thesis using Some sc(1) hud m2(2) assms by (auto simp: same_but_caches_def cache_inv_def)
qed

lemma frame_cmds_total:
  assumes "cache_inv msr g"
  shows "\<exists>cs g'. frame_cmds millis sess g = Some (cs, g') \<and> same_but_caches g g' \<and> cache_inv msr g'"
proof -
  have idle: "same_but_caches g g" by (simp add: same_but_caches_def)
  have world: "\<exists>cs g'. drawWorld millis sess n g = Some (cs, g') \<and> same_but_caches g g' \<and> cache_inv msr g'" for n
    using drawWorld_picture [OF assms] by blast
  have frozen: "\<exists>cs g'. drawFrozen millis sess t u a b g = Some (cs, g') \<and> same_but_caches g g' \<and> cache_inv msr g'" for t u a b
    using world assms idle by (auto simp: drawFrozen_def bind_eq_Some_conv split: option.splits) blast+
  show ?thesis using world frozen assms idle
    by (auto simp: frame_cmds_def Let_def split: option.splits prod.splits)
qed

lemma Draw_total:
  assumes "cache_inv msr g"
  shows "\<exists>cs bs g'. Draw msr millis sess g = Some (cs, bs, g') \<and> same_but_caches g g' \<and> cache_inv msr g'
    \<and> (gm_text g \<noteq> None \<longrightarrow> map_option fst (frame_cmds millis sess g) = Some cs \<and> bs = fresh_texts msr cs)"
proof (cases "gm_text g")
  case None
  then show ?thesis using assms by (cases g) (simp add: Draw_def same_but_caches_def)
next
  case (Some t)
  obtain cs g' where f: "frame_cmds millis sess g = Some (cs, g')" "same_but_caches g g'" "cache_inv msr g'"
    using frame_cmds_total [OF assms] by blast
  obtain bs t' where t: "draw_texts msr cs t = (bs, t')" by fastforce
  have "bs = fresh_texts msr cs \<and> text_inv msr t'"
    using draw_texts_fresh [OF _ t] assms Some by (simp add: cache_inv_def)
  then show ?thesis using Some f t same_but_caches_text [OF f(2)] by (auto simp: Draw_def cache_inv_def)
qed

section \<open>The invariant holds\<close>

lemma same_but_caches_inv:
  assumes "client_inv msr c" "same_but_caches (cl_game c) g" "cache_inv msr g"
  shows "client_inv msr (c\<lparr>cl_game := g\<rparr>)"
proof -
  obtain sp tx scn th sd where g: "g = (cl_game c)\<lparr>gm_sprites := sp, gm_text := tx, gm_scenery := scn, gm_themeID := th, gm_seed := sd\<rparr>"
    using assms(2) unfolding same_but_caches_def by blast
  show ?thesis using assms(1,3) by (simp add: g client_inv_def dial_inv_def queues_inv_def)
qed

lemma pushSnap_short: "length q \<le> RingLen \<Longrightarrow> length (snd (pushSnap 0 0 s q)) \<le> RingLen"
  by (auto simp: pushSnap_def Let_def)

lemma read_message_ok: "net_ok n \<Longrightarrow> read_message m n s = (n', s') \<Longrightarrow> net_ok n'"
  using pushSnap_short [of "nt_snap n"]
  by (auto simp: read_message_def net_ok_def net_fail_def split: incoming.splits frame.splits)

lemma write_command_ok: "net_ok n \<Longrightarrow> write_command f n = Some (msg, n') \<Longrightarrow> net_ok n'"
  by (auto simp: write_command_def net_ok_def net_fail_def split: list.splits option.splits)

lemma task_ok_mono: "list_all (task_ok n) ts \<Longrightarrow> n \<le> m \<Longrightarrow> list_all (task_ok m) ts"
  unfolding list_all_iff by (metis (no_types, lifting) dual_order.strict_trans1 opened.elims(2) opened.simps task_ok.elims(2) task_ok.simps)

lemma opened_mono: "pred_option (opened n) r \<Longrightarrow> n \<le> m \<Longrightarrow> pred_option (opened m) r"
  by (cases r) (auto elim: opened.elims)

lemma fetchBoard_eq: "\<exists>b. fetchBoard answer c = c\<lparr>cl_boardCh := b\<rparr>"
  by (cases c; cases answer; cases "cl_boardCh c") (auto simp: fetchBoard_def)

lemma client_step_inv:
  assumes "client_step tbl msr srv c c'" "client_inv msr c"
  shows "client_inv msr c'"
  using assms(1)
proof cases
  case (update inp)
  then show ?thesis using Update_inv [OF assms(2), of tbl inp] by auto
next
  case (draw millis cs bs g)
  have "cache_inv msr (cl_game c)" using assms(2) by (simp add: client_inv_def)
  then show ?thesis using Draw_total [of msr "cl_game c" millis "cl_sess c"] draw same_but_caches_inv [OF assms(2)] by auto
next
  case (resize w h)
  then show ?thesis using assms(2)
    by (simp add: Layout_def Let_def client_inv_def dial_inv_def queues_inv_def cache_inv_def)
next
  case (dial_ok ts name us)
  then show ?thesis using assms(2) task_ok_mono [of "length (cl_nets c)" _ "Suc (length (cl_nets c))"]
      opened_mono [of "length (cl_nets c)" _ "Suc (length (cl_nets c))"]
    by (cases "gm_net (cl_game c)") (auto simp: client_inv_def dial_inv_def queues_inv_def net_ok_def NewNet_def split: if_splits)
next
  case (dial_fail ts name us err)
  then show ?thesis using assms(2) by (auto simp: client_inv_def dial_inv_def queues_inv_def split: if_splits)
next
  case (dial_send ts res us)
  then show ?thesis using assms(2) by (auto simp: client_inv_def dial_inv_def queues_inv_def split: if_splits)
next
  case (receive a m n s)
  have "net_ok (cl_nets c ! a)" using receive(2) assms(2) by (simp add: client_inv_def queues_inv_def list_all_length)
  from read_message_ok [OF this receive(5)] have n: "net_ok n" .
  have "client_inv msr (c\<lparr>cl_sess := s\<rparr>)" using assms(2) by (simp add: client_inv_def dial_inv_def queues_inv_def)
  then show ?thesis unfolding receive(1) by (rule set_net_inv [OF _ n])
next
  case (send a failure msg n)
  have "net_ok (cl_nets c ! a)" using send(2) assms(2) by (simp add: client_inv_def queues_inv_def list_all_length)
  from write_command_ok [OF this send(3)] show ?thesis unfolding send(1) by (rule set_net_inv [OF assms(2)])
next
  case (fetched base rest answer)
  obtain b where "c' = c\<lparr>cl_fetching := rest, cl_boardCh := b\<rparr>" using fetched(1) fetchBoard_eq by metis
  then show ?thesis using assms(2) by (simp add: client_inv_def dial_inv_def queues_inv_def)
qed

lemma new_client_inv: "client_inv msr (new_client font url name)"
  using NewText_inv [of msr] by (simp add: new_client_def NewGame_def client_inv_def dial_inv_def queues_inv_def cache_inv_def
      NewRing_def ring_inv_def sprites_inv_def)

lemma client_run_inv: "client_run tbl msr srv c0 c \<Longrightarrow> client_inv msr c0 \<Longrightarrow> client_inv msr c"
  by (induction rule: client_run.induct) (auto intro: client_step_inv)

lemma new_client_run_inv: "client_run tbl msr srv (new_client font url name) c \<Longrightarrow> client_inv msr c"
  by (rule client_run_inv [OF _ new_client_inv])

lemma client_run_trans: "client_run tbl msr srv c1 c2 \<Longrightarrow> client_run tbl msr srv c0 c1 \<Longrightarrow> client_run tbl msr srv c0 c2"
  by (induction rule: client_run.induct) (auto intro: client_run.step)

section \<open>What an update does to a disconnected game\<close>

text \<open>An update of a game that has neither start screen, rejection nor connection.\<close>

definition searching :: "Client \<Rightarrow> bool" where
  "searching c \<longleftrightarrow> gm_net (cl_game c) = None \<and> gm_fatal (cl_game c) = [] \<and> \<not> gm_entering (cl_game c)"

definition tick_frame :: "Client \<Rightarrow> Client" where
  "tick_frame c = c\<lparr>cl_game := (cl_game c)\<lparr>gm_frame := gm_frame (cl_game c) + 1\<rparr>\<rparr>"

lemma Update_searching: "searching c \<Longrightarrow> Update tbl inp c = Some (reconnect inp (tick_frame c))"
  by (simp add: searching_def tick_frame_def Update_def)

lemma tick_frame_fields [simp]:
  "cl_sess (tick_frame c) = cl_sess c" "cl_nets (tick_frame c) = cl_nets c" "cl_tasks (tick_frame c) = cl_tasks c"
  "cl_dialRes (tick_frame c) = cl_dialRes c" "cl_joins (tick_frame c) = cl_joins c"
  "cl_boardCh (tick_frame c) = cl_boardCh c" "cl_fetching (tick_frame c) = cl_fetching c"
  "cl_game (tick_frame c) = (cl_game c)\<lparr>gm_frame := gm_frame (cl_game c) + 1\<rparr>"
  by (simp_all add: tick_frame_def)

lemma Update_active:
  assumes "Update tbl inp c = Some c'" "\<not> gm_entering (cl_game c)" "gm_fatal (cl_game c) = []"
  obtains c2 where "c2 = tick_frame c \<and> gm_net (cl_game c) = None \<or> pumpNet inp (tick_frame c) = Some c2"
    "c' = (if gm_net (cl_game c2) = None \<and> gm_fatal (cl_game c2) = [] then reconnect inp c2 else c2)"
proof (cases "gm_net (cl_game c)")
  case None
  show thesis by (rule that [of "tick_frame c"]) (use assms None in \<open>simp_all add: Update_def tick_frame_def\<close>)
next
  case (Some a)
  then have "Option.bind (pumpNet inp (tick_frame c)) (\<lambda>c2. Some (if gm_net (cl_game c2) = None \<and> gm_fatal (cl_game c2) = []
      then reconnect inp c2 else c2)) = Some c'"
    using assms by (simp add: Update_def tick_frame_def)
  then show thesis using that by (auto simp: bind_eq_Some_conv)
qed

section \<open>Runs\<close>

definition next_name :: "Client \<Rightarrow> string" where
  "next_name c = (if se_name (cl_sess c) = [] then gm_name (cl_game c) else se_name (cl_sess c))"

lemma start_dial:
  assumes "searching c" "\<not> gm_dialing (cl_game c)" "case gm_nextTry (cl_game c) of None \<Rightarrow> True | Some t \<Rightarrow> t \<le> in_now inp"
  shows "Update tbl inp c = Some (c\<lparr>cl_game := (cl_game c)\<lparr>gm_frame := gm_frame (cl_game c) + 1, gm_dialing := True\<rparr>,
     cl_tasks := cl_tasks c @ [Dialling (next_name c)]\<rparr>)"
  using assms by (auto simp: Update_searching reconnect_def tick_frame_def Let_def next_name_def split: option.splits)

lemma hold_dial:
  assumes "searching c" "\<not> gm_dialing (cl_game c)" "gm_nextTry (cl_game c) = Some t" "in_now inp < t"
  shows "Update tbl inp c = Some (tick_frame c)"
  using assms by (simp add: Update_searching reconnect_def)

definition some_input :: "int \<Rightarrow> Input" where
  "some_input t = \<lparr>in_chars = [], in_keys = [], in_touches = 0, in_millis = (\<lambda>_. 0), in_now = t\<rparr>"

text \<open>The state after an accepted attempt.\<close>

definition connected :: "nat \<Rightarrow> Client \<Rightarrow> Client" where
  "connected a c = c\<lparr>cl_dialRes := None, cl_tasks := [], cl_game := (cl_game c)\<lparr>gm_frame := gm_frame (cl_game c) + 1,
     gm_dialing := False, gm_net := Some a, gm_attempts := 0, gm_lastErr := [], gm_everConnected := True, gm_ring := []\<rparr>\<rparr>"

lemma take_result:
  assumes "searching c" "gm_dialing (cl_game c)" "cl_tasks c = []" "cl_dialRes c = Some (Dialled a)"
  shows "client_run tbl msr srv c (connected a c)"
proof -
  have "Update tbl (some_input 0) c = Some (connected a c)"
    using assms by (simp add: Update_searching reconnect_def Let_def connected_def tick_frame_def Reset_def)
  then show ?thesis by (intro client_run.step [OF client_run.start] client_step.update)
qed

lemma send_result:
  assumes "searching c" "gm_dialing (cl_game c)" "cl_tasks c = [Finished (Dialled a)]" "cl_dialRes c = None"
  shows "client_run tbl msr srv c (connected a c)"
proof -
  let ?c = "c\<lparr>cl_dialRes := Some (Dialled a), cl_tasks := []\<rparr>"
  have "client_step tbl msr srv c ?c" using client_step.dial_send [of c "[]" "Dialled a" "[]"] assms by simp
  moreover have "client_run tbl msr srv ?c (connected a ?c)"
    using assms by (intro take_result) (simp_all add: searching_def)
  moreover have "connected a ?c = connected a c" by (simp add: connected_def)
  ultimately show ?thesis using client_run_trans client_run.step [OF client_run.start] by metis
qed

definition dialled :: "string \<Rightarrow> Client \<Rightarrow> Client" where
  "dialled name c = c\<lparr>cl_nets := cl_nets c @ [NewNet], cl_joins := cl_joins c @ [name]\<rparr>"

lemma dial_connects:
  assumes "searching c" "gm_dialing (cl_game c)" "cl_tasks c = [Dialling name]" "cl_dialRes c = None"
  shows "client_run tbl msr srv c (connected (length (cl_nets c)) (dialled name c))"
proof -
  let ?c = "(dialled name c)\<lparr>cl_tasks := [Finished (Dialled (length (cl_nets c)))]\<rparr>"
  have "client_step tbl msr srv c ?c" using client_step.dial_ok [of c "[]" name "[]"] assms by (simp add: dialled_def)
  moreover have "client_run tbl msr srv ?c (connected (length (cl_nets c)) ?c)"
    using assms by (intro send_result) (simp_all add: searching_def dialled_def)
  moreover have "connected (length (cl_nets c)) ?c = connected (length (cl_nets c)) (dialled name c)" by (simp add: connected_def)
  ultimately show ?thesis using client_run_trans client_run.step [OF client_run.start] by metis
qed

text \<open>A searching client with nothing in flight connects under its next name.\<close>

lemma idle_connects:
  assumes "searching c" "\<not> gm_dialing (cl_game c)" "cl_tasks c = []" "cl_dialRes c = None"
  obtains c' where "client_run tbl msr srv c c'" "c' = connected (length (cl_nets c)) (dialled (next_name c)
     (c\<lparr>cl_game := (cl_game c)\<lparr>gm_frame := gm_frame (cl_game c) + 1\<rparr>\<rparr>))"
proof -
  define inp where "inp = some_input (case gm_nextTry (cl_game c) of None \<Rightarrow> 0 | Some t \<Rightarrow> t)"
  define d where "d = c\<lparr>cl_game := (cl_game c)\<lparr>gm_frame := gm_frame (cl_game c) + 1, gm_dialing := True\<rparr>,
    cl_tasks := [Dialling (next_name c)]\<rparr>"
  have "Update tbl inp c = Some d"
    using start_dial [OF assms(1,2), of inp tbl] assms(3) by (simp add: d_def inp_def some_input_def split: option.splits)
  then have cd: "client_run tbl msr srv c d" by (intro client_run.step [OF client_run.start] client_step.update)
  have "client_run tbl msr srv d (connected (length (cl_nets d)) (dialled (next_name c) d))"
    using assms by (intro dial_connects) (simp_all add: d_def searching_def)
  from client_run_trans [OF this cd]
  have run: "client_run tbl msr srv c (connected (length (cl_nets d)) (dialled (next_name c) d))" .
  show thesis by (rule that [OF run]) (simp add: d_def connected_def dialled_def)
qed

end
