(* ===== verification/Sample_Server.thy ===== *)
theory Sample_Server
  imports System
begin

text \<open>
  Concrete servers on which the properties are instantiated: a fresh one, and one whose countdown
  is shorter than a millisecond, driven by hand to a queued join and to a running race.
\<close>

definition fresh_server :: System where
  "fresh_server = init_system (NewHub DefaultConfig (fst (OpenStore ''state.json'' True fmempty (\<lambda>_. Saves))) (\<lambda>n. 33 * int n) 1)"

lemma fresh_server_reachable:
  "reachable tbl (NewHub DefaultConfig (fst (OpenStore ''state.json'' True fmempty (\<lambda>_. Saves))) (\<lambda>n. 33 * int n) 1) fresh_server"
  unfolding fresh_server_def by (rule reachable.start)

lemma fresh_server_fields [simp]:
  "y_running fresh_server" "y_events fresh_server = []" "y_phase fresh_server = fmempty"
  "h_conns (y_hub fresh_server) = fmempty" "h_players (y_hub fresh_server) = {||}"
  "h_st (y_hub fresh_server) = StWaiting" "h_nextID (y_hub fresh_server) = 0" "h_sess (y_hub fresh_server) = fmempty"
  by (simp_all add: fresh_server_def init_system_def) (simp_all add: NewHub_def Let_def)

text \<open>A server with one racer: connect, join, tick past a countdown of less than a millisecond.\<close>

definition quick_hub :: Hub where
  "quick_hub = NewHub (DefaultConfig\<lparr>cf_Countdown := 1\<rparr>)
     (fst (OpenStore ''state.json'' True fmempty (\<lambda>_. Saves))) (\<lambda>_. 0) 1"

lemma quick_hub_fields [simp]:
  "h_conns quick_hub = fmempty" "h_players quick_hub = {||}" "h_st quick_hub = StWaiting"
  "h_nextID quick_hub = 0" "h_sess quick_hub = fmempty" "h_clk quick_hub = (\<lambda>_. 0)"
  "h_maxPlayers quick_hub = 64" "cf_Countdown (h_cfg quick_hub) = 1"
  by (simp_all add: quick_hub_def NewHub_def DefaultConfig_def Let_def)

lemma runes_ada: "runes ''ada'' = [97, 100, 97]"
  by (simp add: decode_rune.simps byte_def)

lemma valid_ada: "snd (ValidateName (\<lambda>_. False) ''ada'')"
  by (simp add: ValidateName_def runes_ada trim_spaces_def is_space_def is_print_def MaxNameLen_def
      del: runes.simps)

lemma join_queued:
  "\<exists>y. reachable (\<lambda>_. False) quick_hub y \<and> y_running y \<and> y_events y = [EvJoin 0 ''ada'']
     \<and> y_hub y = quick_hub\<lparr>h_conns := fmupd 0 newClientConn fmempty\<rparr>"
proof -
  let ?tbl = "\<lambda>_. False :: bool"
  define h1 where "h1 = quick_hub\<lparr>h_conns := fmupd 0 newClientConn fmempty\<rparr>"
  define y2 where "y2 = \<lparr>y_hub = h1, y_events = [EvJoin 0 ''ada''], y_phase = fmupd 0 PJoining (fmupd 0 PConn fmempty), y_running = True\<rparr>"
  let ?y1 = "set_phase 0 PConn ((init_system quick_hub)\<lparr>y_hub := h1\<rparr>)"
  have "sys_step ?tbl (init_system quick_hub) ?y1"
    using sys_step.connect [of 0 "init_system quick_hub" ?tbl] by (simp add: init_system_def h1_def)
  then have r1: "reachable ?tbl quick_hub ?y1" using reachable.start reachable.step by blast
  have "sys_step ?tbl ?y1 (set_phase 0 PJoining (submit (EvJoin 0 ''ada'') ?y1))"
    by (rule sys_step.join) simp
  moreover have "set_phase 0 PJoining (submit (EvJoin 0 ''ada'') ?y1) = y2"
    by (simp add: set_phase_def submit_def init_system_def y2_def)
  ultimately have r2: "reachable ?tbl quick_hub y2" using r1 reachable.step by metis
  then show ?thesis by (intro exI [of _ y2]) (simp add: y2_def h1_def)
qed

lemma race_joined:
  "\<exists>y r g. reachable (\<lambda>_. False) quick_hub y \<and> y_running y \<and> h_st (y_hub y) = StRacing
     \<and> 1 |\<in>| fmdom (h_sess (y_hub y)) \<and> y_events y = [] \<and> fmlookup (y_phase y) 0 = Some (PJoined 1)
     \<and> h_players (y_hub y) = {|1|} \<and> h_nextID (y_hub y) = 1 \<and> h_sess (y_hub y) = h_sess g
     \<and> handleJoin (\<lambda>_. False) 0 ''ada'' (quick_hub\<lparr>h_conns := fmupd 0 newClientConn fmempty\<rparr>) = Some (r, g)"
proof -
  let ?tbl = "\<lambda>_. False :: bool"
  define h1 where "h1 = quick_hub\<lparr>h_conns := fmupd 0 newClientConn fmempty\<rparr>"
  obtain y2 where r2: "reachable ?tbl quick_hub y2"
    and y2: "y_running y2" "y_events y2 = [EvJoin 0 ''ada'']" "y_hub y2 = h1"
    using join_queued unfolding h1_def by blast
  then have inv: "hub_inv h1"
    unfolding quick_hub_def by (auto dest: reachable_hub)
  have c: "open_conn (h_conns h1) 0" "no_player_on h1 0" "h_nextID h1 \<noteq> - 1"
    by (simp_all add: h1_def open_conn_def no_player_on_def newClientConn_def)
  from handleJoin_inv [OF inv c, of ?tbl "''ada''"] obtain r g where
    g: "handleJoin ?tbl 0 ''ada'' h1 = Some (r, g)" "hub_inv g"
    "case jr_sess r of None \<Rightarrow> refused ?tbl 0 ''ada'' (jr_errMsg r) h1 g
     | Some i \<Rightarrow> jr_errMsg r = [] \<and> admitted ?tbl 0 ''ada'' i h1 g" by blast
  have "jr_sess r \<noteq> None"
    using g(3) valid_ada by (cases "jr_sess r") (simp_all add: refused_def h1_def fcard_fempty)
  then obtain i where i: "jr_sess r = Some i" "jr_errMsg r = []" and a: "admitted ?tbl 0 ''ada'' i h1 g" using g(3) by auto
  then have st: "h_st g = StCountdown" "h_clk g = (\<lambda>_. 0)" "h_goAt g = 0"
    by (simp_all add: admitted_def h1_def milliseconds_def signed_divide_int_def)
  have joined: "1 |\<in>| fmdom (h_sess g)" "i = 1" "h_players g = {|1|}" "h_nextID g = 1"
    using a by (auto simp: admitted_def joined_rel_def h1_def)
  have d: "dispatch ?tbl (EvJoin 0 ''ada'') (y_hub y2) = Some (Some r, g)"
    using g(1) by (simp add: dispatch_def y2)
  define y3 where "y3 = after_reply (EvJoin 0 ''ada'') (Some r) (y2\<lparr>y_hub := g, y_events := []\<rparr>)"
  have "sys_step ?tbl y2 y3"
    unfolding y3_def by (rule sys_step.dispatch [OF _ _ _ d]) (use c(3) in \<open>simp_all add: y2\<close>)
  then have r3: "reachable ?tbl quick_hub y3" using r2 reachable.step by blast
  have y3: "y_hub y3 = g" "y_running y3" "y_events y3 = []" "fmlookup (y_phase y3) 0 = Some (PJoined 1)"
    using i joined(2) by (simp_all add: y3_def y2) (simp add: after_reply_def)
  from tick_inv [OF g(2)] obtain h4 where
    h4: "tick g = Some h4" "same_players g h4" "ticked g h4" by blast
  have "h_st h4 = StRacing" using h4(3) st by (simp add: ticked_def)
  moreover have "sys_step ?tbl y3 (y3\<lparr>y_hub := h4\<rparr>)"
    by (rule sys_step.tick) (use y3 h4(1) in simp_all)
  then have "reachable ?tbl quick_hub (y3\<lparr>y_hub := h4\<rparr>)" using r3 reachable.step by blast
  ultimately show ?thesis
    using y3 joined h4(2) g(1)
    by (intro exI [of _ "y3\<lparr>y_hub := h4\<rparr>"] exI [of _ r] exI [of _ g]) (simp add: same_players_def h1_def)
qed

lemma race_reachable:
  "\<exists>y s. reachable (\<lambda>_. False) quick_hub y \<and> y_running y \<and> h_st (y_hub y) = StRacing
     \<and> fmlookup (h_sess (y_hub y)) 1 = Some s"
  using race_joined by (auto simp: fmlookup_dom_iff)

end
