(* ===== verification/Hub_Spec.thy ===== *)
theory Hub_Spec
  imports Sample_Server
begin

text \<open>
  Properties of single handlers of the hub: how a join ends, the flap rate limit, the themes of
  successive races, and two defects of the code with their proofs.
\<close>

section \<open>Joining\<close>

lemma waiting_join:
  assumes "reachable tbl (NewHub cfg store clk rng) y" "y_running y" "y_events y = EvJoin c name # evs"
  shows "hub_inv (y_hub y)" "open_conn (h_conns (y_hub y)) c" "no_player_on (y_hub y) c"
proof -
  note inv = reachable_hub [OF assms(1,2)]
  show "hub_inv (y_hub y)" by (rule inv(1))
  have l: "links_inv (y_hub y) (EvJoin c name # evs) (y_phase y)" using inv(2) assms(3) by simp
  then have "fmlookup (y_phase y) c = Some PJoining" by (simp add: links_inv_def)
  then have "phase_ok (y_hub y) c PJoining" using l unfolding links_inv_def by blast
  then show "open_conn (h_conns (y_hub y)) c" "no_player_on (y_hub y) c" by (simp_all add: phase_ok_def)
qed

text \<open>C12: how a join ends. A full server and an unacceptable name are refused with their message, no
  player is added and the connection is closed, every other one stays as it was; otherwise a new
  session with the next id and a unique name becomes a player on that connection, which stays
  open, and the first player starts the countdown.\<close>

theorem join_outcome:
  assumes "reachable tbl (NewHub cfg store clk rng) y" "y_running y" "y_events y = EvJoin c name # evs"
    "h_nextID (y_hub y) \<noteq> - 1"
  defines "h \<equiv> y_hub y"
  shows "\<exists>r h'. handleJoin tbl c name h = Some (r, h') \<and>
    (if int (fcard (h_players h)) \<ge> h_maxPlayers h \<or> \<not> snd (ValidateName tbl name)
     then jr_sess r = None \<and> h_players h' = h_players h \<and> h_st h' = h_st h \<and> \<not> open_conn (h_conns h') c
       \<and> jr_errMsg r = (if int (fcard (h_players h)) \<ge> h_maxPlayers h then ''server full'' else ''invalid name'')
     else (\<exists>s. jr_sess r = Some (h_nextID h + 1) \<and> fmlookup (h_sess h') (h_nextID h + 1) = Some s
       \<and> s_conn s = c \<and> uniqueName h (fst (ValidateName tbl name)) = Some (s_Name s)
       \<and> h_players h' = finsert (h_nextID h + 1) (h_players h) \<and> open_conn (h_conns h') c
       \<and> h_st h' = (if h_st h = StWaiting then StCountdown else h_st h)))
    \<and> (\<forall>d. d \<noteq> c \<longrightarrow> open_conn (h_conns h') d = open_conn (h_conns h) d)"
proof -
  note w = waiting_join [OF assms(1-3)]
  from handleJoin_inv [OF w assms(4), of tbl name] obtain r h' where
    r: "handleJoin tbl c name h = Some (r, h')"
    "case jr_sess r of None \<Rightarrow> refused tbl c name (jr_errMsg r) h h'
       | Some i \<Rightarrow> jr_errMsg r = [] \<and> admitted tbl c name i h h'" unfolding h_def by blast
  show ?thesis
  proof (cases "jr_sess r")
    case None
    then have "refused tbl c name (jr_errMsg r) h h'" using r(2) by simp
    then show ?thesis using r(1) None by (intro exI [of _ r] exI [of _ h']) (auto simp: refused_def left_rel_def)
  next
    case (Some i)
    then have a: "admitted tbl c name i h h'" using r(2) by simp
    then obtain s where s: "joined_rel c i s h h'" "uniqueName h (fst (ValidateName tbl name)) = Some (s_Name s)"
      unfolding admitted_def by blast
    then have "open_conn (h_conns h') d = open_conn (h_conns h) d" for d
      by (simp add: joined_rel_def sends_def)
    then show ?thesis using r(1) Some a s w(2) unfolding h_def [symmetric]
      by (intro exI [of _ r] exI [of _ h']) (auto simp: admitted_def joined_rel_def)
  qed
qed

theorem join_outcome_witness:
  "\<exists>r h'. handleJoin (\<lambda>_. False) 0 ''ada'' (quick_hub\<lparr>h_conns := fmupd 0 newClientConn fmempty\<rparr>) = Some (r, h')
     \<and> jr_sess r = Some 1 \<and> h_players h' = {|1|} \<and> h_st h' = StCountdown"
proof -
  obtain y where y: "reachable (\<lambda>_. False) quick_hub y" "y_running y" "y_events y = [EvJoin 0 ''ada'']"
    "y_hub y = quick_hub\<lparr>h_conns := fmupd 0 newClientConn fmempty\<rparr>" using join_queued by blast
  show ?thesis
    using join_outcome [OF y(1) [unfolded quick_hub_def] y(2,3)] valid_ada by (auto simp: y(4) fcard_fempty)
qed

section \<open>Flaps\<close>

fun flaps :: "nat \<Rightarrow> u64 \<Rightarrow> Hub \<Rightarrow> Hub option" where
  "flaps 0 i h = Some h"
| "flaps (Suc n) i h = Option.bind (handleFlap (Some i) h) (flaps n i)"

text \<open>One flap of a racing hub, spelled out.\<close>

lemma handleFlap_racing:
  assumes "h_st h = StRacing" "fmlookup (h_sess h) i = Some s" "h_world h = Some w"
  defines "sec \<equiv> h_clk h (h_calls h) sdiv 1000"
  defines "n \<equiv> (if s_flapSec s = sec then s_flapCount s else 0)"
  shows "handleFlap (Some i) h = Some (h\<lparr>h_calls := Suc (h_calls h),
      h_sess := fmupd i (s\<lparr>s_flapSec := sec, s_flapCount := (if n \<ge> FlapRateLimit then n else n + 1)\<rparr>) (h_sess h),
      h_pendingFlaps := (if n \<ge> FlapRateLimit \<or> \<not> IsRacer w (s_ID s) then h_pendingFlaps h
                         else finsert (s_ID s) (h_pendingFlaps h))\<rparr>)"
  using assms(1-3)
  by (cases s) (auto simp: handleFlap_def now_ms_def Let_def rate_window_def sec_def n_def)

text \<open>Further flaps of a window that has begun.\<close>

lemma flaps_window:
  "h_st h = StRacing \<Longrightarrow> fmlookup (h_sess h) i = Some s \<Longrightarrow> h_world h = Some w \<Longrightarrow> s_ID s = i \<Longrightarrow>
   \<forall>k<n. h_clk h (h_calls h + k) sdiv 1000 = sec \<Longrightarrow> s_flapSec s = sec \<Longrightarrow> s_flapCount s \<le> FlapRateLimit \<Longrightarrow>
   (IsRacer w i \<longrightarrow> i |\<in>| h_pendingFlaps h) \<Longrightarrow>
   \<exists>h' s'. flaps n i h = Some h' \<and> fmlookup (h_sess h') i = Some s' \<and> s_flapSec s' = sec
     \<and> s_flapCount s' = min (s_flapCount s + int n) FlapRateLimit \<and> h_pendingFlaps h' = h_pendingFlaps h
     \<and> h_world h' = Some w \<and> h_players h' = h_players h"
proof (induction n arbitrary: h s)
  case (Suc n)
  have sec: "h_clk h (h_calls h) sdiv 1000 = sec" using Suc.prems(5) by (auto dest: spec [of _ 0])
  let ?s = "s\<lparr>s_flapSec := sec, s_flapCount := (if s_flapCount s \<ge> FlapRateLimit then s_flapCount s else s_flapCount s + 1)\<rparr>"
  let ?h = "h\<lparr>h_calls := Suc (h_calls h), h_sess := fmupd i ?s (h_sess h)\<rparr>"
  have p: "(if s_flapCount s \<ge> FlapRateLimit \<or> \<not> IsRacer w (s_ID s) then h_pendingFlaps h
      else finsert (s_ID s) (h_pendingFlaps h)) = h_pendingFlaps h"
    using Suc.prems(4,8) by auto
  have "handleFlap (Some i) h = Some ?h"
    using handleFlap_racing [OF Suc.prems(1-3)] Suc.prems(6) p unfolding sec by simp
  moreover have "\<forall>k<n. h_clk ?h (h_calls ?h + k) sdiv 1000 = sec"
    using Suc.prems(5) by (auto dest: spec [of _ "Suc _"])
  ultimately show ?case
    using Suc.IH [of ?h ?s] Suc.prems by (auto simp: min_def)
qed auto


lemma racing_world:
  assumes "reachable tbl (NewHub cfg store clk rng) y" "y_running y" "h_st (y_hub y) = StRacing"
  shows "\<exists>w ri. h_world (y_hub y) = Some w \<and> h_raceInfo (y_hub y) = Some ri \<and> race_ok (y_hub y) w ri"
  using reachable_hub(1) [OF assms(1,2)] assms(3) by (cases rule: hub_inv_race_cases) auto


section \<open>The next race\<close>

lemma next_race:
  assumes "reachable tbl (NewHub cfg store clk rng) y" "y_running y" "h_st (y_hub y) = StRacing"
  shows "\<exists>h1 h2. finishRace t (y_hub y) = Some h1 \<and> race_ended t (y_hub y) h1
    \<and> beginCountdown t' h1 = Some h2 \<and> countdown_from h1 h2 \<and> h_theme h2 \<noteq> h_lastTheme h1
    \<and> theme_valid (h_theme h2) \<and> h_results h2 = []"
proof -
  have inv: "hub_inv (y_hub y)" by (rule reachable_hub(1) [OF assms(1,2)])
  then have "reg_inv (y_hub y)" "mem_inv (y_hub y)" "conns_inv (h_conns (y_hub y))" by (simp_all add: hub_inv_def)
  then obtain h1 where h1: "finishRace t (y_hub y) = Some h1" "hub_inv h1" "race_ended t (y_hub y) h1"
    using finishRace_spec racing_world [OF assms] by meson
  then have "reg_inv h1" by (simp add: hub_inv_def)
  from beginCountdown_spec [OF this, of t'] show ?thesis using h1 by blast
qed

lemma racing_players:
  assumes "reachable tbl (NewHub cfg store clk rng) y" "y_running y" "h_st (y_hub y) = StRacing"
  shows "h_players (y_hub y) \<noteq> {||}"
  using reachable_hub(1) [OF assms(1,2)] assms(3) by (cases rule: hub_inv_race_cases) auto

text \<open>Themes alternate. Whenever a race of a running server is over, the next countdown has a valid theme different from that of the race before, and it admits
  exactly the players connected then.\<close>

theorem theme_changes:
  assumes "reachable tbl (NewHub cfg store clk rng) y" "y_running y" "h_st (y_hub y) = StRacing"
  shows "\<exists>h1 h2. finishRace t (y_hub y) = Some h1 \<and> h_st h1 = StFinished \<and> beginCountdown t' h1 = Some h2
    \<and> h_theme h2 \<noteq> h_theme (y_hub y) \<and> theme_valid (h_theme h2) \<and> h_results h2 = []
    \<and> (\<exists>w. h_world h2 = Some w \<and> w_Order w = h_order (y_hub y) \<and> w_Tick w = 0)"
proof -
  from next_race [OF assms(1-3), of t t'] obtain h1 h2 where
    h: "finishRace t (y_hub y) = Some h1" "race_ended t (y_hub y) h1" "beginCountdown t' h1 = Some h2"
      "countdown_from h1 h2" "h_theme h2 \<noteq> h_lastTheme h1" "theme_valid (h_theme h2)" "h_results h2 = []" by blast
  have "h_lastTheme h1 = h_theme (y_hub y)" "h_st h1 = StFinished" "h_order h1 = h_order (y_hub y)"
    using h(2) racing_players [OF assms] by (simp_all add: race_ended_def)
  then show ?thesis using h
    by (intro exI [of _ h1] exI [of _ h2]) (auto simp: countdown_from_def lobby_inv_def lobby_def)
qed

theorem theme_changes_witness:
  "\<exists>(h::Hub) h1 h2. h_st h = StRacing \<and> finishRace 0 h = Some h1 \<and> beginCountdown 0 h1 = Some h2
     \<and> h_theme h2 \<noteq> h_theme h"
proof -
  obtain y where y: "reachable (\<lambda>_. False) quick_hub y" "y_running y" "h_st (y_hub y) = StRacing"
    using race_reachable by blast
  from theme_changes [OF y(1) [unfolded quick_hub_def] y(2,3), of 0 0] show ?thesis using y(3) by blast
qed

text \<open>A ghost flap. The flaps that are pending when a race ends are neither applied nor dropped: they
  survive the results and the next countdown and belong to its first tick, where a racer that has
  not pressed a key since leaves the spawn height upwards.\<close>

theorem ghost_flap:
  assumes "reachable tbl (NewHub cfg store clk rng) y" "y_running y" "h_st (y_hub y) = StRacing"
  shows "\<exists>h1 h2. finishRace t (y_hub y) = Some h1 \<and> beginCountdown t' h1 = Some h2
    \<and> h_st h2 = StCountdown \<and> h_pendingFlaps h2 = h_pendingFlaps (y_hub y)"
proof -
  from next_race [OF assms(1-3), of t t'] obtain h1 h2 where
    "finishRace t (y_hub y) = Some h1" "race_ended t (y_hub y) h1" "beginCountdown t' h1 = Some h2"
    "countdown_from h1 h2" by blast
  then show ?thesis
    by (intro exI [of _ h1] exI [of _ h2]) (simp add: countdown_from_def race_ended_def)
qed

theorem ghost_flap_witness:
  "\<exists>(h::Hub) h1 h2. h_st h = StRacing \<and> finishRace 0 h = Some h1 \<and> beginCountdown 0 h1 = Some h2
     \<and> h_pendingFlaps h2 = h_pendingFlaps h"
proof -
  obtain y where y: "reachable (\<lambda>_. False) quick_hub y" "y_running y" "h_st (y_hub y) = StRacing"
    using race_reachable by blast
  from ghost_flap [OF y(1) [unfolded quick_hub_def] y(2,3), of 0 0] show ?thesis using y(3) by blast
qed

section \<open>Names that cannot come back\<close>

definition full_name :: string where "full_name = ''abcdefghijklmnop''"

definition crowded_hub :: Hub where
  "crowded_hub = quick_hub\<lparr>h_names := fmupd full_name 1 fmempty\<rparr>"

text \<open>A unique name may break the username rule. A second player with an accepted name of sixteen
  runes is given a name that the server itself would refuse; the client rejoins under exactly that
  name after a dropped connection.\<close>

theorem unique_name_too_long:
  "snd (ValidateName tbl full_name) \<and> uniqueName crowded_hub full_name = Some (full_name @ '' 2'')
   \<and> \<not> snd (ValidateName tbl (full_name @ '' 2''))"
proof -
  have r: "runes full_name = map byte full_name" "runes (full_name @ '' 2'') = map byte (full_name @ '' 2'')"
    by (rule runes_ascii, simp add: full_name_def byte_def)+
  have "mk_byte (byte CHR ''2'') = CHR ''2''" unfolding mk_byte_def byte_def by (rule char_of_char)
  then have two: "mk_byte 50 = CHR ''2''" by (simp add: byte_def)
  have "uniqueName crowded_hub full_name = Some (full_name @ '' 2'')"
    unfolding uniqueName_def by (subst unique_from.simps, subst unique_from.simps)
      (simp add: crowded_hub_def fm_get_def full_name_def show_nat.simps two)
  then show ?thesis
    unfolding ValidateName_ok_iff r
    by (simp add: full_name_def byte_def trim_spaces_def is_space_def is_print_def)
qed

end
