(* ===== verification/Client_Spec.thy ===== *)
theory Client_Spec
  imports Client_Run Hub_Spec
begin

text \<open>
  The properties of the game client: its update and frame always complete, it keeps at most one
  connection attempt, its reconnect state machine paces, reconnects and stops, the names it joins
  under, and a player it locks out.
\<close>

section \<open>Totality and the state machine\<close>

text \<open>C13: in every state the client can reach, under any interleaving of its goroutines, any input and
  any message of the server, the next update and the next frame complete: no nil connection is read, no
  table is indexed out of range, no division by zero and no write past the digit buffer.\<close>

theorem client_never_panics:
  assumes "client_run tbl msr srv (new_client font url name) c"
  shows "(\<exists>c'. Update tbl inp c = Some c') \<and> (\<exists>cs bs g. Draw msr millis (cl_sess c) (cl_game c) = Some (cs, bs, g))"
proof -
  have "client_inv msr c" by (rule new_client_run_inv [OF assms])
  then show ?thesis using Update_inv [of msr c tbl inp] Draw_total [of msr "cl_game c" millis "cl_sess c"]
    by (auto simp: client_inv_def)
qed

theorem client_never_panics_witness:
  "\<exists>c'. Update (\<lambda>_. False) (some_input 0) (new_client True [] ''ada'') = Some c'"
  using client_never_panics [OF client_run.start, where font = True and url = "[]" and name = "''ada''"] by blast

text \<open>C15: at most one connection attempt exists, a dial goroutine or its undelivered result, exactly
  while the game says it is dialling, never beside a live connection, the start screen or a rejection;
  so the send of a result never blocks. The queues, the snapshot ring and the typed name stay within
  their bounds.\<close>

theorem one_attempt_at_a_time:
  assumes "client_run tbl msr srv (new_client font url name) c"
  shows "length (cl_tasks c) + (if cl_dialRes c = None then 0 else 1) = (if gm_dialing (cl_game c) then 1 else 0)
    \<and> (gm_dialing (cl_game c) \<longrightarrow> searching c)
    \<and> list_all (\<lambda>n. length (nt_cmd n) \<le> cmdCap \<and> length (nt_snap n) \<le> RingLen) (cl_nets c)
    \<and> ring_inv (gm_ring (cl_game c)) \<and> length (gm_typed (cl_game c)) \<le> MaxNameLen"
  using new_client_run_inv [OF assms]
  by (auto simp: client_inv_def dial_inv_def queues_inv_def searching_def net_ok_def list_all_iff)

text \<open>A client with a name from its command line, and its first attempt.\<close>

lemma one_step: "client_step tbl msr srv c c' \<Longrightarrow> client_run tbl msr srv c c'"
  by (rule client_run.step [OF client_run.start])

definition first_attempt :: Client where
  "first_attempt = (let c = new_client True [] ''ada'' in
     c\<lparr>cl_game := (cl_game c)\<lparr>gm_frame := gm_frame (cl_game c) + 1, gm_dialing := True\<rparr>, cl_tasks := [Dialling ''ada'']\<rparr>)"

lemma first_attempt_fields:
  "cl_tasks first_attempt = [Dialling ''ada'']" "gm_dialing (cl_game first_attempt)" "cl_dialRes first_attempt = None"
  by (simp_all add: first_attempt_def Let_def new_client_def)

lemma first_attempt_run: "client_run tbl msr srv (new_client True [] ''ada'') first_attempt"
proof -
  let ?c = "new_client True [] ''ada''"
  have "searching ?c" "\<not> gm_dialing (cl_game ?c)" "cl_tasks ?c = []" "gm_nextTry (cl_game ?c) = None" "next_name ?c = ''ada''"
    by (simp_all add: searching_def next_name_def new_client_def NewGame_def zero_sess_def)
  then have "Update tbl (some_input 0) ?c = Some first_attempt"
    using start_dial [of ?c "some_input 0" tbl] by (simp add: first_attempt_def Let_def)
  then show ?thesis by (intro one_step client_step.update)
qed

theorem one_attempt_at_a_time_witness:
  "length (cl_tasks first_attempt) + (if cl_dialRes first_attempt = None then 0 else 1) = 1"
  using one_attempt_at_a_time [OF first_attempt_run] first_attempt_fields by simp

section \<open>Rejection\<close>

definition rejected :: "string \<Rightarrow> string list \<Rightarrow> Client \<Rightarrow> bool" where
  "rejected msg joins c \<longleftrightarrow> gm_fatal (cl_game c) = msg \<and> gm_net (cl_game c) = None \<and> cl_joins c = joins
     \<and> cl_tasks c = [] \<and> \<not> gm_entering (cl_game c)"

lemma Update_rejected:
  "rejected msg joins c \<Longrightarrow> msg \<noteq> [] \<Longrightarrow> Update tbl inp c = Some (tick_frame c)"
  by (simp add: rejected_def Update_def tick_frame_def)

lemma same_but_caches_fields:
  "same_but_caches g g' \<Longrightarrow> gm_fatal g' = gm_fatal g \<and> gm_net g' = gm_net g \<and> gm_entering g' = gm_entering g
     \<and> gm_name g' = gm_name g \<and> gm_dialing g' = gm_dialing g \<and> gm_everConnected g' = gm_everConnected g
     \<and> gm_attempts g' = gm_attempts g"
  unfolding same_but_caches_def by (cases g; cases g') simp

lemma rejected_step:
  assumes "client_step tbl msr srv c c'" "client_inv msr c" "rejected msg joins c" "msg \<noteq> []"
  shows "rejected msg joins c'"
  using assms(1)
proof cases
  case (update inp)
  then show ?thesis using Update_rejected [OF assms(3,4), of tbl inp] assms(3) by (auto simp: rejected_def)
next
  case (draw millis cs bs g)
  have "cache_inv msr (cl_game c)" using assms(2) by (simp add: client_inv_def)
  then show ?thesis using Draw_total [of msr "cl_game c" millis "cl_sess c"] draw same_but_caches_fields assms(3)
    by (fastforce simp: rejected_def)
next
  case (fetched base rest answer)
  obtain b where "c' = c\<lparr>cl_fetching := rest, cl_boardCh := b\<rparr>" using fetched(1) fetchBoard_eq by metis
  then show ?thesis using assms(3) by (simp add: rejected_def)
qed (use assms(3) in \<open>auto simp: rejected_def Layout_def Let_def\<close>)

text \<open>C16: a rejection by the server is final: whatever happens afterwards, the message stays, there is
  no connection, no attempt is made and no join is sent.\<close>

theorem rejection_is_final:
  assumes "client_run tbl msr srv (new_client font url name) c" "gm_fatal (cl_game c) \<noteq> []"
    and "client_run tbl msr srv c c'"
  shows "gm_fatal (cl_game c') = gm_fatal (cl_game c) \<and> gm_net (cl_game c') = None \<and> cl_tasks c' = []
    \<and> cl_joins c' = cl_joins c"
proof -
  have inv: "client_inv msr c" by (rule new_client_run_inv [OF assms(1)])
  have "rejected (gm_fatal (cl_game c)) (cl_joins c) c"
    using inv assms(2) by (auto simp: rejected_def client_inv_def dial_inv_def)
  with assms(3) have "client_inv msr c' \<and> rejected (gm_fatal (cl_game c)) (cl_joins c) c'"
    by (induction rule: client_run.induct) (use inv assms(2) in \<open>auto intro: client_step_inv rejected_step\<close>)
  then show ?thesis by (simp add: rejected_def)
qed

section \<open>Pacing and reconnecting\<close>

text \<open>C17: when the \<open>k + 1\<close>-st attempt in a row fails at time \<open>t\<close>, the game records the reason and
  waits min(8 s, 500 ms * 2^k): every update before that time only counts the frame, and the first one
  at or after it starts exactly one attempt, under the name the server confirmed or else the one
  given.\<close>

theorem retry_pacing:
  fixes inp :: Input
  assumes "client_run tbl msr srv (new_client font url name) c"
    and "gm_dialing (cl_game c)" "cl_dialRes c = Some (DialFailed err)"
  defines "due \<equiv> in_now inp + min retryMaxDelay (retryBaseDelay * 2 ^ nat (gm_attempts (cl_game c)))"
  shows "\<exists>c'. Update tbl inp c = Some c' \<and> gm_attempts (cl_game c') = gm_attempts (cl_game c) + 1
    \<and> gm_lastErr (cl_game c') = err \<and> gm_nextTry (cl_game c') = Some due
    \<and> (\<forall>inp2. Update tbl inp2 c' = Some (if in_now inp2 < due then tick_frame c'
         else c'\<lparr>cl_game := (cl_game c')\<lparr>gm_frame := gm_frame (cl_game c') + 1, gm_dialing := True\<rparr>,
                 cl_tasks := [Dialling (next_name c)]\<rparr>))"
proof -
  have inv: "dial_inv c" using new_client_run_inv [OF assms(1)] by (simp add: client_inv_def)
  then have s: "searching c" and k: "0 \<le> gm_attempts (cl_game c)" and t: "cl_tasks c = []"
    using assms(2,3) by (auto simp: dial_inv_def searching_def split: if_splits)
  let ?g = "(cl_game c)\<lparr>gm_frame := gm_frame (cl_game c) + 1, gm_dialing := False, gm_lastErr := err\<rparr>"
  let ?c = "c\<lparr>cl_dialRes := None, cl_game := scheduleRetry (in_now inp) ?g\<rparr>"
  have u: "Update tbl inp c = Some ?c"
    using assms(2,3) by (simp add: Update_searching [OF s] reconnect_def Let_def tick_frame_def)
  have due: "gm_nextTry (cl_game ?c) = Some due"
    using retryDelay_min [of "gm_attempts (cl_game c) + 1"] k by (simp add: due_def)
  have s': "searching ?c" "\<not> gm_dialing (cl_game ?c)" "next_name ?c = next_name c" "cl_tasks ?c = []"
    using s t by (simp_all add: searching_def next_name_def)
  have "Update tbl inp2 ?c = Some (if in_now inp2 < due then tick_frame ?c
         else ?c\<lparr>cl_game := (cl_game ?c)\<lparr>gm_frame := gm_frame (cl_game ?c) + 1, gm_dialing := True\<rparr>,
                 cl_tasks := [Dialling (next_name c)]\<rparr>)" for inp2
    using hold_dial [OF s'(1,2) due, of inp2 tbl] start_dial [OF s'(1,2), of inp2 tbl] due s'(3,4)
    by (cases "in_now inp2 < due") simp_all
  then show ?thesis using u due by (intro exI [of _ ?c]) simp
qed

definition failed_attempt :: Client where
  "failed_attempt = first_attempt\<lparr>cl_dialRes := Some (DialFailed ''refused''), cl_tasks := []\<rparr>"

lemma failed_attempt_run: "client_run tbl msr srv (new_client True [] ''ada'') failed_attempt"
proof -
  let ?c = "first_attempt\<lparr>cl_tasks := [Finished (DialFailed ''refused'')]\<rparr>"
  have "client_step tbl msr srv first_attempt ?c"
    using client_step.dial_fail [of first_attempt "[]" "''ada''" "[]"] first_attempt_fields by simp
  moreover have "client_step tbl msr srv ?c failed_attempt"
    using client_step.dial_send [of ?c "[]" "DialFailed ''refused''" "[]"] first_attempt_fields by (simp add: failed_attempt_def)
  ultimately show ?thesis using first_attempt_run client_run.step by metis
qed

text \<open>The values are a first attempt that fails at time 1000, in nanoseconds: the next one starts half a
  second later.\<close>

theorem retry_pacing_witness:
  "\<exists>c'. Update (\<lambda>_. False) (some_input 1000) failed_attempt = Some c' \<and> gm_lastErr (cl_game c') = ''refused''
    \<and> gm_nextTry (cl_game c') = Some 500001000"
proof -
  have d: "gm_dialing (cl_game failed_attempt)" "cl_dialRes failed_attempt = Some (DialFailed ''refused'')"
    "gm_attempts (cl_game failed_attempt) = 0"
    using first_attempt_fields by (simp_all add: failed_attempt_def first_attempt_def Let_def new_client_def NewGame_def)
  show ?thesis using retry_pacing [OF failed_attempt_run d(1,2), of "\<lambda>_. False" "some_input 1000"]
    by (auto simp: d(3) some_input_def)
qed

lemma failure_settles:
  assumes "searching c" "gm_dialing (cl_game c)" "cl_tasks c = []" "cl_dialRes c = Some (DialFailed err)"
  obtains d where "client_run tbl msr srv c d" "searching d" "\<not> gm_dialing (cl_game d)" "cl_tasks d = []" "cl_dialRes d = None"
proof -
  let ?g = "(cl_game c)\<lparr>gm_frame := gm_frame (cl_game c) + 1, gm_dialing := False, gm_lastErr := err\<rparr>"
  let ?d = "c\<lparr>cl_dialRes := None, cl_game := scheduleRetry 0 ?g\<rparr>"
  have "Update tbl (some_input 0) c = Some ?d"
    using assms(2,4) by (simp add: Update_searching [OF assms(1)] reconnect_def Let_def tick_frame_def some_input_def)
  then have "client_run tbl msr srv c ?d" by (intro one_step client_step.update)
  moreover have "searching ?d" "\<not> gm_dialing (cl_game ?d)" "cl_tasks ?d = []" "cl_dialRes ?d = None"
    using assms by (simp_all add: searching_def)
  ultimately show thesis by (rule that)
qed

lemma idle_reconnects:
  assumes "searching c" "\<not> gm_dialing (cl_game c)" "cl_tasks c = []" "cl_dialRes c = None"
  shows "\<exists>a d. client_run tbl msr srv c (connected a d) \<and> a < length (cl_nets d)"
proof -
  obtain c' where c': "client_run tbl msr srv c c'" "c' = connected (length (cl_nets c)) (dialled (next_name c)
     (c\<lparr>cl_game := (cl_game c)\<lparr>gm_frame := gm_frame (cl_game c) + 1\<rparr>\<rparr>))"
    using idle_connects [OF assms] by blast
  show ?thesis by (rule exI, rule exI, rule conjI, rule c'(1) [unfolded c'(2)]) (simp add: dialled_def)
qed

lemma failure_reconnects:
  assumes "searching c" "gm_dialing (cl_game c)" "cl_tasks c = []" "cl_dialRes c = Some (DialFailed err)"
  shows "\<exists>a d. client_run tbl msr srv c (connected a d) \<and> a < length (cl_nets d)"
proof -
  obtain d where d: "client_run tbl msr srv c d" "searching d" "\<not> gm_dialing (cl_game d)" "cl_tasks d = []" "cl_dialRes d = None"
    using failure_settles [OF assms] by blast
  show ?thesis using idle_reconnects [OF d(2-5), of tbl msr srv] client_run_trans [OF _ d(1)] by blast
qed

lemma searching_reconnects:
  assumes "dial_inv c" "searching c"
  shows "\<exists>a d. client_run tbl msr srv c (connected a d) \<and> a < length (cl_nets d)"
proof (cases "gm_dialing (cl_game c)")
  case False
  then show ?thesis using assms by (intro idle_reconnects) (auto simp: dial_inv_def split: if_splits)
next
  case dialing: True
  show ?thesis
  proof (cases "cl_dialRes c")
    case None
    then obtain t where t: "cl_tasks c = [t]" "task_ok (length (cl_nets c)) t"
      using assms(1) dialing by (auto simp: dial_inv_def length_Suc_conv)
    consider (dialling) name where "t = Dialling name" | (ok) a where "t = Finished (Dialled a)" "a < length (cl_nets c)"
      | (bad) err where "t = Finished (DialFailed err)"
      using t(2) by (metis dial_result.exhaust dial_task.exhaust opened.simps(1) task_ok.simps(2))
    then show ?thesis
    proof cases
      case (dialling name)
      show ?thesis
        by (rule exI, rule exI, rule conjI, rule dial_connects [OF assms(2) dialing _ None]) (use t dialling in \<open>simp_all add: dialled_def\<close>)
    next
      case (ok a)
      then show ?thesis using send_result [OF assms(2) dialing _ None] t(1) by blast
    next
      case (bad err)
      let ?d = "c\<lparr>cl_dialRes := Some (DialFailed err), cl_tasks := []\<rparr>"
      have cd: "client_run tbl msr srv c ?d"
        using client_step.dial_send [of c "[]" "DialFailed err" "[]"] t(1) bad None by (intro one_step) simp
      have "\<exists>a d. client_run tbl msr srv ?d (connected a d) \<and> a < length (cl_nets d)"
        using assms(2) dialing by (intro failure_reconnects) (simp_all add: searching_def)
      then show ?thesis using client_run_trans [OF _ cd] by blast
    qed
  next
    case (Some r)
    then have t: "cl_tasks c = []" and r: "opened (length (cl_nets c)) r" using assms(1) dialing by (auto simp: dial_inv_def)
    show ?thesis
    proof (cases r)
      case (Dialled a)
      then show ?thesis using take_result [OF assms(2) dialing t] Some r by (intro exI [of _ a] exI [of _ c]) auto
    next
      case (DialFailed err)
      then show ?thesis using failure_reconnects [OF assms(2) dialing t] Some by blast
    qed
  qed
qed

text \<open>C18: a client that is neither on its start screen nor rejected never gets stuck: from every state
  it can reach, some continuation ends with a live connection, no failed attempts and an empty ring, so
  that nothing is interpolated across the gap.\<close>

theorem always_reconnects:
  assumes "client_run tbl msr srv (new_client font url name) c" "searching c"
  shows "\<exists>c'. client_run tbl msr srv c c' \<and> (\<exists>a. gm_net (cl_game c') = Some a \<and> a < length (cl_nets c'))
    \<and> gm_ring (cl_game c') = [] \<and> gm_attempts (cl_game c') = 0 \<and> gm_lastErr (cl_game c') = []"
proof -
  have "dial_inv c" using new_client_run_inv [OF assms(1)] by (simp add: client_inv_def)
  then obtain a d where "client_run tbl msr srv c (connected a d)" "a < length (cl_nets d)"
    using searching_reconnects [OF _ assms(2)] by blast
  then show ?thesis by (intro exI [of _ "connected a d"]) (simp add: connected_def)
qed

theorem always_reconnects_witness:
  "\<exists>c'. client_run (\<lambda>_. False) (\<lambda>_ _. (0, 0)) (\<lambda>_. False) (new_client True [] ''ada'') c' \<and> gm_net (cl_game c') \<noteq> None"
proof -
  have "searching (new_client True [] ''ada'')" by (simp add: searching_def new_client_def NewGame_def)
  from always_reconnects [OF client_run.start this] show ?thesis by blast
qed

section \<open>Names\<close>

definition fixed_name :: "(nat \<Rightarrow> bool) \<Rightarrow> string \<Rightarrow> bool" where
  "fixed_name tbl n \<longleftrightarrow> ValidateName tbl n = (n, True)"

fun task_name_ok :: "(string \<Rightarrow> bool) \<Rightarrow> dial_task \<Rightarrow> bool" where
  "task_name_ok P (Dialling n) = P n"
| "task_name_ok P (Finished r) = True"

definition names_inv :: "(string \<Rightarrow> bool) \<Rightarrow> Client \<Rightarrow> bool" where
  "names_inv P c \<longleftrightarrow> (se_name (cl_sess c) = [] \<or> P (se_name (cl_sess c))) \<and> (gm_entering (cl_game c) \<or> P (gm_name (cl_game c)))
     \<and> list_all P (cl_joins c) \<and> list_all (task_name_ok P) (cl_tasks c)"

lemma applyNameInput_fixed:
  "applyNameInput tbl buf cs bs en = (t, sub) \<Longrightarrow> sub \<noteq> [] \<Longrightarrow> fixed_name tbl sub"
  using ValidateName_fixed [of tbl]
  by (auto simp: applyNameInput_def fixed_name_def Let_def split: if_splits prod.splits) (metis fst_conv snd_conv)+

lemma reconnect_names: "names_inv P c \<Longrightarrow> \<not> gm_entering (cl_game c) \<Longrightarrow> names_inv P (reconnect inp c)"
  by (cases rule: reconnect_cases [of inp c]) (auto simp: names_inv_def split: if_splits)

lemma pumpNet_names: "names_inv P c \<Longrightarrow> pumpNet inp c = Some c' \<Longrightarrow> names_inv P c' \<and> gm_entering (cl_game c') = gm_entering (cl_game c)"
  by (auto simp: pumpNet_def names_inv_def Let_def split: option.splits net_error.splits if_splits)

lemma Update_names:
  assumes "Update tbl inp c = Some c'" "names_inv (fixed_name tbl) c"
  shows "names_inv (fixed_name tbl) c'"
proof -
  have n: "names_inv (fixed_name tbl) (tick_frame c)" using assms(2) by (simp add: names_inv_def)
  show ?thesis
  proof (cases "gm_entering (cl_game c)")
    case True
    obtain t sub where a: "applyNameInput tbl (gm_typed (cl_game (tick_frame c))) (in_chars inp) (in_backspace inp) (in_enter inp) = (t, sub)"
      by fastforce
    have "c' = enterName tbl inp (tick_frame c)" using assms(1) True by (simp add: Update_def tick_frame_def)
    then show ?thesis using n applyNameInput_fixed [OF a] by (auto simp: enterName_eq [OF a] names_inv_def)
  next
    case False
    show ?thesis
    proof (cases "gm_fatal (cl_game c) = []")
      case True
      obtain c2 where c2: "c2 = tick_frame c \<and> gm_net (cl_game c) = None \<or> pumpNet inp (tick_frame c) = Some c2"
        "c' = (if gm_net (cl_game c2) = None \<and> gm_fatal (cl_game c2) = [] then reconnect inp c2 else c2)"
        using Update_active [OF assms(1) False True] by blast
      then have "names_inv (fixed_name tbl) c2 \<and> \<not> gm_entering (cl_game c2)"
        using n False pumpNet_names [OF n, of inp c2] by auto
      then show ?thesis using c2(2) reconnect_names by simp
    next
      case False2: False
      then show ?thesis using assms(1) False n by (simp add: Update_def tick_frame_def)
    qed
  qed
qed

lemma names_step:
  assumes "client_step tbl msr srv c c'" "client_inv msr c" "names_inv (fixed_name tbl) c"
    and "\<And>w. srv (Received (FWelcome w)) \<Longrightarrow> fixed_name tbl (wm_Name w)"
  shows "names_inv (fixed_name tbl) c'"
  using assms(1)
proof cases
  case (update inp)
  then show ?thesis using Update_names assms(3) by blast
next
  case (draw millis cs bs g)
  have "cache_inv msr (cl_game c)" using assms(2) by (simp add: client_inv_def)
  then show ?thesis using Draw_total [of msr "cl_game c" millis "cl_sess c"] draw same_but_caches_fields assms(3)
    by (fastforce simp: names_inv_def)
next
  case (fetched base rest answer)
  obtain b where "c' = c\<lparr>cl_fetching := rest, cl_boardCh := b\<rparr>" using fetched(1) fetchBoard_eq by metis
  then show ?thesis using assms(3) by (simp add: names_inv_def)
next
  case (receive a m n s)
  have "se_name s = se_name (cl_sess c) \<or> fixed_name tbl (se_name s)"
    using receive(4,5) assms(4) by (auto simp: read_message_def Sess_Set_def split: incoming.splits frame.splits)
  then show ?thesis using receive(1) assms(3) by (auto simp: names_inv_def)
qed (use assms(3) in \<open>auto simp: names_inv_def Layout_def Let_def\<close>)

lemma names_run:
  assumes "client_run tbl msr srv (new_client font url []) c"
    and "\<And>w. srv (Received (FWelcome w)) \<Longrightarrow> fixed_name tbl (wm_Name w)"
  shows "names_inv (fixed_name tbl) c"
  using assms(1)
proof (induction rule: client_run.induct)
  case start
  show ?case by (simp add: names_inv_def new_client_def NewGame_def zero_sess_def)
next
  case (step c c')
  then show ?case using names_step assms(2) new_client_run_inv [OF step(1)] by blast
qed

text \<open>C19: a player who types a name on the start screen is never refused for it: as long as the server
  welcomes players under names that pass its own rule, every join the client ever sends, also after
  reconnects, carries a name that a hub with room admits.\<close>

theorem joins_are_admitted:
  assumes "client_run tbl msr srv (new_client font url []) c"
    and "\<And>w. srv (Received (FWelcome w)) \<Longrightarrow> ValidateName tbl (wm_Name w) = (wm_Name w, True)"
    and "name \<in> set (cl_joins c)"
    and "reachable tbl (NewHub cfg store clk rng) y" "y_running y" "y_events y = EvJoin cn name # evs"
    and "h_nextID (y_hub y) \<noteq> - 1" "int (fcard (h_players (y_hub y))) < h_maxPlayers (y_hub y)"
  shows "\<exists>r h' i s. handleJoin tbl cn name (y_hub y) = Some (r, h') \<and> jr_errMsg r = [] \<and> jr_sess r = Some i
    \<and> fmlookup (h_sess h') i = Some s \<and> uniqueName (y_hub y) name = Some (s_Name s)"
proof -
  have v: "ValidateName tbl name = (name, True)"
    using names_run [OF assms(1)] assms(2,3) by (simp add: names_inv_def fixed_name_def list_all_iff)
  note w = waiting_join [OF assms(4-6)]
  from handleJoin_inv [OF w assms(7), of tbl name] obtain r h' where
    r: "handleJoin tbl cn name (y_hub y) = Some (r, h')"
    "case jr_sess r of None \<Rightarrow> refused tbl cn name (jr_errMsg r) (y_hub y) h'
       | Some i \<Rightarrow> jr_errMsg r = [] \<and> admitted tbl cn name i (y_hub y) h'" by blast
  show ?thesis
  proof (cases "jr_sess r")
    case None
    then show ?thesis using r(2) v assms(8) by (simp add: refused_def)
  next
    case (Some i)
    then have "jr_errMsg r = []" "admitted tbl cn name i (y_hub y) h'" using r(2) by simp_all
    then show ?thesis using r(1) Some v by (auto simp: admitted_def joined_rel_def)
  qed
qed

definition typed_ada :: Input where
  "typed_ada = \<lparr>in_chars = [97, 100, 97], in_keys = [KeyEnter], in_touches = 0, in_millis = (\<lambda>_. 0), in_now = 0\<rparr>"

lemma ada_run:
  obtains c where "client_run (\<lambda>_. False) msr srv (new_client True [] []) c" "''ada'' \<in> set (cl_joins c)"
proof -
  have ada: "of_runes [97, 100, 97] = ''ada''" using of_runes_ascii [of "''ada''"] by (simp add: byte_def)
  have "runes ''ada'' = map byte ''ada''" by (rule runes_ascii) (simp add: byte_def)
  then have "ValidateName (\<lambda>_. False) ''ada'' = (''ada'', True)"
    using ValidateName_fixed [OF valid_ada] ada
    by (simp add: ValidateName_def byte_def trim_spaces_def is_space_def is_print_def del: runes.simps)
  then have a: "applyNameInput (\<lambda>_. False) [] [97, 100, 97] False True = ([], ''ada'')"
    by (simp add: applyNameInput_def ada Let_def del: of_runes_simps)
  let ?c0 = "new_client True [] []"
  define c1 where "c1 = enterName (\<lambda>_. False) typed_ada (tick_frame ?c0)"
  have f: "searching c1" "\<not> gm_dialing (cl_game c1)" "cl_tasks c1 = []" "cl_dialRes c1 = None" "next_name c1 = ''ada''"
    unfolding c1_def using a
    by (subst enterName_eq, (simp add: typed_ada_def new_client_def NewGame_def in_backspace_def in_enter_def; fail),
        simp add: searching_def next_name_def new_client_def NewGame_def zero_sess_def)+
  have "Update (\<lambda>_. False) typed_ada ?c0 = Some c1"
    by (simp add: Update_def c1_def new_client_def NewGame_def tick_frame_def)
  then have r1: "client_run (\<lambda>_. False) msr srv ?c0 c1" by (intro one_step client_step.update)
  obtain c' where c': "client_run (\<lambda>_. False) msr srv c1 c'" "c' = connected (length (cl_nets c1)) (dialled (next_name c1)
     (c1\<lparr>cl_game := (cl_game c1)\<lparr>gm_frame := gm_frame (cl_game c1) + 1\<rparr>\<rparr>))"
    using idle_connects [OF f(1-4)] by blast
  show thesis by (rule that [OF client_run_trans [OF c'(1) r1]]) (simp add: c'(2) connected_def dialled_def f(5))
qed

theorem joins_are_admitted_witness:
  "\<exists>r h' i s. handleJoin (\<lambda>_. False) 0 ''ada'' (quick_hub\<lparr>h_conns := fmupd 0 newClientConn fmempty\<rparr>) = Some (r, h')
    \<and> jr_errMsg r = [] \<and> jr_sess r = Some i \<and> fmlookup (h_sess h') i = Some s"
proof -
  obtain c where c: "client_run (\<lambda>_. False) (\<lambda>_ _. (0, 0)) (\<lambda>_. False) (new_client True [] []) c" "''ada'' \<in> set (cl_joins c)"
    using ada_run by blast
  obtain y where y: "reachable (\<lambda>_. False) quick_hub y" "y_running y" "y_events y = [EvJoin 0 ''ada'']"
    "y_hub y = quick_hub\<lparr>h_conns := fmupd 0 newClientConn fmempty\<rparr>" using join_queued by blast
  show ?thesis
    using joins_are_admitted [OF c(1) _ c(2) y(1) [unfolded quick_hub_def] y(2,3)] y(4) by (auto simp: fcard_fempty)
qed

section \<open>A player locked out\<close>

text \<open>A live connection: open, no error pending.\<close>

definition live :: "nat \<Rightarrow> Client \<Rightarrow> bool" where
  "live a c \<longleftrightarrow> gm_net (cl_game c) = Some a \<and> a < length (cl_nets c) \<and> \<not> nt_closed (cl_nets c ! a)
     \<and> nt_err (cl_nets c ! a) = None \<and> gm_fatal (cl_game c) = [] \<and> \<not> gm_entering (cl_game c)
     \<and> \<not> gm_dialing (cl_game c) \<and> cl_tasks c = [] \<and> cl_dialRes c = None"

lemma dialled_live:
  "searching c \<Longrightarrow> live (length (cl_nets c)) (connected (length (cl_nets c)) (dialled n (c\<lparr>cl_game := (cl_game c)\<lparr>gm_frame := k\<rparr>\<rparr>)))"
  by (simp add: live_def searching_def connected_def dialled_def NewNet_def)

lemma idle_goes_live:
  assumes "searching c" "\<not> gm_dialing (cl_game c)" "cl_tasks c = []" "cl_dialRes c = None"
  shows "\<exists>a c'. client_run tbl msr srv c c' \<and> live a c' \<and> cl_sess c' = cl_sess c \<and> cl_joins c' = cl_joins c @ [next_name c]"
proof -
  obtain c' where "client_run tbl msr srv c c'" "c' = connected (length (cl_nets c)) (dialled (next_name c)
     (c\<lparr>cl_game := (cl_game c)\<lparr>gm_frame := gm_frame (cl_game c) + 1\<rparr>\<rparr>))"
    using idle_connects [OF assms] by blast
  moreover from this(2) have "live (length (cl_nets c)) c'" using dialled_live [OF assms(1)] by simp
  moreover have "cl_sess c' = cl_sess c" "cl_joins c' = cl_joins c @ [next_name c]"
    using calculation(2) by (simp_all add: connected_def dialled_def)
  ultimately show ?thesis by blast
qed

lemma live_welcomed:
  assumes "live a c" "srv (Received (FWelcome w))"
  shows "\<exists>c'. client_run tbl msr srv c c' \<and> live a c' \<and> se_name (cl_sess c') = wm_Name w \<and> cl_joins c' = cl_joins c"
proof -
  let ?s = "Sess_Set (wm_You w) (wm_Name w) (Palette (wm_Bird w)) (Accessory (wm_Bird w)) (wm_Spect w) (cl_sess c)"
  have "client_step tbl msr srv c (set_net a (cl_nets c ! a) (c\<lparr>cl_sess := ?s\<rparr>))"
    using assms by (intro client_step.receive [where m = "Received (FWelcome w)"]) (simp_all add: live_def read_message_def)
  then show ?thesis using assms(1)
    by (intro exI [of _ "set_net a (cl_nets c ! a) (c\<lparr>cl_sess := ?s\<rparr>)"] conjI one_step)
      (simp_all add: live_def Sess_Set_def)
qed

lemma live_dropped:
  assumes "live a c" "srv (ReadError e)"
  shows "\<exists>c'. client_run tbl msr srv c c' \<and> searching c' \<and> \<not> gm_dialing (cl_game c') \<and> cl_tasks c' = [] \<and> cl_dialRes c' = None
     \<and> cl_sess c' = cl_sess c \<and> cl_joins c' = cl_joins c"
proof -
  define n where "n = (net_fail (NetLost e) (cl_nets c ! a))\<lparr>nt_closed := True\<rparr>"
  define d where "d = set_net a n c"
  have "client_step tbl msr srv c (set_net a n (c\<lparr>cl_sess := cl_sess c\<rparr>))"
    using assms by (intro client_step.receive [where m = "ReadError e"]) (simp_all add: live_def read_message_def n_def)
  then have cd: "client_run tbl msr srv c d" unfolding d_def by (intro one_step) simp
  have e: "nt_err (cl_nets (tick_frame d) ! a) = Some (NetLost e)" "gm_net (cl_game (tick_frame d)) = Some a"
    "a < length (cl_nets (tick_frame d))"
    using assms(1) by (simp_all add: d_def n_def net_fail_def live_def)
  obtain c2 where c2: "pumpNet (some_input 0) (tick_frame d) = Some c2" "searching c2" "\<not> gm_dialing (cl_game c2)"
    "cl_tasks c2 = []" "cl_dialRes c2 = None" "cl_sess c2 = cl_sess c" "cl_joins c2 = cl_joins c"
    "gm_nextTry (cl_game c2) = Some (retryDelay (gm_attempts (cl_game c) + 1))"
    using e assms(1) by (cases rule: pumpNet_cases [OF e(2,3), where inp = "some_input 0"])
      (auto simp: searching_def live_def d_def some_input_def)
  have "0 < retryDelay (gm_attempts (cl_game c) + 1)"
  proof (cases "1 \<le> gm_attempts (cl_game c) + 1")
    case True
    then show ?thesis by (simp add: retryDelay_min)
  qed (simp add: retryDelay_def)
  then have "reconnect (some_input 0) c2 = c2" using c2(3,8) by (simp add: reconnect_def some_input_def)
  then have "Update tbl (some_input 0) d = Some c2"
    using assms(1) c2(1,2) by (simp add: Update_def live_def tick_frame_def d_def searching_def)
  then have "client_run tbl msr srv d c2" by (intro one_step client_step.update)
  then show ?thesis using client_run_trans [OF _ cd] c2(2-7) by blast
qed

lemma live_refused:
  assumes "live a c" "srv (Received (FError msg))" "msg \<noteq> []"
  shows "\<exists>c'. client_run tbl msr srv c c' \<and> gm_fatal (cl_game c') = msg \<and> cl_joins c' = cl_joins c"
proof -
  define n where "n = net_fail (ErrFatal msg) (cl_nets c ! a)"
  define d where "d = set_net a n c"
  have "client_step tbl msr srv c (set_net a n (c\<lparr>cl_sess := cl_sess c\<rparr>))"
    using assms by (intro client_step.receive [where m = "Received (FError msg)"]) (simp_all add: live_def read_message_def n_def)
  then have cd: "client_run tbl msr srv c d" unfolding d_def by (intro one_step) simp
  have e: "nt_err (cl_nets (tick_frame d) ! a) = Some (ErrFatal msg)" "gm_net (cl_game (tick_frame d)) = Some a"
    "a < length (cl_nets (tick_frame d))"
    using assms(1) by (simp_all add: d_def n_def net_fail_def live_def)
  obtain c2 where c2: "pumpNet (some_input 0) (tick_frame d) = Some c2" "gm_fatal (cl_game c2) = msg" "cl_joins c2 = cl_joins c"
    using e assms(1) by (cases rule: pumpNet_cases [OF e(2,3), where inp = "some_input 0"]) (auto simp: d_def)
  then have "Update tbl (some_input 0) d = Some c2"
    using assms(1,3) by (simp add: Update_def live_def tick_frame_def d_def)
  then have "client_run tbl msr srv d c2" by (intro one_step client_step.update)
  then show ?thesis using client_run_trans [OF _ cd] c2(2-3) by blast
qed

text \<open>The values are a server that is full and a resize after the rejection.\<close>

theorem rejection_is_final_witness:
  "\<exists>(c :: Client). gm_fatal (cl_game c) = ''server full'' \<and> gm_net (cl_game (c\<lparr>cl_game := snd (Layout 800 600 (cl_game c))\<rparr>)) = None"
proof -
  let ?srv = "\<lambda>m. m = Received (FError ''server full'')"
  let ?run = "client_run (\<lambda>_. False) (\<lambda>_ _. (0, 0)) ?srv"
  let ?c0 = "new_client True [] ''ada''"
  have c0: "searching ?c0" "\<not> gm_dialing (cl_game ?c0)" "cl_tasks ?c0 = []" "cl_dialRes ?c0 = None"
    by (simp_all add: searching_def new_client_def NewGame_def)
  obtain a c1 where c1: "?run ?c0 c1" "live a c1" using idle_goes_live [OF c0] by blast
  obtain c where c: "?run c1 c" "gm_fatal (cl_game c) = ''server full''"
    using live_refused [where srv = ?srv and msg = "''server full''", OF c1(2)] by auto
  have run: "?run ?c0 c" using c(1) c1(1) by (rule client_run_trans)
  have fatal: "gm_fatal (cl_game c) \<noteq> []" using c(2) by simp
  have "gm_net (cl_game (c\<lparr>cl_game := snd (Layout 800 600 (cl_game c))\<rparr>)) = None"
    using rejection_is_final [OF run fatal one_step [OF client_step.resize]] by blast
  then show ?thesis using c(2) by blast
qed

text \<open>A hub with room refuses a name that breaks the rule.\<close>

lemma empty_hub_refuses:
  assumes "\<not> snd (ValidateName tbl name)"
  shows "\<exists>r h'. handleJoin tbl 0 name (quick_hub\<lparr>h_conns := fmupd 0 newClientConn fmempty\<rparr>) = Some (r, h')
    \<and> jr_sess r = None \<and> jr_errMsg r = ''invalid name''"
proof -
  let ?h = "quick_hub\<lparr>h_conns := fmupd 0 newClientConn fmempty\<rparr>"
  obtain y where y: "reachable (\<lambda>_. False) quick_hub y" "y_running y" "y_hub y = ?h" using join_queued by blast
  then have inv: "hub_inv ?h" unfolding quick_hub_def by (auto dest: reachable_hub)
  have c: "open_conn (h_conns ?h) 0" "no_player_on ?h 0" "h_nextID ?h \<noteq> - 1"
    by (simp_all add: open_conn_def no_player_on_def newClientConn_def)
  from handleJoin_inv [OF inv c, of tbl name] obtain r h' where
    r: "handleJoin tbl 0 name ?h = Some (r, h')"
    "case jr_sess r of None \<Rightarrow> refused tbl 0 name (jr_errMsg r) ?h h'
       | Some i \<Rightarrow> jr_errMsg r = [] \<and> admitted tbl 0 name i ?h h'" by blast
  show ?thesis
  proof (cases "jr_sess r")
    case None
    then show ?thesis using r by (auto simp: refused_def fcard_fempty)
  next
    case (Some i)
    then show ?thesis using r(2) assms by (simp add: admitted_def)
  qed
qed

definition dedup_server :: "string \<Rightarrow> incoming \<Rightarrow> bool" where
  "dedup_server nm m \<longleftrightarrow> (case m of
       Received (FWelcome w) \<Rightarrow> wm_Name w = nm
     | ReadError e \<Rightarrow> True
     | Received (FError msg) \<Rightarrow> msg = ''invalid name''
     | _ \<Rightarrow> False)"


end
