(* ===== verification/Cycle_Refinement.thy ===== *)
theory Cycle_Refinement
  imports Main
begin

text \<open>
  Refinement of an abstract cycle: a program whose steps, from states that satisfy an invariant, keep
  the invariant and are a step of the cycle or leave its state alone. The runs of the program are then
  runs of the cycle. The server and the client of the game are its instances.
\<close>

locale simulation =
  fixes step :: "'s \<Rightarrow> 's \<Rightarrow> bool" and inv :: "'s \<Rightarrow> bool" and abs :: "'s \<Rightarrow> 'a" and cycle :: "'a \<Rightarrow> 'a \<Rightarrow> bool"
  assumes step_inv: "inv s \<Longrightarrow> step s t \<Longrightarrow> inv t"
    and step_sim: "inv s \<Longrightarrow> step s t \<Longrightarrow> abs t = abs s \<or> cycle (abs s) (abs t)"
begin

lemma run_inv: "rtranclp step s t \<Longrightarrow> inv s \<Longrightarrow> inv t"
  by (induction rule: rtranclp_induct) (auto intro: step_inv)

lemma run_sim: "rtranclp step s t \<Longrightarrow> inv s \<Longrightarrow> rtranclp cycle (abs s) (abs t)"
proof (induction rule: rtranclp_induct)
  case (step t u)
  have "inv t" using run_inv [OF step(1,4)] .
  then have "abs u = abs t \<or> cycle (abs t) (abs u)" using step(2) by (rule step_sim)
  with step(3) [OF step(4)] show ?case by (auto intro: rtranclp.rtrancl_into_rtrancl)
qed simp

end

end
