(* ===== verification/Client_Cycle.thy ===== *)
theory Client_Cycle
  imports Client_Spec Cycle_Refinement
begin

text \<open>
  The abstract state machine of a client's connection, and that the running client refines it.
\<close>

section \<open>The cycle\<close>

datatype link_state = LinkEntry | LinkIdle | LinkDialling | LinkOnline | LinkRefused

text \<open>The phase a client is in, read off its game.\<close>

definition link_of :: "Client \<Rightarrow> link_state" where
  "link_of c = (let g = cl_game c in
     if gm_entering g then LinkEntry
     else if gm_fatal g \<noteq> [] then LinkRefused
     else if gm_net g \<noteq> None then LinkOnline
     else if gm_dialing g then LinkDialling
     else LinkIdle)"

fun link_step :: "link_state \<Rightarrow> link_state \<Rightarrow> bool" where
  "link_step LinkEntry s \<longleftrightarrow> s = LinkIdle"
| "link_step LinkIdle s \<longleftrightarrow> s = LinkDialling"
| "link_step LinkDialling s \<longleftrightarrow> s = LinkOnline \<or> s = LinkIdle"
| "link_step LinkOnline s \<longleftrightarrow> s = LinkRefused \<or> s = LinkIdle"
| "link_step LinkRefused s \<longleftrightarrow> False"

text \<open>No connection holds an empty rejection, as long as the server sends none.\<close>

definition reasons_inv :: "Client \<Rightarrow> bool" where
  "reasons_inv c \<longleftrightarrow> list_all (\<lambda>n. nt_err n \<noteq> Some (ErrFatal [])) (cl_nets c)"

section \<open>Refinement\<close>

lemmas link_of_eq = link_of_def [unfolded Let_def]

lemma reconnect_link:
  assumes "link_of c = LinkIdle \<or> link_of c = LinkDialling"
  shows "link_of (reconnect inp c) = link_of c \<or> link_step (link_of c) (link_of (reconnect inp c))"
  using assms by (cases rule: reconnect_cases [of inp c]) (auto simp: link_of_eq Let_def split: if_splits)

lemma reconnect_waits:
  "gm_nextTry (cl_game c) = Some (in_now inp + d) \<Longrightarrow> 0 < d \<Longrightarrow> \<not> gm_dialing (cl_game c) \<Longrightarrow> reconnect inp c = c"
  by (simp add: reconnect_def)

lemma retryDelay_pos: "0 < retryDelay k"
proof (cases "1 \<le> k")
  case True
  then show ?thesis by (simp add: retryDelay_min)
qed (simp add: retryDelay_def)

lemma pumpNet_link:
  assumes "gm_net (cl_game c) = Some a" "a < length (cl_nets c)" "nt_err (cl_nets c ! a) \<noteq> Some (ErrFatal [])"
    and "\<not> gm_entering (cl_game c)" "gm_fatal (cl_game c) = []" "\<not> gm_dialing (cl_game c)" "pumpNet inp c = Some d"
  defines "d' \<equiv> if gm_net (cl_game d) = None \<and> gm_fatal (cl_game d) = [] then reconnect inp d else d"
  shows "link_of d' = LinkOnline \<or> link_step LinkOnline (link_of d')"
  using assms(1,2)
proof (cases rule: pumpNet_cases [where inp = inp])
  case (lost e)
  define t where "t = retryDelay (gm_attempts (cl_game c) + 1)"
  have d: "gm_net (cl_game d) = None" "gm_fatal (cl_game d) = []" "\<not> gm_dialing (cl_game d)" "\<not> gm_entering (cl_game d)"
    "gm_nextTry (cl_game d) = Some (in_now inp + t)"
    using lost(2) assms(4-7) by (auto simp: t_def)
  have "d' = d" unfolding d'_def using d reconnect_waits [OF d(5) _ d(3)] retryDelay_pos by (simp add: t_def)
  then show ?thesis using d by (simp add: link_of_eq)
next
  case (refused msg)
  then show ?thesis using assms(3-7) by (auto simp: d'_def link_of_eq)
next
  case alive
  then show ?thesis using assms(1,4-7) by (auto simp: d'_def link_of_eq)
qed

lemma Update_link:
  assumes "Update tbl inp c = Some c'" "dial_inv c" "reasons_inv c"
  shows "link_of c' = link_of c \<or> link_step (link_of c) (link_of c')"
proof (cases "gm_entering (cl_game c)")
  case True
  obtain t sub where a: "applyNameInput tbl (gm_typed (cl_game (tick_frame c))) (in_chars inp) (in_backspace inp) (in_enter inp) = (t, sub)"
    by fastforce
  have "c' = enterName tbl inp (tick_frame c)" using assms(1) True by (simp add: Update_def tick_frame_def)
  then show ?thesis using True assms(2) by (auto simp: enterName_eq [OF a] link_of_eq dial_inv_def)
next
  case entered: False
  show ?thesis
  proof (cases "gm_fatal (cl_game c) = []")
    case False
    then have "c' = tick_frame c" using assms(1) entered by (simp add: Update_def tick_frame_def)
    then show ?thesis by (simp add: link_of_eq)
  next
    case True
    have tick: "link_of (tick_frame c) = link_of c" by (simp add: link_of_eq)
    show ?thesis
    proof (cases "gm_net (cl_game c)")
      case None
      then have "c' = reconnect inp (tick_frame c)" using assms(1) True entered Update_searching [of c tbl inp] by (simp add: searching_def)
      then show ?thesis using reconnect_link [of "tick_frame c" inp] None True entered unfolding tick
        by (auto simp: link_of_eq split: if_splits)
    next
      case (Some a)
      obtain c2 where c2: "pumpNet inp (tick_frame c) = Some c2"
        "c' = (if gm_net (cl_game c2) = None \<and> gm_fatal (cl_game c2) = [] then reconnect inp c2 else c2)"
        using Update_active [OF assms(1) entered True] Some by auto
      have "a < length (cl_nets c)" "\<not> gm_dialing (cl_game c)" using assms(2) Some by (simp_all add: dial_inv_def)
      moreover have "nt_err (cl_nets c ! a) \<noteq> Some (ErrFatal [])"
        using assms(3) calculation(1) by (simp add: reasons_inv_def list_all_length)
      ultimately have "link_of c' = LinkOnline \<or> link_step LinkOnline (link_of c')"
        using pumpNet_link [of "tick_frame c" a inp c2] Some True entered c2 by simp
      moreover have "link_of c = LinkOnline" using Some True entered by (simp add: link_of_eq)
      ultimately show ?thesis by simp
    qed
  qed
qed

text \<open>The other goroutines and the frames do not change the phase, and only a dial changes the joins.\<close>

lemma step_link:
  assumes "client_step tbl msr srv c c'" "client_inv msr c"
  shows "link_of c' = link_of c \<and> (cl_joins c' = cl_joins c \<or> link_of c = LinkDialling) \<or> (\<exists>inp. Update tbl inp c = Some c')"
  using assms(1)
proof cases
  case (update inp)
  then show ?thesis by blast
next
  case (draw millis cs bs g)
  have "cache_inv msr (cl_game c)" using assms(2) by (simp add: client_inv_def)
  then have "same_but_caches (cl_game c) g" using Draw_total [of msr "cl_game c" millis "cl_sess c"] draw by auto
  then show ?thesis using draw same_but_caches_fields [of "cl_game c" g] by (simp add: link_of_eq)
next
  case (dial_ok ts name us)
  have "dial_inv c" using assms(2) by (simp add: client_inv_def)
  then have "link_of c = LinkDialling" using dial_ok(2) by (auto simp: dial_inv_def link_of_eq split: if_splits)
  moreover have "link_of c' = link_of c" using dial_ok(1) by (simp add: link_of_eq)
  ultimately show ?thesis by blast
next
  case (fetched base rest answer)
  obtain b where "c' = c\<lparr>cl_fetching := rest, cl_boardCh := b\<rparr>" using fetched(1) fetchBoard_eq by metis
  then show ?thesis by (simp add: link_of_eq)
qed (auto simp: link_of_eq Layout_def Let_def)

lemma Update_joins:
  assumes "Update tbl inp c = Some c'"
  shows "cl_joins c' = cl_joins c"
proof -
  have r: "cl_joins (reconnect inp d) = cl_joins d" for d by (cases rule: reconnect_cases [of inp d]) simp_all
  have p: "pumpNet inp d = Some e \<Longrightarrow> cl_joins e = cl_joins d" for d e
    by (auto simp: pumpNet_def Let_def split: option.splits if_splits)
  show ?thesis
    using assms r p by (auto simp: Update_def Let_def enterName_def bind_eq_Some_conv split: prod.splits if_splits option.splits)
qed

lemma reasons_step:
  assumes "client_step tbl msr srv c c'" "reasons_inv c" "\<not> srv (Received (FError []))"
  shows "reasons_inv c'"
  using assms(1)
proof cases
  case (update inp)
  have r: "cl_nets (reconnect inp d) = cl_nets d" for d by (cases rule: reconnect_cases [of inp d]) simp_all
  have p: "pumpNet inp d = Some e \<Longrightarrow> reasons_inv d \<Longrightarrow> reasons_inv e" for d e
    by (auto simp: pumpNet_def Let_def reasons_inv_def list_all_length nth_list_update Flap_def split: option.splits if_splits)
  show ?thesis
    using update assms(2) r p by (auto simp: Update_def Let_def enterName_def bind_eq_Some_conv reasons_inv_def split: prod.splits if_splits option.splits)
next
  case (receive a m n s)
  have "nt_err n \<noteq> Some (ErrFatal [])"
    using receive(2,4,5) assms(2,3)
    by (auto simp: read_message_def net_fail_def reasons_inv_def list_all_length split: incoming.splits frame.splits option.splits)
  then show ?thesis using receive(1) assms(2) by (simp add: reasons_inv_def list_all_update)
next
  case (send a failure msg n)
  have "nt_err n \<noteq> Some (ErrFatal [])"
    using send(2,3) assms(2)
    by (auto simp: write_command_def net_fail_def reasons_inv_def list_all_length split: list.splits option.splits)
  then show ?thesis using send(1) assms(2) by (simp add: reasons_inv_def list_all_update)
next
  case (fetched base rest answer)
  obtain b where "c' = c\<lparr>cl_fetching := rest, cl_boardCh := b\<rparr>" using fetched(1) fetchBoard_eq by metis
  then show ?thesis using assms(2) by (simp add: reasons_inv_def)
qed (use assms(2) in \<open>simp_all add: reasons_inv_def NewNet_def\<close>)

lemma run_reasons:
  "client_run tbl msr srv (new_client font url name) c \<Longrightarrow> \<not> srv (Received (FError [])) \<Longrightarrow> reasons_inv c"
  by (induction rule: client_run.induct) (simp add: reasons_inv_def new_client_def, metis reasons_step)

interpretation client: simulation "client_step tbl msr srv" "\<lambda>c. client_inv msr c \<and> reasons_inv c \<and> \<not> srv (Received (FError []))"
  link_of link_step for tbl msr srv
proof unfold_locales
  fix c c' assume inv: "client_inv msr c \<and> reasons_inv c \<and> \<not> srv (Received (FError []))" and step: "client_step tbl msr srv c c'"
  then show "client_inv msr c' \<and> reasons_inv c' \<and> \<not> srv (Received (FError []))" using client_step_inv reasons_step by blast
  have "dial_inv c" using inv by (simp add: client_inv_def)
  then show "link_of c' = link_of c \<or> link_step (link_of c) (link_of c')"
    using Update_link inv step_link [OF step] by metis
qed

lemma client_runs: "client_run tbl msr srv c0 c \<Longrightarrow> rtranclp (client_step tbl msr srv) c0 c"
  by (induction rule: client_run.induct) (auto intro: rtranclp.rtrancl_into_rtrancl)

text \<open>C14: the client refines the connection cycle start screen, idle, dialling, online, refused. Every step
  of the running client, of whatever goroutine, leaves the phase or takes one transition of the
  cycle, so every run is a run of the cycle; only updates take transitions, and joins are sent only
  while dialling. The server must not send an empty rejection; the hub sends none.\<close>

theorem client_refines_cycle:
  assumes "client_run tbl msr srv (new_client font url name) c" "\<not> srv (Received (FError []))"
    and "client_step tbl msr srv c c'"
  shows "(link_of c' = link_of c \<or> link_step (link_of c) (link_of c') \<and> (\<exists>inp. Update tbl inp c = Some c'))
    \<and> (cl_joins c' = cl_joins c \<or> link_of c = LinkDialling)
    \<and> rtranclp link_step (link_of (new_client font url name)) (link_of c')"
proof (intro conjI)
  have inv: "client_inv msr c" by (rule new_client_run_inv [OF assms(1)])
  then have "dial_inv c" by (simp add: client_inv_def)
  from Update_link [OF _ this run_reasons [OF assms(1,2)]] Update_joins step_link [OF assms(3) inv]
  show "link_of c' = link_of c \<or> link_step (link_of c) (link_of c') \<and> (\<exists>inp. Update tbl inp c = Some c')"
    "cl_joins c' = cl_joins c \<or> link_of c = LinkDialling" by metis+
  have "client_inv msr (new_client font url name) \<and> reasons_inv (new_client font url name) \<and> \<not> srv (Received (FError []))"
    using new_client_inv assms(2) by (simp add: reasons_inv_def new_client_def)
  from client.run_sim [OF client_runs [OF client_run.step [OF assms(1,3)]] this]
  show "rtranclp link_step (link_of (new_client font url name)) (link_of c')" .
qed

theorem client_refines_cycle_witness:
  "link_of (new_client True [] ''ada'') = LinkIdle \<and> link_of first_attempt = LinkDialling
   \<and> link_step (link_of (new_client True [] ''ada'')) (link_of first_attempt)"
proof -
  let ?c = "new_client True [] ''ada''" and ?m = "\<lambda>_ _. (0, 0) :: f64 \<times> f64"
  have "searching ?c" "\<not> gm_dialing (cl_game ?c)" "cl_tasks ?c = []" "gm_nextTry (cl_game ?c) = None" "next_name ?c = ''ada''"
    by (simp_all add: searching_def next_name_def new_client_def NewGame_def zero_sess_def)
  then have "Update (\<lambda>_. False) (some_input 0) ?c = Some first_attempt"
    using start_dial [of ?c "some_input 0" "\<lambda>_. False"] by (simp add: first_attempt_def Let_def)
  then have "client_step (\<lambda>_. False) ?m (\<lambda>_. False) ?c first_attempt" by (rule client_step.update)
  from client_refines_cycle [OF client_run.start _ this] show ?thesis
    by (auto simp: link_of_eq first_attempt_def new_client_def NewGame_def)
qed

end
