(* ===== verification/Client_View_Spec.thy ===== *)
theory Client_View_Spec
  imports Client_Run
begin

text \<open>
  The properties of what the client shows: the clock estimate, the snapshot ring and the interpolated
  view, the frame with its caches, the scrolling layers, the pipes, the overlay and the layout.
\<close>

section \<open>The clock\<close>

text \<open>C21: the estimate of the server clock never leaves the observations: after any number of samples
  whose offsets lie between \<open>lo\<close> and \<open>hi\<close> milliseconds, rejected and averaged ones alike and with
  every rounding, the estimated server time lies between the local time plus \<open>lo\<close> and plus \<open>hi\<close>.\<close>

theorem clock_within_observations:
  assumes "xs \<noteq> []" "list_all (\<lambda>(s, l). lo \<le> s - l \<and> s - l \<le> hi) xs" "\<bar>lo\<bar> < 2 ^ 53" "\<bar>hi\<bar> < 2 ^ 53"
  shows "t + lo \<le> ServerNow t (sample_all xs NewClock) \<and> ServerNow t (sample_all xs NewClock) \<le> t + hi"
proof -
  have "of_int lo \<le> observed s l \<and> observed s l \<le> of_int hi" if "(s, l) \<in> set xs" for s l
  proof -
    have b: "lo \<le> s - l" "s - l \<le> hi" using assms(2) that by (auto simp: list_all_iff)
    then have "\<bar>s - l\<bar> < 2 ^ 53" using assms(3,4) by linarith
    then have "observed s l = of_int (s - l)" unfolding observed_def by (rule rnd64_of_int)
    then show ?thesis using b by simp
  qed
  then have "in_hull (of_int lo) (of_int hi) (sample_all xs NewClock)"
    using assms(1) by (intro sample_all_hull) (auto simp: NewClock_def)
  then show ?thesis
    using go_round_bounds [of lo "ck_offset (sample_all xs NewClock)" hi] by (auto simp: in_hull_def ServerNow_def)
qed

theorem clock_within_observations_witness:
  "100 - 5 \<le> ServerNow 100 (sample_all [(10, 15), (1000, 1000), (20, 17)] NewClock)
   \<and> ServerNow 100 (sample_all [(10, 15), (1000, 1000), (20, 17)] NewClock) \<le> 100 + 3"
  using clock_within_observations [of "[(10, 15), (1000, 1000), (20, 17)]" "- 5" 3 100] by simp

text \<open>A jump of the clocks is followed after thirty samples: as long as the samples stay more than
  250 ms from the estimate, the first twenty-nine in a row change nothing but the count, and the
  thirtieth makes its offset the estimate.\<close>

theorem clock_resyncs:
  assumes "ck_have c" "0 \<le> ck_jumps c" "xs \<noteq> []" "ck_jumps c + int (length xs) \<le> jumpsBeforeResync"
    and "list_all (\<lambda>(s, l). \<bar>fsub (observed s l) (ck_offset c)\<bar> > jumpRejectMs) xs"
  shows "sample_all xs c = (if ck_jumps c + int (length xs) < jumpsBeforeResync
     then c\<lparr>ck_jumps := ck_jumps c + int (length xs)\<rparr>
     else c\<lparr>ck_jumps := 0, ck_offset := observed (fst (last xs)) (snd (last xs))\<rparr>)"
  using assms
proof (induction xs arbitrary: c)
  case (Cons x xs)
  obtain s l where x: "x = (s, l)" by (cases x)
  show ?case
  proof (cases "xs = []")
    case True
    then show ?thesis using Cons.prems x by (cases c) (auto simp: sample_all_def Sample_def Let_def)
  next
    case False
    let ?c = "Sample s l c"
    have c: "?c = c\<lparr>ck_jumps := ck_jumps c + 1\<rparr>"
      using Cons.prems x False by (cases xs) (auto simp: Sample_def Let_def)
    have "sample_all xs ?c = (if ck_jumps ?c + int (length xs) < jumpsBeforeResync
       then ?c\<lparr>ck_jumps := ck_jumps ?c + int (length xs)\<rparr>
       else ?c\<lparr>ck_jumps := 0, ck_offset := observed (fst (last xs)) (snd (last xs))\<rparr>)"
      by (rule Cons.IH) (use Cons.prems False x in \<open>simp_all add: c\<close>)
    then show ?thesis using False x by (simp add: sample_all_def c algebra_simps)
  qed
qed simp

theorem clock_resyncs_witness:
  "ck_offset (sample_all (replicate 30 (5000, 0)) \<lparr>ck_offset = 0, ck_have = True, ck_jumps = 0\<rparr>) = 5000"
proof -
  have o: "observed 5000 0 = 5000" using rnd64_of_int [of 5000] by (simp add: observed_def)
  have d: "fsub 5000 0 = 5000" using rnd64_of_int [of 5000] by (simp add: fsub_def)
  show ?thesis
    using clock_resyncs [of "\<lparr>ck_offset = 0, ck_have = True, ck_jumps = 0\<rparr>" "replicate 30 (5000, 0)"]
    by (simp add: o d list_all_iff last_replicate)
qed

section \<open>The snapshot ring\<close>

text \<open>The ring holds the last eight of the snapshots that are newer than all received before them,
  oldest first; late and duplicate ones leave no trace.\<close>

theorem ring_holds_newest:
  "fold Push ss NewRing = last_n RingLen (fresh_snaps [] ss)
   \<and> sorted_wrt (\<lambda>a b. sn_Now a < sn_Now b) (fresh_snaps [] ss)"
proof -
  have "sorted_wrt (\<lambda>a b. sn_Now a < sn_Now b) acc \<Longrightarrow> fold Push ss (last_n RingLen acc) = last_n RingLen (fresh_snaps acc ss)
      \<and> sorted_wrt (\<lambda>a b. sn_Now a < sn_Now b) (fresh_snaps acc ss)" for acc
  proof (induction ss arbitrary: acc)
    case (Cons s ss)
    let ?acc = "if list_all (\<lambda>x. sn_Now x < sn_Now s) acc then acc @ [s] else acc"
    have "sorted_wrt (\<lambda>a b. sn_Now a < sn_Now b) ?acc" using Cons.prems by (auto simp: sorted_wrt_append list_all_iff)
    then show ?case using Cons.IH [of ?acc] Push_last_n [OF Cons.prems, of s] by simp
  qed simp
  from this [of "[]"] show ?thesis by (simp add: NewRing_def last_n_def)
qed

text \<open>Between an old value and a new one; the new one where there is no old one.\<close>

fun within_values :: "real option \<Rightarrow> real \<Rightarrow> real \<Rightarrow> bool" where
  "within_values None new x = (x = new)"
| "within_values (Some old) new x = (min old new - 1 / 2 ^ 39 \<le> x \<and> x \<le> max old new + 1 / 2 ^ 39)"

lemma bird_view_within:
  assumes "list_all (\<lambda>b. \<bar>bs_Y b\<bar> \<le> 2048) (sn_Birds s0)" "\<bar>bs_Y b\<bar> \<le> 2048" "0 \<le> alpha" "alpha \<le> 1"
  shows "bv_ID (bird_view s0 alpha b) = bs_ID b
    \<and> within_values (map_option bs_Y (findBird s0 (bs_ID b))) (bs_Y b) (bv_Y (bird_view s0 alpha b))"
proof (cases "findBird s0 (bs_ID b)")
  case (Some old)
  then have "\<bar>bs_Y old\<bar> \<le> 2048" using assms(1) by (auto simp: findBird_def find_Some_iff list_all_length)
  then show ?thesis using Some lerp_between [OF _ assms(2-4)] by (simp add: bird_view_def Let_def)
qed (simp add: bird_view_def Let_def)

lemma pipe_view_within:
  assumes "list_all (\<lambda>b. \<bar>ps_X b\<bar> \<le> 2048) (sn_Pipes s0)" "\<bar>ps_X b\<bar> \<le> 2048" "0 \<le> alpha" "alpha \<le> 1"
  shows "pv_ID (pipe_view s0 alpha b) = ps_ID b
    \<and> within_values (map_option ps_X (findPipe s0 (ps_ID b))) (ps_X b) (pv_X (pipe_view s0 alpha b))"
proof (cases "findPipe s0 (ps_ID b)")
  case (Some old)
  then have "\<bar>ps_X old\<bar> \<le> 2048" using assms(1) by (auto simp: findPipe_def find_Some_iff list_all_length)
  then show ?thesis using Some lerp_between [OF _ assms(2-4)] by (simp add: pipe_view_def)
qed (simp add: pipe_view_def)

definition small_snap :: "Snapshot \<Rightarrow> bool" where
  "small_snap s \<longleftrightarrow> list_all (\<lambda>b. \<bar>bs_Y b\<bar> \<le> 2048) (sn_Birds s) \<and> list_all (\<lambda>p. \<bar>ps_X p\<bar> \<le> 2048) (sn_Pipes s)"


definition snap_at :: "int \<Rightarrow> real \<Rightarrow> Snapshot" where
  "snap_at t y = \<lparr>sn_Now = t, sn_Tick = 0, sn_St = StRacing, sn_GoAt = 0, sn_Theme = 0, sn_Seed = 0, sn_Dist = 0, sn_Wait = 0,
     sn_Birds = [\<lparr>bs_ID = 1, bs_Name = ''ada'', bs_Y = y, bs_Vy = 0, bs_Score = 0, bs_Dead = False, bs_Left = False, bs_Flap = False,
       bs_Pal = 0, bs_Acc = 0\<rparr>], sn_Pipes = [], sn_Res = []\<rparr>"


section \<open>The frame\<close>

text \<open>The frame as a function of the state, without caches.\<close>

definition plain_world :: "int \<Rightarrow> Sess \<Rightarrow> Snapshot \<Rightarrow> Game \<Rightarrow> draw_cmd list" where
  "plain_world millis sess newest g = (case Interp (ServerNow millis (gm_clk g) - InterpDelayMs) (gm_ring g) of
       None \<Rightarrow> []
     | Some v \<Rightarrow> world_picture (the (BuildScenery (vw_Theme v) (vw_Seed v))) g (se_id sess) v
         (the (DeriveHUD newest (ServerNow millis (gm_clk g)) (se_id sess))))"

definition plain_frozen :: "int \<Rightarrow> Sess \<Rightarrow> string \<Rightarrow> string \<Rightarrow> RGBA \<Rightarrow> RGBA \<Rightarrow> Game \<Rightarrow> draw_cmd list" where
  "plain_frozen millis sess title sub titleClr subClr g =
     (case Newest (gm_ring g) of Some newest \<Rightarrow> plain_world millis sess newest g | None \<Rightarrow> [FillScreen backdrop])
     @ [DrawText True title 30 (viewMid g) 360 titleClr True, DrawText False sub 14 (viewMid g) 404 subClr True]"

definition plain_frame :: "int \<Rightarrow> Sess \<Rightarrow> Game \<Rightarrow> draw_cmd list" where
  "plain_frame millis sess g =
     (if gm_entering g then drawEntry g
      else if gm_fatal g \<noteq> [] then plain_frozen millis sess ''Disconnected'' (gm_fatal g) hudErrorColor hudErrorSubColor g
      else if gm_net g = None then plain_frozen millis sess (fst (reconnStatus g)) (snd (reconnStatus g)) hudNeutralColor hudNeutralColor g
      else (case Newest (gm_ring g) of
          None \<Rightarrow> [DrawText True ''Connecting'' 28 (viewMid g) 380 hudNeutralColor True,
             DrawText False (''flapping as '' @ (if se_name sess = [] then ellipsis else se_name sess)) 15 (viewMid g) 420 hudNeutralColor True]
        | Some newest \<Rightarrow> plain_world millis sess newest g))"

lemma same_but_caches_viewMid: "same_but_caches g g' \<Longrightarrow> viewMid g' = viewMid g"
  unfolding same_but_caches_def viewMid_def by (cases g; cases g') simp

lemma drawWorld_plain:
  assumes "cache_inv msr g"
  obtains g' where "drawWorld millis sess newest g = Some (plain_world millis sess newest g, g')" "viewMid g' = viewMid g"
proof -
  obtain cs g' where d: "drawWorld millis sess newest g = Some (cs, g')" "same_but_caches g g'"
    "case Interp (ServerNow millis (gm_clk g) - InterpDelayMs) (gm_ring g) of
         None \<Rightarrow> cs = []
       | Some view \<Rightarrow> (\<exists>sc hud. BuildScenery (vw_Theme view) (vw_Seed view) = Some sc
           \<and> DeriveHUD newest (ServerNow millis (gm_clk g)) (se_id sess) = Some hud
           \<and> cs = world_picture sc g (se_id sess) view hud)"
    using drawWorld_picture [OF assms] by blast
  have "cs = plain_world millis sess newest g" using d(3) by (auto simp: plain_world_def split: option.splits)
  then show thesis using that d(1) same_but_caches_viewMid [OF d(2)] by blast
qed

lemma drawFrozen_plain:
  assumes "cache_inv msr g"
  shows "map_option fst (drawFrozen millis sess t u a b g) = Some (plain_frozen millis sess t u a b g)"
proof (cases "Newest (gm_ring g)")
  case None
  then show ?thesis by (simp add: drawFrozen_def plain_frozen_def)
next
  case (Some newest)
  obtain g' where "drawWorld millis sess newest g = Some (plain_world millis sess newest g, g')" "viewMid g' = viewMid g"
    using drawWorld_plain [OF assms] by blast
  then show ?thesis using Some by (simp add: drawFrozen_def plain_frozen_def)
qed

text \<open>C26: the caches are invisible: in every reachable state with a font, the frame is the one computed
  without any cache, the scenery built from the theme and seed of the drawn view, every sprite and label
  rendered afresh.\<close>

theorem frame_without_caches:
  assumes "client_run tbl msr srv (new_client font url name) c" "gm_text (cl_game c) \<noteq> None"
  shows "\<exists>g. Draw msr millis (cl_sess c) (cl_game c) = Some (plain_frame millis (cl_sess c) (cl_game c),
    fresh_texts msr (plain_frame millis (cl_sess c) (cl_game c)), g)"
proof -
  have inv: "cache_inv msr (cl_game c)" using new_client_run_inv [OF assms(1)] by (simp add: client_inv_def)
  let ?g = "cl_game c" and ?s = "cl_sess c"
  have "map_option fst (frame_cmds millis ?s ?g) = Some (plain_frame millis ?s ?g)"
  proof (cases "gm_entering ?g \<or> gm_fatal ?g \<noteq> [] \<or> gm_net ?g = None")
    case True
    then show ?thesis using drawFrozen_plain [OF inv]
      by (auto simp: frame_cmds_def plain_frame_def split: prod.splits)
  next
    case False
    then obtain a where a: "gm_net ?g = Some a" "\<not> gm_entering ?g" "gm_fatal ?g = []" by auto
    show ?thesis
    proof (cases "Newest (gm_ring ?g)")
      case None
      then show ?thesis using a by (simp add: frame_cmds_def plain_frame_def Let_def)
    next
      case (Some newest)
      obtain g' where "drawWorld millis ?s newest ?g = Some (plain_world millis ?s newest ?g, g')"
        using drawWorld_plain [OF inv] by blast
      then show ?thesis using a Some by (simp add: frame_cmds_def plain_frame_def)
    qed
  qed
  then show ?thesis using Draw_total [OF inv, of millis ?s] assms(2) by auto
qed

theorem frame_without_caches_witness:
  "\<exists>g. Draw (\<lambda>_ _. (0, 0)) 0 zero_sess (NewGame True [] ''ada'') = Some (plain_frame 0 zero_sess (NewGame True [] ''ada''),
    fresh_texts (\<lambda>_ _. (0, 0)) (plain_frame 0 zero_sess (NewGame True [] ''ada'')), g)"
  using frame_without_caches [OF client_run.start, of True "[]" "''ada''"] by (simp add: new_client_def NewGame_def)

text \<open>The sprites of a frame: which bird, where, how opaque.\<close>

fun sprite_of :: "draw_cmd \<Rightarrow> (image \<times> real \<times> real) option" where
  "sprite_of (BlitSprite img rot x y alpha) = Some (img, y, alpha)"
| "sprite_of _ = None"

definition bird_sprite :: "u64 \<Rightarrow> f32 \<Rightarrow> BirdView \<Rightarrow> image \<times> real \<times> real" where
  "bird_sprite frameNo alpha b =
     (the (birdSprite (bv_Pal b) (bv_Acc b) (if bv_Flap b then ucast ((frameNo div 5) mod 3) else 1)), bv_Y b, alpha)"

lemma sprites_none:
  "List.map_filter sprite_of (tiles w l s y) = []" "List.map_filter sprite_of (map Fill ss) = []"
  "List.map_filter sprite_of (drawLeaderboard rows x y) = []" "List.map_filter sprite_of (drawPodium res vw) = []"
  by (simp_all add: List.map_filter_def tiles_def comp_def drawLeaderboard_def drawPodium_def Let_def filter_concat map_concat
      case_prod_beta)

lemma sprites_birds: "List.map_filter sprite_of (concat (map (bird_cmds k a) bs)) = map (bird_sprite k a) bs"
  by (induction bs) (simp_all add: List.map_filter_def bird_cmds_def bird_sprite_def)

lemma map_filter_append: "List.map_filter f (xs @ ys) = List.map_filter f xs @ List.map_filter f ys"
  by (simp add: List.map_filter_def)

lemma sprites_hud: "List.map_filter sprite_of (DrawHUD sc h vw) = []"
  by (auto simp: DrawHUD_def Let_def map_filter_append sprites_none List.map_filter_simps split: prod.splits)

text \<open>Every bird of the view is drawn exactly once, at its height and with the sprite of its palette,
  accessory and wing frame: the others translucent in their order, and above them, drawn last and
  opaque, the player's own living bird.\<close>

theorem birds_drawn_once:
  assumes "cache_inv msr g" "Interp (ServerNow millis (gm_clk g) - InterpDelayMs) (gm_ring g) = Some view"
  shows "\<exists>cs g'. drawWorld millis sess newest g = Some (cs, g') \<and> List.map_filter sprite_of cs =
     map (bird_sprite (gm_frame g) otherBirdAlpha) (filter (\<lambda>b. \<not> own_live (se_id sess) b) (vw_Birds view))
     @ map (bird_sprite (gm_frame g) 1) (filter (own_live (se_id sess)) (vw_Birds view))"
proof -
  obtain cs g' sc hud where "drawWorld millis sess newest g = Some (cs, g')" "cs = world_picture sc g (se_id sess) view hud"
    using drawWorld_picture [OF assms(1), of millis sess newest] assms(2) by auto
  then show ?thesis
    by (simp add: world_picture_def map_filter_append sprites_none sprites_birds sprites_hud List.map_filter_simps)
qed

theorem birds_drawn_once_witness:
  "\<exists>(v :: View) cs g'. drawWorld 0 zero_sess (snap_at 0 300) ((NewGame True [] ''ada'')\<lparr>gm_ring := [snap_at 0 300]\<rparr>) = Some (cs, g')
     \<and> List.map_filter sprite_of cs = map (bird_sprite 0 otherBirdAlpha) (filter (\<lambda>b. \<not> own_live 0 b) (vw_Birds v))
       @ map (bird_sprite 0 1) (filter (own_live 0) (vw_Birds v)) \<and> length (vw_Birds v) = 1"
proof -
  let ?g = "(NewGame True [] ''ada'')\<lparr>gm_ring := [snap_at 0 300]\<rparr>"
  have inv: "cache_inv (\<lambda>_ _. (0, 0)) ?g" using NewText_inv by (simp add: cache_inv_def NewGame_def sprites_inv_def)
  obtain v where v: "Interp (ServerNow 0 (gm_clk ?g) - InterpDelayMs) (gm_ring ?g) = Some v" "length (vw_Birds v) = 1"
    by (simp add: Interp_def snap_at_def split: prod.splits) (simp add: pose_def Let_def split: if_splits)
  have ids: "gm_frame ?g = 0" "se_id zero_sess = 0" by (simp_all add: NewGame_def zero_sess_def)
  obtain cs g' where "drawWorld 0 zero_sess (snap_at 0 300) ?g = Some (cs, g')"
    "List.map_filter sprite_of cs = map (bird_sprite 0 otherBirdAlpha) (filter (\<lambda>b. \<not> own_live 0 b) (vw_Birds v))
       @ map (bird_sprite 0 1) (filter (own_live 0) (vw_Birds v))"
    using birds_drawn_once [OF inv v(1), of zero_sess "snap_at 0 300"] unfolding ids by (elim exE conjE)
  then show ?thesis using v(2) by (intro exI [of _ v] exI [of _ cs] exI [of _ g'] conjI)
qed

section \<open>Scrolling layers\<close>

lemma tile_xs_lower: "a \<in> set (tile_xs w W x) \<Longrightarrow> x \<le> a"
proof (induction w W x rule: tile_xs.induct)
  case (1 w W x)
  show ?case using "1.prems" "1.IH" by (subst (asm) tile_xs.simps) (fastforce split: if_splits)
qed

lemma tile_xs_mod: "a \<in> set (tile_xs w W x) \<Longrightarrow> w dvd (a - x)"
proof (induction w W x rule: tile_xs.induct)
  case (1 w W x)
  from "1.prems" have x: "x < W \<and> 0 < w" by (subst (asm) tile_xs.simps) (simp split: if_splits)
  from "1.prems" have "a = x \<or> a \<in> set (tile_xs w W (x + w))" using x by (subst (asm) tile_xs.simps) simp
  then show ?case
  proof
    assume "a \<in> set (tile_xs w W (x + w))"
    then have "w dvd (a - (x + w))" using "1.IH" x by blast
    then show ?thesis using dvd_add [of w "a - (x + w)" w] by simp
  qed simp
qed

lemma tile_xs_cover:
  "0 < w \<Longrightarrow> x \<le> p \<Longrightarrow> p < W \<Longrightarrow> \<exists>!a. a \<in> set (tile_xs w W x) \<and> a \<le> p \<and> p < a + w"
proof (induction w W x rule: tile_xs.induct)
  case (1 w W x)
  have unfold: "set (tile_xs w W x) = insert x (set (tile_xs w W (x + w)))"
    using "1.prems" by (subst tile_xs.simps) simp
  show ?case
  proof (cases "p < x + w")
    case True
    then have "\<not> a \<le> p" if "a \<in> set (tile_xs w W (x + w))" for a using tile_xs_lower [OF that] by linarith
    then show ?thesis using True "1.prems" unfolding unfold by auto
  next
    case False
    then have "\<exists>!a. a \<in> set (tile_xs w W (x + w)) \<and> a \<le> p \<and> p < a + w" using "1.IH" "1.prems" by simp
    then show ?thesis using False unfolding unfold by auto
  qed
qed

text \<open>A scrolled layer covers the view seamlessly: every screen column is covered by exactly one
  tile, and it shows the layer's column \<open>p - d\<close> modulo the layer's width, where \<open>d\<close> is the scroll
  distance. So the layers move to the right as the distance grows, while the pipes move to the left.\<close>

theorem tiles_cover_view:
  assumes "0 < image_width layer" "0 \<le> shift"
  shows "\<exists>cs. drawTiled viewW layer shift y = Some cs \<and> (\<forall>p. 0 \<le> p \<and> p < viewW \<longrightarrow>
     (\<exists>!a. Blit layer (of_int a) y \<in> set cs \<and> a \<le> p \<and> p < a + image_width layer)
     \<and> (\<forall>a. Blit layer (of_int a) y \<in> set cs \<and> a \<le> p \<and> p < a + image_width layer \<longrightarrow> p - a = (p - \<lfloor>shift\<rfloor>) mod image_width layer))"
proof -
  define w where "w = image_width layer"
  define x where "x = \<lfloor>shift\<rfloor> mod w - w"
  have w: "0 < w" using assms(1) by (simp add: w_def)
  have fl: "go_trunc shift = \<lfloor>shift\<rfloor>" "0 \<le> \<lfloor>shift\<rfloor>" using assms(2) by (simp_all add: go_trunc_def)
  have m: "\<lfloor>shift\<rfloor> smod w = \<lfloor>shift\<rfloor> mod w"
  proof (cases "\<lfloor>shift\<rfloor> = 0")
    case False
    then have "0 < \<lfloor>shift\<rfloor>" using fl(2) by linarith
    then have "sgn \<lfloor>shift\<rfloor> = 1" "\<bar>\<lfloor>shift\<rfloor>\<bar> = \<lfloor>shift\<rfloor>" by (simp_all only: sgn_pos abs_of_pos)
    then show ?thesis using w by (simp add: signed_modulo_int_def)
  qed simp
  have x0: "x \<le> 0" using pos_mod_bound [OF w, of "\<lfloor>shift\<rfloor>"] by (simp add: x_def)
  have cs: "drawTiled viewW layer shift y = Some (map (\<lambda>a. Blit layer (of_int a) y) (tile_xs w viewW x))"
    using w by (simp add: drawTiled_def Let_def fl m x_def flip: w_def)
  have mem: "Blit layer (of_int a) y \<in> set (map (\<lambda>a. Blit layer (of_int a) y) (tile_xs w viewW x)) \<longleftrightarrow> a \<in> set (tile_xs w viewW x)" for a
    by auto
  have col: "p - a = (p - \<lfloor>shift\<rfloor>) mod w" if "a \<in> set (tile_xs w viewW x)" "a \<le> p" "p < a + w" for a p
  proof -
    have "w dvd (a - x)" using tile_xs_mod that(1) by blast
    moreover have "w dvd (\<lfloor>shift\<rfloor> mod w - \<lfloor>shift\<rfloor>)" by (simp add: mod_eq_dvd_iff [symmetric])
    ultimately have "w dvd (a - x + (\<lfloor>shift\<rfloor> mod w - \<lfloor>shift\<rfloor>) - w)" by (rule dvd_diff [OF dvd_add dvd_refl])
    then have "w dvd (a - \<lfloor>shift\<rfloor>)" by (simp add: x_def)
    then have "(p - \<lfloor>shift\<rfloor>) mod w = (p - a) mod w" by (simp add: mod_eq_dvd_iff algebra_simps)
    then show ?thesis using that(2,3) by simp
  qed
  have "\<exists>!a. a \<in> set (tile_xs w viewW x) \<and> a \<le> p \<and> p < a + w" if "0 \<le> p \<and> p < viewW" for p
    using tile_xs_cover [OF w, of x p viewW] x0 that by linarith
  then show ?thesis
    unfolding cs w_def [symmetric] 
    by (intro exI [of _ "map (\<lambda>a. Blit layer (of_int a) y) (tile_xs w viewW x)"] conjI refl allI) (simp only: mem, use col in blast)
qed

theorem tiles_cover_view_witness:
  "\<exists>cs. drawTiled 480 (Shapes 960 80 []) 1000 720 = Some cs
     \<and> (\<exists>!a. Blit (Shapes 960 80 []) (of_int a) 720 \<in> set cs \<and> a \<le> 100 \<and> 100 < a + 960)"
proof -
  obtain cs where cs: "drawTiled 480 (Shapes 960 80 []) 1000 720 = Some cs"
    "\<And>p. 0 \<le> p \<and> p < 480 \<Longrightarrow> \<exists>!a. Blit (Shapes 960 80 []) (of_int a) 720 \<in> set cs \<and> a \<le> p \<and> p < a + 960"
    using tiles_cover_view [of "Shapes 960 80 []" 1000 480 720] by auto
  have "(0::int) \<le> 100 \<and> (100::int) < 480" by simp
  from cs(2) [OF this] cs(1) show ?thesis by (intro exI conjI)
qed

section \<open>Pipes\<close>

lemma rnd32_close: "\<bar>x\<bar> < 2048 \<Longrightarrow> \<bar>rnd32 x - x\<bar> \<le> 1 / 16384"
  using b32.rnd_error_le [of x 11] by (simp add: power_int_def power_one_over)

definition gap_clear :: "real \<Rightarrow> real \<Rightarrow> shape \<Rightarrow> bool" where
  "gap_clear top_edge bottom_edge s = (case s of
       FillRect x y w h clr \<Rightarrow> y + h \<le> top_edge + 1 / 4096 \<or> bottom_edge - 1 / 4096 \<le> y
     | FillCircle x y r clr \<Rightarrow> False)"

text \<open>C27: a pipe is painted where the server tests for collisions: nothing is painted inside the gap, and
  the two columns are full-width rectangles from the ceiling to the upper edge of the gap and from its
  lower edge to the ground, each edge within 2^-12 pixels.\<close>

theorem pipe_painted_as_tested:
  assumes "GapYMin \<le> gapY" "gapY \<le> GapYMax" "0 \<le> gapH" "gapH \<le> PipeGap"
  shows "list_all (gap_clear (gapY - gapH / 2) (gapY + gapH / 2)) (DrawPipe sc x gapY gapH)
    \<and> (\<exists>h. FillRect x 0 PipeWidth h (sc_pipe sc) \<in> set (DrawPipe sc x gapY gapH) \<and> \<bar>h - (gapY - gapH / 2)\<bar> \<le> 1 / 4096)
    \<and> (\<exists>y h. FillRect x y PipeWidth h (sc_pipe sc) \<in> set (DrawPipe sc x gapY gapH) \<and> \<bar>y - (gapY + gapH / 2)\<bar> \<le> 1 / 4096
         \<and> \<bar>y + h - GroundY\<bar> \<le> 1 / 4096)"
proof -
  have r: "168 \<le> gapY" "gapY \<le> 552" "0 \<le> gapH" "gapH \<le> 156" using assms by simp_all
  define h2 where "h2 = fdiv32 gapH 2"
  define t where "t = fsub32 gapY h2"
  define b where "b = fadd32 gapY h2"
  define hb where "hb = fsub32 720 b"
  define lip where "lip = fsub32 t 10"
  have h2: "\<bar>h2 - gapH / 2\<bar> \<le> 1 / 16384" unfolding h2_def fdiv32_def by (rule rnd32_close) (use r in simp)
  have t: "\<bar>t - (gapY - h2)\<bar> \<le> 1 / 16384" unfolding t_def fsub32_def
    by (rule rnd32_close) (use r h2 in linarith)
  have b: "\<bar>b - (gapY + h2)\<bar> \<le> 1 / 16384" unfolding b_def fadd32_def
    by (rule rnd32_close) (use r h2 in linarith)
  have hb: "\<bar>hb - (720 - b)\<bar> \<le> 1 / 16384" unfolding hb_def fsub32_def
    by (rule rnd32_close) (use r h2 b in linarith)
  have lip: "\<bar>lip - (t - 10)\<bar> \<le> 1 / 16384" unfolding lip_def fsub32_def
    by (rule rnd32_close) (use r h2 t in linarith)
  have t0: "fsub32 t 0 = t" by (simp add: t_def fsub32_def b32.rnd_idem)
  have pos: "0 < t" "0 < hb" using r h2 t b hb by linarith+
  have pipe: "DrawPipe sc x gapY gapH =
     [FillRect x 0 80 t (sc_pipe sc), FillRect x 0 3 t (sc_pipeEdge sc), FillRect (fsub32 (fadd32 x 80) 3) 0 3 t (sc_pipeEdge sc),
      FillRect (fadd32 x 6) 0 4 t pipeHi, FillRect x b 80 hb (sc_pipe sc), FillRect x b 3 hb (sc_pipeEdge sc),
      FillRect (fsub32 (fadd32 x 80) 3) b 3 hb (sc_pipeEdge sc), FillRect (fadd32 x 6) b 4 hb pipeHi,
      FillRect (fsub32 x 4) lip (fadd32 80 8) 10 (sc_pipeEdge sc), FillRect (fsub32 x 4) b (fadd32 80 8) 10 (sc_pipeEdge sc)]"
    using pos by (simp add: DrawPipe_def column_def Let_def t0 flip: h2_def t_def b_def hb_def lip_def)
  have near: "t \<le> gapY - gapH / 2 + 1 / 4096" "gapY + gapH / 2 - 1 / 4096 \<le> b" "lip + 10 \<le> gapY - gapH / 2 + 1 / 4096"
    "\<bar>t - (gapY - gapH / 2)\<bar> \<le> 1 / 4096" "\<bar>b - (gapY + gapH / 2)\<bar> \<le> 1 / 4096" "\<bar>b + hb - 720\<bar> \<le> 1 / 4096"
    using h2 t b hb lip by linarith+
  then show ?thesis unfolding pipe by (auto simp: gap_clear_def)
qed

text \<open>The values are the middle of the playfield and the narrowest gap.\<close>

theorem pipe_painted_as_tested_witness:
  "list_all (gap_clear (360 - 144 / 2) (360 + 144 / 2)) (DrawPipe (the (BuildScenery ThemeForest 7)) 100 360 144)"
  using pipe_painted_as_tested [of 360 144 "the (BuildScenery ThemeForest 7)" 100] by simp

section \<open>The overlay\<close>

definition unranked :: "HUDRow \<Rightarrow> HUDRow" where
  "unranked r = r\<lparr>hr_Rank := 0\<rparr>"

text \<open>Deriving the overlay never fails, and its leaderboard shows the first eight of all birds in the
  strict order alive before dead, higher score first, lower id first, ranked 1, 2, 3 and so on; the own
  score and death are those of the own bird, and without one the player spectates; a countdown shows the
  seconds left, between 1 and 3.\<close>

theorem live_leaderboard:
  assumes "distinct (map bs_ID (sn_Birds snap))"
  shows "\<exists>h rest. DeriveHUD snap serverNow self = Some h
    \<and> length (hd_Rows h) = min MaxLeaderboardRows (length (sn_Birds snap))
    \<and> map hr_Rank (hd_Rows h) = map (\<lambda>k. int k + 1) [0..<length (hd_Rows h)]
    \<and> sorted_wrt (\<lambda>a b. hr_Alive a \<and> \<not> hr_Alive b \<or> hr_Alive a = hr_Alive b
          \<and> (hr_Score a > hr_Score b \<or> hr_Score a = hr_Score b \<and> hr_ID a < hr_ID b)) (map unranked (hd_Rows h) @ rest)
    \<and> mset (map unranked (hd_Rows h) @ rest) = mset (map (hud_row self) (sn_Birds snap))
    \<and> hd_Spect h = (self \<notin> bs_ID ` set (sn_Birds snap))
    \<and> list_all (\<lambda>b. bs_ID b = self \<longrightarrow> hd_OwnScore h = bs_Score b \<and> hd_Dead h = bs_Dead b) (sn_Birds snap)
    \<and> (sn_St snap = StCountdown \<and> serverNow < sn_GoAt snap \<longrightarrow>
         hd_Countdown h = show_int (max 1 (min 3 ((sn_GoAt snap - serverNow + 999) div 1000))))"
proof -
  obtain h where h: "DeriveHUD snap serverNow self = Some h" using DeriveHUD_total by blast
  let ?birds = "sn_Birds snap"
  define rows where "rows = sort_slice hud_less (map (hud_row self) ?birds)"
  have "distinct (map hr_ID (map (hud_row self) ?birds))" using assms by (simp add: hud_row_def comp_def)
  then have sorted: "sorted_wrt (\<lambda>a b. hr_Alive a \<and> \<not> hr_Alive b \<or> hr_Alive a = hr_Alive b
       \<and> (hr_Score a > hr_Score b \<or> hr_Score a = hr_Score b \<and> hr_ID a < hr_ID b)) rows"
    unfolding rows_def hud_less_eq [symmetric] by (rule live_board.sort_ascending)
  have len: "length rows = length ?birds" by (simp add: rows_def)
  have plain: "unranked r = r" if "r \<in> set rows" for r
    using that by (auto simp: rows_def unranked_def hud_row_def)
  have R: "hd_Rows h = take 8 (map2 (\<lambda>k r. r\<lparr>hr_Rank := int k + 1\<rparr>) [0..<length ?birds] rows)"
    using h by (auto simp: DeriveHUD_def Let_def own_bird_fields hud_rows_take rows_def bind_eq_Some_conv)
  have ranks: "map hr_Rank (map2 (\<lambda>k r. r\<lparr>hr_Rank := int k + 1\<rparr>) [0..<length ?birds] rows) = map (\<lambda>k. int k + 1) [0..<length ?birds]"
    by (rule nth_equalityI) (simp_all add: len)
  have "map unranked (map2 (\<lambda>k r. r\<lparr>hr_Rank := int k + 1\<rparr>) [0..<length ?birds] rows) = rows"
    by (rule nth_equalityI) (use plain in \<open>auto simp: len unranked_def\<close>)
  then have shown: "map unranked (hd_Rows h) = take 8 rows" unfolding R by (simp add: take_map [symmetric])
  have own: "hd_Spect h = (self \<notin> bs_ID ` set ?birds)"
    "list_all (\<lambda>b. bs_ID b = self \<longrightarrow> hd_OwnScore h = bs_Score b \<and> hd_Dead h = bs_Dead b) ?birds"
    using h own_bird_self [OF assms]
    by (auto simp: DeriveHUD_def Let_def own_bird_fields list_all_iff bind_eq_Some_conv)
  have count: "hd_Countdown h = show_int (max 1 (min 3 ((sn_GoAt snap - serverNow + 999) div 1000)))"
    if "sn_St snap = StCountdown \<and> serverNow < sn_GoAt snap"
  proof -
    have c: "clampInt k 1 3 = max 1 (min 3 k)" for k by (simp add: clampInt_def max_def min_def)
    then have "\<bar>clampInt k 1 3\<bar> < 10 ^ 8" for k by (simp add: max_def min_def)
    then have "itoa (clampInt k 1 3) = Some (show_int (max 1 (min 3 k)))" for k by (simp add: itoa_show c)
    then show ?thesis using h that by (auto simp: DeriveHUD_def Let_def own_bird_fields)
  qed
  have "map hr_Rank (hd_Rows h) = map (\<lambda>k. int k + 1) [0..<length (hd_Rows h)]"
    unfolding R by (simp only: take_map [symmetric] ranks) (simp add: take_map min_def take_upt len)
  then show ?thesis
    using h sorted own count shown len R
    by (intro exI [of _ h] exI [of _ "drop 8 rows"]) (simp add: rows_def [symmetric], simp add: rows_def)
qed

theorem live_leaderboard_witness:
  "\<exists>h rest. DeriveHUD (snap_at 0 300) 5000 1 = Some h \<and> length (hd_Rows h) = 1
    \<and> mset (map unranked (hd_Rows h) @ rest) = {# hud_row 1 (hd (sn_Birds (snap_at 0 300))) #}"
proof -
  have "distinct (map bs_ID (sn_Birds (snap_at 0 300)))" "length (sn_Birds (snap_at 0 300)) = 1" by (simp_all add: snap_at_def)
  moreover have "mset (map (hud_row 1) (sn_Birds (snap_at 0 300))) = {# hud_row 1 (hd (sn_Birds (snap_at 0 300))) #}"
    by (simp add: snap_at_def)
  moreover obtain h rest where "DeriveHUD (snap_at 0 300) 5000 1 = Some h"
    "length (hd_Rows h) = min MaxLeaderboardRows (length (sn_Birds (snap_at 0 300)))"
    "mset (map unranked (hd_Rows h) @ rest) = mset (map (hud_row 1) (sn_Birds (snap_at 0 300)))"
    using live_leaderboard [OF calculation(1), of 5000 1] by blast
  ultimately show ?thesis by (intro exI [of _ h] exI [of _ rest]) simp
qed

text \<open>The podium grows upwards: with \<open>n\<close> results the winner's line is drawn at the height
  261 - 11 n, so with 26 results or more, of up to 64 players, it lies wholly above the screen.\<close>

theorem podium_hides_winner:
  assumes "26 \<le> length res"
  shows "\<exists>x y clr. DrawText True (ranked (rs_Rank (hd res)) (marked (rs_Name (hd res)) (rs_Left (hd res)))) 16 x y clr False
      \<in> set (drawPodium res viewW) \<and> y = 261 - 11 * of_nat (length res) \<and> y \<le> - 25"
proof -
  obtain r rs where res: "res = r # rs" using assms by (cases res) auto
  have "[0..<length res] = 0 # [1..<length res]" using res by (simp add: upt_rec [of 0] del: upt_Suc)
  then have "(0, r) \<in> set (zip [0..<length res] res)" by (simp add: res)
  then have "DrawText True (ranked (rs_Rank r) (marked (rs_Name r) (rs_Left r))) 16 (viewW / 2 - 130 + 18)
      (of_int CanvasH * 32 / 100 - of_nat (74 + 22 * length res) / 2 + 42 + of_nat 0 * 22) (podium_color (rs_Rank r)) False
      \<in> set (drawPodium res viewW)"
    using res by (auto simp: drawPodium_def Let_def intro!: bexI [of _ "(0, r)"])
  moreover have "of_int CanvasH * 32 / 100 - of_nat (74 + 22 * length res) / 2 + 42 + of_nat 0 * 22 = (261 - 11 * of_nat (length res) :: real)"
    by (simp add: field_simps)
  moreover have "(26::real) \<le> of_nat (length res)" using assms by simp
  ultimately show ?thesis unfolding res list.sel by (intro exI conjI) (assumption, simp_all add: res)
qed

definition finisher :: ResultSnap where
  "finisher = \<lparr>rs_ID = 1, rs_Name = ''ada'', rs_Score = 3, rs_Rank = 1, rs_Left = False\<rparr>"

theorem podium_hides_winner_witness:
  "\<exists>x y clr. DrawText True (ranked 1 (marked ''ada'' False)) 16 x y clr False
      \<in> set (drawPodium (replicate 26 finisher) 480) \<and> y = - 25"
proof -
  have "26 \<le> length (replicate 26 finisher)" "hd (replicate 26 finisher) = finisher" by (simp_all add: numeral_eq_Suc)
  then show ?thesis using podium_hides_winner [of "replicate 26 finisher" 480] by (auto simp: finisher_def)
qed

section \<open>Layout\<close>

lemma go_round_error: "\<bar>of_int (go_round x) - x\<bar> \<le> 1 / 2"
proof (cases "0 \<le> x")
  case True
  then have "go_round x = \<lfloor>x + 1 / 2\<rfloor>" by (simp add: go_round_def)
  then show ?thesis by linarith
next
  case False
  then have "go_round x = - \<lfloor>- x + 1 / 2\<rfloor>" by (simp add: go_round_def)
  then show ?thesis by linarith
qed

lemma error_adds:
  fixes a q w :: real
  shows "\<bar>a - q\<bar> \<le> e \<Longrightarrow> \<bar>w - a * 800\<bar> \<le> d \<Longrightarrow> 800 * e + d \<le> b \<Longrightarrow> \<bar>w - 800 * q\<bar> \<le> b"
  by linarith

text \<open>The view is 800 high and between 360 and 3200 wide on every screen; when the screen's aspect
  lies between, the width is the one of that aspect up to half a pixel.\<close>

theorem layout_fits:
  assumes "0 < ow" "0 < oh" "ow < 2 ^ 53" "oh < 2 ^ 53"
    and "360 \<le> 800 * (of_int ow / of_int oh :: real)" "800 * (of_int ow / of_int oh :: real) \<le> 3200"
  shows "\<bar>of_int (fst (fst (Layout ow oh g))) - 800 * (of_int ow / of_int oh :: real)\<bar> \<le> 1 / 2 + 1 / 2 ^ 40
    \<and> snd (fst (Layout ow oh g)) = 800 \<and> gm_viewW (snd (Layout ow oh g)) = fst (fst (Layout ow oh g))"
proof -
  define q where "q = (of_int ow / of_int oh :: real)"
  have ex: "rnd64 (of_int ow) = of_int ow" "rnd64 (of_int oh) = of_int oh" using assms(1-4) by (simp_all add: rnd64_of_int)
  define a where "a = fdiv (of_int ow) (of_int oh)"
  define w where "w = fmul a 800"
  have q: "0 < q" "q \<le> 4" using assms unfolding q_def by simp_all
  have a: "\<bar>a - q\<bar> \<le> 1 / 2 ^ 51" using rnd64_error_le [of q 3] q by (simp add: a_def fdiv_def q_def [symmetric] power_int_def power_one_over)
  have "\<bar>a - q\<bar> \<le> 1" using a by simp
  then have "\<bar>a * 800\<bar> < 4096" using q by linarith
  then have "\<bar>a * 800\<bar> < 2 powi 12" by (simp add: power_int_def)
  then have w: "\<bar>w - a * 800\<bar> \<le> 1 / 2 ^ 42" using rnd64_error_le [of "a * 800" 12] by (simp add: w_def fmul_def power_int_def power_one_over)
  have wq: "\<bar>w - 800 * q\<bar> \<le> 1 / 2 ^ 40"
    by (rule error_adds [OF a w]) simp
  define c where "c = (if w < 360 then 360 else if w > 3200 then 3200 else w)"
  have cq: "\<bar>c - 800 * q\<bar> \<le> 1 / 2 ^ 40" using wq assms(5,6) unfolding c_def q_def [symmetric] by (auto simp: abs_le_iff)
  have l: "Layout ow oh g = ((go_round c, 800), g\<lparr>gm_viewW := go_round c\<rparr>)"
    using assms(1,2) by (simp add: Layout_def Let_def ex c_def w_def a_def)
  have "\<bar>of_int (go_round c) - 800 * q\<bar> \<le> 1 / 2 + 1 / 2 ^ 40"
    using go_round_error [of c] cq by linarith
  then show ?thesis by (simp add: l q_def)
qed

theorem layout_fits_witness:
  "\<bar>of_int (fst (fst (Layout 1280 800 (NewGame True [] [])))) - (1280 :: real)\<bar> \<le> 1 / 2 + 1 / 2 ^ 40"
  using layout_fits [of 1280 800 "NewGame True [] []"] by simp

end
