(* ===== verification/Snapshot_Link.thy ===== *)
theory Snapshot_Link
  imports Client_View_Spec Conn "HOL-Library.Sublist"
begin

text \<open>
  One player's snapshots from the hub to the screen: the hub's queue for the connection, the websocket
  that delivers in order, the client's queue and its ring. The hub broadcasts, the server's writer, the
  client's reader and its render loop act in any order and at any speed, and both queues drop their
  oldest when they are full.
\<close>

section \<open>The link\<close>

text \<open>What was broadcast and what was pumped is recorded; the wire holds what was written and not read.\<close>

record link =
  lk_conn :: Conn
  lk_wire :: "frame list"
  lk_net :: Net
  lk_game :: Game
  lk_sent :: "Snapshot list"
  lk_pumped :: "Snapshot list"

definition joined_link :: "WelcomeMsg \<Rightarrow> Game \<Rightarrow> link" where
  "joined_link w g = \<lparr>lk_conn = newClientConn\<lparr>c_send := [FWelcome w]\<rparr>, lk_wire = [], lk_net = NewNet,
     lk_game = g\<lparr>gm_ring := Reset (gm_ring g)\<rparr>, lk_sent = [], lk_pumped = []\<rparr>"

inductive link_step :: "link \<Rightarrow> link \<Rightarrow> bool" where
  broadcast: "enqueue (FSnapshot s) (lk_conn l) = Some q \<Longrightarrow> link_step l (l\<lparr>lk_conn := q, lk_sent := lk_sent l @ [s]\<rparr>)"
| writer: "write_next (lk_conn l) = Some (WFrame f, q) \<Longrightarrow> link_step l (l\<lparr>lk_conn := q, lk_wire := lk_wire l @ [f]\<rparr>)"
| reader: "lk_wire l = f # fs \<Longrightarrow> read_message (Received f) (lk_net l) sess = (n, sess') \<Longrightarrow>
    link_step l (l\<lparr>lk_net := n, lk_wire := fs\<rparr>)"
| render: "link_step l (l\<lparr>lk_game := pump_snaps millis 0 (nt_snap (lk_net l)) (lk_game l),
    lk_net := (lk_net l)\<lparr>nt_snap := []\<rparr>, lk_pumped := lk_pumped l @ nt_snap (lk_net l)\<rparr>)"

inductive link_run :: "link \<Rightarrow> link \<Rightarrow> bool" for l0 where
  start: "link_run l0 l0"
| step: "link_run l0 l \<Longrightarrow> link_step l l' \<Longrightarrow> link_run l0 l'"

lemma link_run_trans: "link_run l1 l2 \<Longrightarrow> link_run l0 l1 \<Longrightarrow> link_run l0 l2"
  by (induction rule: link_run.induct) (auto intro: link_run.step)

section \<open>What is on its way\<close>

definition snaps_of :: "frame list \<Rightarrow> Snapshot list" where
  "snaps_of = List.map_filter (\<lambda>f. case f of FSnapshot s \<Rightarrow> Some s | _ \<Rightarrow> None)"

lemma snaps_of_simps [simp]:
  "snaps_of [] = []" "snaps_of (FSnapshot s # fs) = s # snaps_of fs" "snaps_of (FWelcome w # fs) = snaps_of fs"
  "snaps_of (FError e # fs) = snaps_of fs" "snaps_of (fs @ gs) = snaps_of fs @ snaps_of gs"
  by (simp_all add: snaps_of_def List.map_filter_def)

lemma snaps_of_drop: "subseq (snaps_of (drop k fs)) (snaps_of fs)"
  unfolding snaps_of_def List.map_filter_def
  by (intro subseq_map subseq_filter suffix_imp_subseq suffix_drop)

definition in_flight :: "link \<Rightarrow> Snapshot list" where
  "in_flight l = nt_snap (lk_net l) @ snaps_of (lk_wire l) @ snaps_of (c_send (lk_conn l))"

definition link_inv :: "link \<Rightarrow> bool" where
  "link_inv l \<longleftrightarrow> subseq (lk_pumped l @ in_flight l) (lk_sent l)
     \<and> (lk_sent l \<noteq> [] \<longrightarrow> lk_pumped l @ in_flight l \<noteq> [] \<and> last (lk_pumped l @ in_flight l) = last (lk_sent l))
     \<and> gm_ring (lk_game l) = fold Push (lk_pumped l) NewRing
     \<and> length (nt_snap (lk_net l)) \<le> RingLen \<and> \<not> c_closed (lk_conn l)"

lemma read_snaps:
  assumes "read_message (Received f) n sess = (n', sess')" "length (nt_snap n) \<le> RingLen"
  obtains (kept) "nt_snap n' = nt_snap n @ snaps_of [f]"
  | (dropped) s where "f = FSnapshot s" "nt_snap n' = tl (nt_snap n) @ [s]" "length (nt_snap n) = RingLen"
  using assms
  by (cases f; cases "length (nt_snap n) < 8") (auto simp: read_message_def pushSnap_def Let_def net_fail_def)

lemma link_step_inv:
  assumes "link_step l l'" "link_inv l"
  shows "link_inv l'"
  using assms(1)
proof cases
  case (broadcast s q)
  let ?Q = "c_send (lk_conn l)"
  have q: "c_send q = drop (Suc (length ?Q) - sendQueueLen) ?Q @ [FSnapshot s]" "\<not> c_closed q"
    using broadcast(2) by (auto simp: enqueue_def enqueue_loop_drop split: if_splits)
  have "subseq (lk_pumped l @ nt_snap (lk_net l) @ snaps_of (lk_wire l) @ snaps_of (drop (Suc (length ?Q) - sendQueueLen) ?Q))
      (lk_pumped l @ in_flight l)"
    unfolding in_flight_def by (intro list_emb_append_mono subseq_order.order_refl snaps_of_drop)
  then have "subseq (lk_pumped l @ nt_snap (lk_net l) @ snaps_of (lk_wire l) @ snaps_of (drop (Suc (length ?Q) - sendQueueLen) ?Q))
      (lk_sent l)"
    using assms(2) subseq_order.order_trans by (auto simp: link_inv_def)
  then have "subseq ((lk_pumped l @ nt_snap (lk_net l) @ snaps_of (lk_wire l) @ snaps_of (drop (Suc (length ?Q) - sendQueueLen) ?Q)) @ [s])
      (lk_sent l @ [s])" by (intro list_emb_append_mono) simp_all
  then show ?thesis using broadcast(1) assms(2) q by (simp add: link_inv_def in_flight_def)
next
  case (writer f q)
  have "c_send (lk_conn l) = f # c_send q" "c_closed q = c_closed (lk_conn l)"
    using writer(2) by (auto simp: write_next_def split: list.splits if_splits)
  moreover have "snaps_of [f] @ snaps_of (c_send q) = snaps_of (f # c_send q)"
    using snaps_of_simps(5) [of "[f]" "c_send q"] by simp
  ultimately have "in_flight l' = in_flight l" using writer(1) by (simp add: in_flight_def)
  then show ?thesis using writer(1) assms(2) \<open>c_closed q = c_closed (lk_conn l)\<close> by (simp add: link_inv_def)
next
  case (reader f fs sess n sess')
  have len: "length (nt_snap (lk_net l)) \<le> RingLen" using assms(2) by (simp add: link_inv_def)
  have wire: "snaps_of (lk_wire l) = snaps_of [f] @ snaps_of fs"
    using reader(2) snaps_of_simps(5) [of "[f]" fs] by simp
  from reader(3) len show ?thesis
  proof (cases rule: read_snaps)
    case kept
    then have "in_flight l' = in_flight l" using reader(1) wire by (simp add: in_flight_def)
    moreover have "length (nt_snap n) \<le> RingLen"
      using pushSnap_short [OF len] reader(3) len by (cases f) (auto simp: read_message_def net_fail_def)
    ultimately show ?thesis using reader(1) assms(2) by (simp add: link_inv_def)
  next
    case (dropped s)
    let ?rest = "snaps_of fs @ snaps_of (c_send (lk_conn l))"
    have flow: "in_flight l' = tl (nt_snap (lk_net l)) @ s # ?rest" "in_flight l = nt_snap (lk_net l) @ s # ?rest"
      using reader(1) wire dropped by (simp_all add: in_flight_def)
    have "subseq (in_flight l') (in_flight l)"
      unfolding flow by (intro list_emb_append_mono subseq_order.order_refl suffix_imp_subseq suffix_tl)
    then have "subseq (lk_pumped l @ in_flight l') (lk_pumped l @ in_flight l)" by (intro list_emb_append_mono) simp_all
    then have "subseq (lk_pumped l @ in_flight l') (lk_sent l)"
      using assms(2) subseq_order.order_trans by (auto simp: link_inv_def)
    moreover have "last (in_flight l') = last (in_flight l)" "in_flight l' \<noteq> []" "in_flight l \<noteq> []"
      unfolding flow by (simp_all add: last_append)
    moreover have "length (nt_snap n) \<le> RingLen" using dropped by simp
    ultimately show ?thesis using reader(1) assms(2) by (simp add: link_inv_def last_append)
  qed
next
  case (render millis)
  then show ?thesis using assms(2) by (simp add: link_inv_def in_flight_def pump_snaps_ring)
qed

lemma link_run_inv: "link_run l0 l \<Longrightarrow> link_inv l0 \<Longrightarrow> link_inv l"
  by (induction rule: link_run.induct) (auto intro: link_step_inv)

lemma joined_link_inv: "link_inv (joined_link w g)"
  by (simp add: link_inv_def joined_link_def in_flight_def newClientConn_def NewNet_def Reset_def NewRing_def)

section \<open>Draining\<close>

lemma drain_writer:
  "\<exists>l'. link_run l l' \<and> lk_sent l' = lk_sent l \<and> c_send (lk_conn l') = []"
proof (induction "c_send (lk_conn l)" arbitrary: l)
  case Nil
  then show ?case using link_run.start by metis
next
  case (Cons f fs)
  let ?q = "(lk_conn l)\<lparr>c_send := fs\<rparr>"
  let ?l = "l\<lparr>lk_conn := ?q, lk_wire := lk_wire l @ [f]\<rparr>"
  have "link_step l ?l" by (rule link_step.writer) (simp add: write_next_def flip: Cons.hyps(2))
  then have step: "link_run l ?l" by (rule link_run.step [OF link_run.start])
  obtain l' where l': "link_run ?l l'" "lk_sent l' = lk_sent ?l" "c_send (lk_conn l') = []"
    using Cons.hyps(1) [of ?l] by auto
  show ?case using link_run_trans [OF l'(1) step] l'(2,3) by (intro exI [of _ l']) simp
qed

lemma drain_reader:
  "\<exists>l'. link_run l l' \<and> lk_sent l' = lk_sent l \<and> lk_conn l' = lk_conn l \<and> lk_wire l' = []"
proof (induction "lk_wire l" arbitrary: l)
  case Nil
  then show ?case using link_run.start by metis
next
  case (Cons f fs)
  obtain n s where r: "read_message (Received f) (lk_net l) zero_sess = (n, s)" by fastforce
  let ?l = "l\<lparr>lk_net := n, lk_wire := fs\<rparr>"
  have "link_step l ?l" by (rule link_step.reader [OF _ r]) (simp flip: Cons.hyps(2))
  then have step: "link_run l ?l" by (rule link_run.step [OF link_run.start])
  obtain l' where l': "link_run ?l l'" "lk_sent l' = lk_sent ?l" "lk_conn l' = lk_conn ?l" "lk_wire l' = []"
    using Cons.hyps(1) [of ?l] by auto
  show ?case using link_run_trans [OF l'(1) step] l'(2-4) by (intro exI [of _ l']) simp
qed

lemma drain:
  "\<exists>l'. link_run l l' \<and> lk_sent l' = lk_sent l \<and> in_flight l' = []"
proof -
  obtain l1 where l1: "link_run l l1" "lk_sent l1 = lk_sent l" "c_send (lk_conn l1) = []" using drain_writer by blast
  obtain l2 where l2: "link_run l1 l2" "lk_sent l2 = lk_sent l1" "lk_conn l2 = lk_conn l1" "lk_wire l2 = []"
    using drain_reader by blast
  let ?l = "l2\<lparr>lk_game := pump_snaps (\<lambda>_. 0) 0 (nt_snap (lk_net l2)) (lk_game l2),
    lk_net := (lk_net l2)\<lparr>nt_snap := []\<rparr>, lk_pumped := lk_pumped l2 @ nt_snap (lk_net l2)\<rparr>"
  have "link_run l2 ?l" by (rule link_run.step [OF link_run.start link_step.render])
  from link_run_trans [OF link_run_trans [OF this l2(1)] l1(1)] have "link_run l ?l" .
  then show ?thesis using l1 l2 by (intro exI [of _ ?l]) (simp add: in_flight_def)
qed

section \<open>Delivery\<close>

lemma sorted_wrt_subseq: "subseq xs ys \<Longrightarrow> sorted_wrt R ys \<Longrightarrow> sorted_wrt R xs"
  by (induction rule: list_emb.induct) (auto dest: list_emb_set)

lemma fresh_snaps_sorted:
  "sorted_wrt (\<lambda>a b. sn_Now a < sn_Now b) (acc @ ss) \<Longrightarrow> fresh_snaps acc ss = acc @ ss"
proof (induction ss arbitrary: acc)
  case (Cons s ss)
  then have "list_all (\<lambda>x. sn_Now x < sn_Now s) acc" by (simp add: sorted_wrt_append list_all_iff)
  then show ?case using Cons.IH [of "acc @ [s]"] Cons.prems by simp
qed simp

lemma ring_of_link:
  assumes "link_inv l" "sorted_wrt (\<lambda>a b. sn_Now a < sn_Now b) (lk_sent l)"
  shows "gm_ring (lk_game l) = last_n RingLen (lk_pumped l)"
proof -
  have "subseq (lk_pumped l) (lk_sent l)"
    using assms(1) list_emb_prefix [of "(=)" "lk_pumped l"] subseq_order.order_trans [OF subseq_rev_drop_many [OF subseq_order.order_refl]]
    unfolding link_inv_def by blast
  from sorted_wrt_subseq [OF this assms(2)] have "fresh_snaps [] (lk_pumped l) = lk_pumped l"
    using fresh_snaps_sorted [of "[]"] by simp
  then show ?thesis using ring_holds_newest [of "lk_pumped l"] assms(1) by (simp add: link_inv_def)
qed

lemma drained_newest:
  assumes "link_inv l" "sorted_wrt (\<lambda>a b. sn_Now a < sn_Now b) (lk_sent l)" "in_flight l = []" "lk_sent l \<noteq> []"
  shows "Newest (gm_ring (lk_game l)) = Some (last (lk_sent l))"
  using assms ring_of_link [OF assms(1,2)] last_last_n [of RingLen "lk_pumped l"] by (simp add: Newest_def link_inv_def)



end
