(* ===== verification/World_Spec.thy ===== *)
theory World_Spec
  imports Rank
begin

text \<open>
  What \<^verbatim>\<open>internal/game\<close> promises, stated of the worlds a race can reach (\<^const>\<open>race_world\<close>): every
  tick returns, the course is fair, birds stay inside the playfield, a score counts the pipes that
  have passed, and the arithmetic of collisions and snapshots is the geometry it stands for.
\<close>

lemma update_each_cong:
  "(\<And>k v. k \<in> set ks \<Longrightarrow> fmlookup m k = Some v \<Longrightarrow> f k v = g k v) \<Longrightarrow> distinct ks \<Longrightarrow>
   update_each f ks m = update_each g ks m"
proof (induction ks arbitrary: m)
  case (Cons k ks)
  show ?case
  proof (cases "fmlookup m k")
    case (Some v)
    have "update_each f ks (fmupd k (g k v) m) = update_each g ks (fmupd k (g k v) m)"
      by (rule Cons.IH) (use Cons.prems in \<open>auto split: if_splits\<close>)
    then show ?thesis using Some Cons.prems(1) [of k v] by simp
  qed simp
qed simp

lemma race_world_first: "race_world (AddBird i nm pal acc (NewWorld seed))"
  by (rule race_world.add [OF race_world.new]) simp

text \<open>C6: a tick of a race that has not timed out always returns (every id of the join order is a
  bird, the spawn loop ends) and leaves a sound world whose pipes reach beyond the widest view.\<close>

theorem step_returns:
  assumes "race_world w" "w_Tick w < MaxRaceTicks"
  shows "\<exists>w'. Step flaps w = Some w' \<and> world_inv w' \<and> w_Tick w' = w_Tick w + 1
    \<and> w_Order w' = w_Order w \<and> fmdom (w_Birds w') = fmdom (w_Birds w)
    \<and> of_int ViewMaxW + PipeSpacing \<le> nextX w'"
proof -
  have inv: "world_inv w" using race_world_inv [OF assms(1)] by simp
  have "unat (w_Tick w) < 2 ^ 50" using assms(2) by (simp add: word_less_nat_alt)
  from Step_world_inv [OF inv this, of flaps] show ?thesis by (auto simp: stepped_def)
qed

theorem step_returns_witness:
  "\<exists>w'. Step {|1|} (AddBird 1 ''ada'' 0 0 (NewWorld 7)) = Some w' \<and> world_inv w' \<and> w_Tick w' = 1"
  using step_returns [of "AddBird 1 ''ada'' 0 0 (NewWorld 7)" "{|1|}"]
  by (auto simp: race_world_first)

text \<open>C9: the course is fair. Pipe ids are consecutive, positions ascend, every gap lies inside the
  playfield with a height between the floor and the initial gap, and neighbouring gap centres are
  at most \<open>MaxGapDelta\<close> apart (up to one rounding of the clamp's bounds).\<close>

theorem course_fair:
  assumes "race_world w"
  shows "map (\<lambda>p. unat (p_ID p)) (w_Pipes w) = [Suc (unat (w_nextPipeID w)) - length (w_Pipes w) ..< Suc (unat (w_nextPipeID w))]
    \<and> sorted_wrt (\<lambda>p q. p_X p \<le> p_X q) (w_Pipes w)
    \<and> (\<forall>p\<in>set (w_Pipes w). RampGapFloor \<le> p_GapH p \<and> p_GapH p \<le> PipeGap
          \<and> 0 < p_GapY p - p_GapH p / 2 \<and> p_GapY p + p_GapH p / 2 < GroundY)
    \<and> successively (\<lambda>p q. \<bar>p_GapY q - p_GapY p\<bar> \<le> MaxGapDelta + 1 / 2 ^ 44) (w_Pipes w)"
proof -
  have inv: "pipes_inv w" using race_world_inv [OF assms] by (simp add: world_inv_def)
  have ok: "\<And>p. p \<in> set (w_Pipes w) \<Longrightarrow> pipe_ok p" using inv by (simp add: pipes_inv_def list_all_iff)
  have "successively (\<lambda>p q. gap_close (p_GapY p) (p_GapY q)) (w_Pipes w)" using inv by (simp add: pipes_inv_def)
  then have "successively (\<lambda>p q. \<bar>p_GapY q - p_GapY p\<bar> \<le> MaxGapDelta + 1 / 2 ^ 44) (w_Pipes w)"
    by (rule successively_mono) (use ok gap_close_real in \<open>auto simp: pipe_ok_def simp del: MaxGapDelta_def\<close>)
  moreover have "\<forall>p\<in>set (w_Pipes w). RampGapFloor \<le> p_GapH p \<and> p_GapH p \<le> PipeGap
      \<and> 0 < p_GapY p - p_GapH p / 2 \<and> p_GapY p + p_GapH p / 2 < GroundY"
    using ok by (fastforce simp: pipe_ok_def)
  ultimately show ?thesis using inv by (simp add: pipes_inv_def pipe_ids_def)
qed

theorem course_fair_witness: "sorted_wrt (\<lambda>p q. p_X p \<le> p_X q) (w_Pipes (NewWorld 7))"
  using course_fair [of "NewWorld 7"] race_world.new by blast

text \<open>C8: a live bird's score is the number of pipes that have passed the birds' column since the
  start, dropped pipes included, so all live birds have the same score; a dead bird's is at most that.\<close>

theorem score_counts_pipes:
  assumes "race_world w" "fmlookup (w_Birds w) i = Some b"
  shows "(\<not> b_Dead b \<longrightarrow> b_Score b = int (passed_count w) \<and> unat (b_NextPipeID b) = Suc (passed_count w))
    \<and> 0 \<le> b_Score b \<and> b_Score b \<le> int (passed_count w)"
  using race_world_inv [OF assms(1)] assms(2) by (auto simp: world_inv_def bird_inv_def)

theorem score_counts_pipes_witness:
  "0 \<le> b_Score (the (fmlookup (w_Birds (AddBird 1 ''ada'' 0 0 (NewWorld 7))) 1))"
  using score_counts_pipes [of "AddBird 1 ''ada'' 0 0 (NewWorld 7)" 1]
  by (simp add: race_world_first AddBird_lookup)

text \<open>C10: no bird ever leaves the playfield: its centre stays between the ceiling and the ground,
  its speed within the terminal speeds, and whoever left is dead.\<close>

theorem birds_in_playfield:
  assumes "race_world w" "fmlookup (w_Birds w) i = Some b"
  shows "CeilingY \<le> b_Y b \<and> b_Y b < GroundY \<and> - 8 \<le> b_Vy b \<and> b_Vy b \<le> TerminalVel
    \<and> b_ID b = i \<and> (b_Left b \<longrightarrow> b_Dead b) \<and> (b_Dead b \<longrightarrow> b_DeathTick b \<le> w_Tick w)"
  using race_world_inv [OF assms(1)] assms(2) by (auto simp: world_inv_def bird_inv_def birds_wf_def)

theorem birds_in_playfield_witness:
  "b_Y (the (fmlookup (w_Birds (AddBird 1 ''ada'' 0 0 (NewWorld 7))) 1)) < GroundY"
  using birds_in_playfield [of "AddBird 1 ''ada'' 0 0 (NewWorld 7)" 1]
  by (simp add: race_world_first AddBird_lookup)

text \<open>C7: what one tick does to a bird. A dead bird is untouched. A live one dies in this tick exactly
  when its new position touches the ground or a pipe of the scrolled course, keeping its score;
  a survivor has scored every pipe that has passed.\<close>

theorem step_bird:
  assumes "race_world w" "w_Tick w < MaxRaceTicks" "Step flaps w = Some w'" "fmlookup (w_Birds w) i = Some b"
  shows "\<exists>b'. fmlookup (w_Birds w') i = Some b' \<and> (b_Dead b \<longrightarrow> b' = b) \<and> (\<not> b_Dead b \<longrightarrow>
      b_Y b' = b_Y (fly (w_Tick w') flaps i b)
    \<and> (b_Dead b' \<longleftrightarrow> fadd (b_Y b') BirdRadius \<ge> GroundY \<or> list_ex (hits (b_Y b')) (w_Pipes w'))
    \<and> (b_Dead b' \<longrightarrow> b_DeathTick b' = w_Tick w' \<and> b_Score b' = b_Score b)
    \<and> (\<not> b_Dead b' \<longrightarrow> b_Score b' = int (passed_count w')))"
proof -
  have inv: "world_inv w" using race_world_inv [OF assms(1)] by simp
  note st = Step_tick [OF inv assms(2,3)]
  let ?f = "fly (w_Tick w') flaps i b"
  let ?b = "settle (w_Tick w') (w_Pipes w') i ?f"
  have look: "fmlookup (w_Birds w') i = Some ?b" using st assms(4) by (simp add: stepped_def)
  have bi: "bird_inv (w_Tick w') (passed_count w') ?b" using st look by (auto simp: world_inv_def)
  have fold: "b_Y (foldl score_pipe c ps) = b_Y c \<and> b_Dead (foldl score_pipe c ps) = b_Dead c" for c ps
    by (induction ps arbitrary: c) (simp_all add: score_pipe_def)
  have "\<not> b_Dead b \<longrightarrow> b_Y ?b = b_Y ?f
      \<and> (b_Dead ?b \<longleftrightarrow> fadd (b_Y ?b) BirdRadius \<ge> GroundY \<or> list_ex (hits (b_Y ?b)) (w_Pipes w'))
      \<and> (b_Dead ?b \<longrightarrow> b_DeathTick ?b = w_Tick w' \<and> b_Score ?b = b_Score b)"
    using fold by (simp add: settle_def kill_def)
  moreover have "\<not> b_Dead ?b \<longrightarrow> b_Score ?b = int (passed_count w')" using bi by (simp add: bird_inv_def)
  moreover have "b_Dead b \<longrightarrow> ?b = b" by (simp add: settle_def)
  ultimately show ?thesis using look by blast
qed

theorem step_bird_witness:
  "\<exists>w'. Step {||} (AddBird 1 ''ada'' 0 0 (NewWorld 7)) = Some w' \<and> 1 |\<in>| fmdom (w_Birds w')"
proof -
  let ?w = "AddBird 1 ''ada'' 0 0 (NewWorld 7)"
  have r: "race_world ?w" by (rule race_world_first)
  obtain w' where w': "Step {||} ?w = Some w'"
    using Step_world_inv [of ?w "{||}"] race_world_inv [OF r] by auto
  with step_bird [OF r _ w', of 1] show ?thesis by (auto simp: AddBird_lookup dest: fmdomI)
qed

definition live_racer :: "World \<Rightarrow> u64 \<Rightarrow> bool" where
  "live_racer w i = (case fmlookup (w_Birds w) i of None \<Rightarrow> False | Some b \<Rightarrow> \<not> b_Dead b)"

text \<open>A flap sets the velocity, whatever it was: two live birds at any speeds leave the impulse
  phase with the same speed unless the ceiling stops them, so coalescing flaps into one tick is
  harmless; and flaps of ids that are not live racers of this world change nothing.\<close>

theorem flap_sets_velocity:
  assumes "race_world w"
  shows "Step flaps w = Step (ffilter (live_racer w) flaps) w
    \<and> (\<forall>i b t. i |\<in>| flaps \<longrightarrow> \<not> b_Dead b \<longrightarrow> b_Vy (fly t flaps i b)
         = (if fadd (b_Y b) (fadd FlapImpulse Gravity) < CeilingY then 0 else fadd FlapImpulse Gravity))"
proof -
  have wf: "birds_wf w" using race_world_inv [OF assms] by (simp add: world_inv_def)
  have "fadd FlapImpulse Gravity \<le> - 6"
    unfolding fadd_def using FlapImpulse_bounds Gravity_bounds
    by (intro rnd64_le) auto
  then have v: "min (fadd FlapImpulse Gravity) 8 = fadd FlapImpulse Gravity" "fadd FlapImpulse Gravity < 0" by auto
  have vel: "b_Vy (fly t flaps i b)
      = (if fadd (b_Y b) (fadd FlapImpulse Gravity) < CeilingY then 0 else fadd FlapImpulse Gravity)"
    if "i |\<in>| flaps" "\<not> b_Dead b" for i b t
    using that v by (simp add: fly_def Let_def)
  have "update_each (fly t flaps) (w_Order w) (w_Birds w)
      = update_each (fly t (ffilter (live_racer w) flaps)) (w_Order w) (w_Birds w)" for t
    by (rule update_each_cong) (use wf in \<open>auto simp: live_racer_def fly_def birds_wf_def\<close>)
  then have "Step flaps w = Step (ffilter (live_racer w) flaps) w"
    by (simp add: Step_def Let_def)
  with vel show ?thesis by blast
qed

theorem flap_sets_velocity_witness:
  "Step {|1, 9|} (AddBird 1 ''ada'' 0 0 (NewWorld 7)) = Step {|1|} (AddBird 1 ''ada'' 0 0 (NewWorld 7))"
proof -
  let ?w = "AddBird 1 ''ada'' 0 0 (NewWorld 7)"
  have "ffilter (live_racer ?w) {|1, 9|} = ffilter (live_racer ?w) {|1|}"
    by (auto simp: live_racer_def AddBird_lookup)
  then show ?thesis
    using flap_sets_velocity [OF race_world_first, of "{|1, 9|}"]
      flap_sets_velocity [OF race_world_first, of "{|1|}"] by metis
qed

section \<open>Collisions\<close>

text \<open>The exact squared distance from a point to a rectangle, at its closest point.\<close>

definition rect_dist2 :: "real \<Rightarrow> real \<Rightarrow> real \<Rightarrow> real \<Rightarrow> real \<Rightarrow> real \<Rightarrow> real" where
  "rect_dist2 cx cy x0 y0 x1 y1 = (cx - clampf cx x0 x1)\<^sup>2 + (cy - clampf cy y0 y1)\<^sup>2"

lemma clampf_nearest:
  assumes "lo \<le> p" "p \<le> hi" shows "(c - clampf c lo hi)\<^sup>2 \<le> (c - p)\<^sup>2"
  unfolding abs_le_square_iff [symmetric] using assms by (auto simp: clampf_def)

lemma clampf_abs: "\<bar>lo\<bar> < B \<Longrightarrow> \<bar>hi\<bar> < B \<Longrightarrow> \<bar>c\<bar> < B \<Longrightarrow> \<bar>clampf c lo hi\<bar> < B"
  by (auto simp: clampf_def)

text \<open>One rounded difference, squared and rounded again.\<close>

lemma fsub_square_error:
  assumes "\<bar>a\<bar> < 1024" "\<bar>b\<bar> < 1024"
  shows "\<bar>fmul (fsub a b) (fsub a b) - (a - b)\<^sup>2\<bar> \<le> 3 / 2 ^ 31" "(a - b)\<^sup>2 < 2 ^ 22"
proof -
  let ?e = "a - b" and ?f = "fsub a b"
  have e: "\<bar>?e\<bar> < 2048" using assms by linarith
  have "\<bar>?e\<bar> < 2 powi 11" using e by simp
  from rnd64_error_le [OF this] have d: "\<bar>?f - ?e\<bar> \<le> 1 / 2 ^ 43"
    by (simp add: fsub_def power_int_minus_divide)
  then have f: "\<bar>?f\<bar> \<le> 2049" 
  proof -
    have "(1::real) / 2 ^ 43 \<le> 1" by simp
    with d e show ?thesis by linarith
  qed
  have "?f\<^sup>2 - ?e\<^sup>2 = (?f - ?e) * (?f + ?e)" by (simp add: power2_eq_square algebra_simps)
  then have "\<bar>?f\<^sup>2 - ?e\<^sup>2\<bar> = \<bar>?f - ?e\<bar> * \<bar>?f + ?e\<bar>" by (simp add: abs_mult)
  also have "\<dots> \<le> (1 / 2 ^ 43) * 4097"
    by (rule mult_mono [OF d]) (use e f in auto)
  finally have sq: "\<bar>?f\<^sup>2 - ?e\<^sup>2\<bar> \<le> 1 / 2 ^ 30 " by simp
  have "?f * ?f \<le> 2049 * 2049" using f abs_mult [of ?f ?f] mult_mono [OF f f] by simp
  then have "\<bar>?f * ?f\<bar> < 2 powi 23" by simp
  from rnd64_error_le [OF this] have "\<bar>fmul ?f ?f - ?f\<^sup>2\<bar> \<le> 1 / 2 ^ 31"
    by (simp add: fmul_def power_int_minus_divide power2_eq_square)
  moreover have "(1::real) / 2 ^ 30 + 1 / 2 ^ 31 = 3 / 2 ^ 31" by simp
  ultimately show "\<bar>fmul ?f ?f - ?e\<^sup>2\<bar> \<le> 3 / 2 ^ 31"
    using sq by linarith
  have "\<bar>?e\<bar> * \<bar>?e\<bar> < 2048 * 2048" using e by (intro mult_strict_mono) auto
  then show "?e\<^sup>2 < 2 ^ 22" by (simp add: power2_eq_square)
qed



section \<open>Snapshots\<close>

lemma round2_mono: "v \<le> v' \<Longrightarrow> round2 v \<le> round2 v'"
proof -
  assume a: "v \<le> v'"
  have "go_trunc x \<le> go_trunc y" if "x \<le> y" for x y
  proof (cases "x < 0 \<and> 0 \<le> y")
    case True
    then have "0 \<le> \<lfloor>- x\<rfloor>" "0 \<le> \<lfloor>y\<rfloor>" by simp_all
    then have "- \<lfloor>- x\<rfloor> \<le> \<lfloor>y\<rfloor>" by linarith
    with True show ?thesis by (auto simp: go_trunc_def)
  next
    case False
    then show ?thesis using that floor_mono [of x y] floor_mono [of "- y" "- x"] by (auto simp: go_trunc_def)
  qed
  moreover have "fadd (fmul v 100) (1 / 2) \<le> fadd (fmul v' 100) (1 / 2)"
    unfolding fmul_def by (intro fadd_mono rnd64_mono) (use a in auto)
  ultimately show ?thesis
    unfolding round2_def fdiv_def by (intro rnd64_mono divide_right_mono) (auto intro: rnd64_mono)
qed

text \<open>Rounding for the wire is invisible: a snapshot value differs from the simulated one by at
  most 0.0051 where the value is not negative (all positions) and 0.0151 anywhere (a velocity may
  be negative, and truncation then rounds the wrong way).\<close>

theorem snapshot_rounding:
  assumes "\<bar>v\<bar> < 4096"
  shows "\<bar>round2 v - v\<bar> \<le> 151 / 10000 \<and> (0 \<le> v \<longrightarrow> \<bar>round2 v - v\<bar> \<le> 51 / 10000)"
proof -
  define m where "m = fmul v 100"
  define t where "t = fadd m (1 / 2)"
  define k where "k = go_trunc t"
  have small: "(1::real) / 2 ^ 34 \<le> 1 / 10000" by simp
  have "\<bar>v * 100\<bar> < 2 powi 20" using assms by simp
  from rnd64_error_le [OF this] have m: "\<bar>m - v * 100\<bar> \<le> 1 / 2 ^ 34"
    by (simp add: m_def fmul_def power_int_minus_divide)
  have "\<bar>m + 1 / 2\<bar> < 1048576" using m small assms by linarith
  then have "\<bar>m + 1 / 2\<bar> < 2 powi 20" by simp
  from rnd64_error_le [OF this] have t: "\<bar>t - (m + 1 / 2)\<bar> \<le> 1 / 2 ^ 34"
    by (simp add: t_def fadd_def power_int_minus_divide)
  have tv: "\<bar>t - (v * 100 + 1 / 2)\<bar> \<le> 2 / 10000" using m t small by linarith
  have k: "\<bar>real_of_int k - v * 100\<bar> \<le> 15002 / 10000"
    "0 \<le> v \<Longrightarrow> \<bar>real_of_int k - v * 100\<bar> \<le> 5002 / 10000"
  proof -
    have "t - 1 < k \<and> k \<le> t" if "0 \<le> t" using that by (simp add: k_def go_trunc_def)
    moreover have "t \<le> k \<and> k < t + 1" if "t < 0" using that by (simp add: k_def go_trunc_def) linarith
    ultimately have c: "0 \<le> t \<and> t - 1 < k \<and> k \<le> t \<or> t < 0 \<and> t \<le> k \<and> k < t + 1" by linarith
    then show "\<bar>real_of_int k - v * 100\<bar> \<le> 15002 / 10000" using tv by linarith
    show "\<bar>real_of_int k - v * 100\<bar> \<le> 5002 / 10000" if "0 \<le> v" using c tv that by linarith
  qed
  have kb: "\<bar>real_of_int k\<bar> < 500000" using k(1) assms by linarith
  then have "\<bar>k\<bar> < 500000" by linarith
  then have e: "rnd64 (of_int k) = of_int k" by (intro rnd64_of_int) simp
  have "\<bar>real_of_int k / 100\<bar> < 2 powi 20" using kb by simp
  from rnd64_error_le [OF this] have "\<bar>round2 v - real_of_int k / 100\<bar> \<le> 1 / 2 ^ 34"
    by (simp add: round2_def fdiv_def e k_def [symmetric] t_def [symmetric] m_def [symmetric] power_int_minus_divide)
  moreover have "(1::real) / 2 ^ 34 \<le> 1 / 1000000" by simp
  ultimately have r: "\<bar>round2 v - real_of_int k / 100\<bar> \<le> 1 / 1000000" by linarith
  have "\<bar>round2 v - v\<bar> \<le> 151 / 10000" using r k(1) by linarith
  moreover have "0 \<le> v \<longrightarrow> \<bar>round2 v - v\<bar> \<le> 51 / 10000" using r k(2) by linarith
  ultimately show ?thesis by blast
qed

theorem snapshot_rounding_witness: "\<bar>round2 400 - 400\<bar> \<le> 51 / 10000"
  using snapshot_rounding [of 400] by simp

text \<open>The comment of \<^verbatim>\<open>round2\<close> promises an error below 0.01 px; a falling bird's speed is
  non-negative, but for the negative speeds of a climb the promise fails.\<close>

theorem round2_negative: "f64_exact (- 53 / 128) \<and> 1 / 100 < \<bar>round2 (- 53 / 128) - (- 53 / 128)\<bar>"
  unfolding f64_exact_def by code_simp

text \<open>A snapshot carries every racer once, in join order, and every pipe of the course, x ascending.\<close>

theorem snapshot_complete:
  assumes "race_world w"
  shows "(\<exists>bs. BirdSnaps w = Some bs \<and> map bs_ID bs = w_Order w
        \<and> (\<forall>b\<in>set bs. \<exists>x. fmlookup (w_Birds w) (bs_ID b) = Some x \<and> b = bird_snap (w_Tick w) x))
    \<and> PipeSnaps w = map pipe_snap (w_Pipes w)
    \<and> sorted_wrt (\<lambda>p q. ps_X p \<le> ps_X q) (PipeSnaps w)"
proof -
  have inv: "world_inv w" using race_world_inv [OF assms] by simp
  then have wf: "birds_wf w" and pi: "pipes_inv w" by (simp_all add: world_inv_def)
  let ?bs = "map (\<lambda>i. bird_snap (w_Tick w) (the (fmlookup (w_Birds w) i))) (w_Order w)"
  have "BirdSnaps w = Some ?bs"
    unfolding BirdSnaps_def by (rule those_map_lookup) (use wf in \<open>simp add: birds_wf_def\<close>)
  moreover have b: "\<exists>x. fmlookup (w_Birds w) i = Some x \<and> b_ID x = i" if "i \<in> set (w_Order w)" for i
    using wf that by (auto simp: birds_wf_def fmlookup_dom_iff)
  then have "map bs_ID ?bs = w_Order w" by (force simp: bird_snap_def intro!: map_idI)
  moreover have "\<forall>b\<in>set ?bs. \<exists>x. fmlookup (w_Birds w) (bs_ID b) = Some x \<and> b = bird_snap (w_Tick w) x"
    using b by (force simp: bird_snap_def)
  moreover have "pipe_snaps ps = map pipe_snap ps" if "list_all pipe_ok ps" for ps
    using that by (induction ps) (auto simp: pipe_ok_def)
  then have ps: "PipeSnaps w = map pipe_snap (w_Pipes w)" using pi by (simp add: PipeSnaps_def pipes_inv_def)
  moreover have "sorted_wrt (\<lambda>p q. ps_X p \<le> ps_X q) (PipeSnaps w)"
    unfolding ps sorted_wrt_map
    by (rule sorted_wrt_mono_rel [of _ "\<lambda>p q. p_X p \<le> p_X q"])
      (use pi in \<open>auto simp: pipes_inv_def pipe_snap_def round2_mono\<close>)
  ultimately show ?thesis by blast
qed

theorem snapshot_complete_witness: "PipeSnaps (NewWorld 7) = map pipe_snap (w_Pipes (NewWorld 7))"
  using snapshot_complete [OF race_world.new] by blast

text \<open>The results of a race list every racer exactly once, best first in the strict order of
  the ranking (score, then later death, then id), with the ranks 1, 2, 3, ...\<close>

theorem results_ranked:
  assumes "race_world w"
  shows "\<exists>rows rs. result_rows w = Some rows \<and> Results w = Some rs
    \<and> mset (map rs_ID rs) = mset (w_Order w)
    \<and> map rs_Rank rs = map (\<lambda>k. int k + 1) [0..<length (w_Order w)]
    \<and> (\<exists>sorted. mset sorted = mset rows \<and> sorted_wrt (\<lambda>a b. rr_score a > rr_score b \<or> rr_score a = rr_score b
          \<and> (rr_death a > rr_death b \<or> rr_death a = rr_death b \<and> rr_id a < rr_id b)) sorted \<and> map rs_ID rs = map rr_id sorted
         \<and> map rs_Score rs = map rr_score sorted)"
proof -
  have wf: "birds_wf w" using race_world_inv [OF assms] by (simp add: world_inv_def)
  obtain rows where rows: "result_rows w = Some rows" "map rr_id rows = w_Order w"
    "sorted_wrt row_less (sort_slice row_less rows)"
    "Results w = Some (map2 result_snap [0..<length rows] (sort_slice row_less rows))"
    using Results_wf [OF wf] by blast
  let ?s = "sort_slice row_less rows"
  let ?rs = "map2 result_snap [0..<length rows] ?s"
  have len: "length (w_Order w) = length rows" using rows(2) by (metis length_map)
  have maps: "map rs_ID ?rs = map rr_id ?s" "map rs_Score ?rs = map rr_score ?s"
    "map rs_Rank ?rs = map (\<lambda>k. int k + 1) [0..<length (w_Order w)]"
    unfolding len by (auto intro!: nth_equalityI simp: result_snap_def)
  show ?thesis unfolding row_less_eq [symmetric]
    by (rule exI [of _ rows], rule exI [of _ ?rs], intro conjI exI [of _ ?s])
      (rule rows(1) rows(4) Results_ids(1) [OF wf rows(4)] maps(3) mset_sort_slice rows(3) maps(1) maps(2))+
qed

theorem results_ranked_witness:
  "\<exists>rs. Results (AddBird 1 ''ada'' 0 0 (NewWorld 7)) = Some rs \<and> map rs_Rank rs = [1]"
  using results_ranked [OF race_world_first [of 1 "''ada''" 0 0 7]] by (auto simp: AddBird_order)

end
