(* ===== verification/Input_Link.thy ===== *)
theory Input_Link
  imports Hub_Spec World_Spec Client_Net
begin

text \<open>
  One player's key presses from the client to the bird: the client's command queue, the websocket that
  delivers in order, the reader of the connection, the event channel, the hub's pending flaps and the
  tick that applies them. Everything else the server does, for whatever other players, interleaves.
\<close>

section \<open>Who flaps a bird\<close>

text \<open>The tick of a bird's last flap, 0 for none.\<close>

definition last_flap :: "u64 \<Rightarrow> World option \<Rightarrow> u64" where
  "last_flap i w = (case w of None \<Rightarrow> 0 | Some w \<Rightarrow>
     (case fmlookup (w_Birds w) i of None \<Rightarrow> 0 | Some b \<Rightarrow> b_LastFlap b))"

text \<open>A change of the world that flaps no bird: birds come without a flap, go, or keep their last one.\<close>

definition calm :: "World option \<Rightarrow> World option \<Rightarrow> bool" where
  "calm w w' \<longleftrightarrow> (\<forall>i. last_flap i w' = last_flap i w \<or> last_flap i w' = 0)"

lemma calm_refl [simp]: "calm w w"
  by (simp add: calm_def)

lemma calm_trans: "calm w v \<Longrightarrow> calm v u \<Longrightarrow> calm w u"
  by (metis calm_def)

lemma calm_world [simp]:
  "calm w None" "calm w (Some (NewWorld seed))" "calm (Some v) (Some (AddBird i nm pal acc v))"
  "calm (Some v) (Some (RemoveBird i v))" "calm (Some v) (Some (KillLeft i v))"
  by (auto simp: calm_def last_flap_def NewWorld_def AddBird_def RemoveBird_def KillLeft_def split: option.split)

text \<open>Only a flap adds to the pending flaps, only a racing tick takes them away and flaps the birds, and
  ids are given out once.\<close>

definition same_input :: "Hub \<Rightarrow> Hub \<Rightarrow> bool" where
  "same_input h h' \<longleftrightarrow> h_pendingFlaps h' = h_pendingFlaps h \<and> h_sess h' = h_sess h \<and> h_nextID h' = h_nextID h
     \<and> calm (h_world h) (h_world h')"

lemma same_input_refl [simp]: "same_input h h"
  by (simp add: same_input_def)

lemma same_input_trans: "same_input h g \<Longrightarrow> same_input g k \<Longrightarrow> same_input h k"
  by (auto simp: same_input_def intro: calm_trans)

lemma conn_enqueue_input: "conn_enqueue c f h = Some h' \<Longrightarrow> same_input h h'"
  by (auto simp: same_input_def conn_enqueue_def bind_eq_Some_conv)

lemma conn_close_input: "conn_close c h = Some h' \<Longrightarrow> same_input h h'"
  by (auto simp: same_input_def conn_close_def bind_eq_Some_conv)

lemma fan_out_input: "fan_out f is h = Some h' \<Longrightarrow> same_input h h'"
  by (induction f "is" h rule: fan_out.induct)
    (auto simp: bind_eq_Some_conv split: if_splits intro: same_input_trans conn_enqueue_input)

lemma broadcast_input: "broadcast h = Some h' \<Longrightarrow> same_input h h'"
  by (auto simp: same_input_def broadcast_def Let_def now_ms_def bind_eq_Some_conv dest!: fan_out_input split: if_splits)

lemma maybeSnapshot_input: "maybeSnapshot t h = Some h' \<Longrightarrow> same_input h h'"
  by (auto simp: maybeSnapshot_def same_input_def dest!: broadcast_input split: if_splits)

lemma admit_all_input: "admit_all is h = Some h' \<Longrightarrow> same_input h h'"
proof (induction "is" h rule: admit_all.induct)
  case (2 i "is" h)
  then obtain s w ri where ops: "player h i = Some s" "h_world h = Some w" "h_raceInfo h = Some ri"
    by (auto simp: bind_eq_Some_conv)
  let ?h = "h\<lparr>h_world := Some (AddBird i (s_Name s) (Palette (s_Bird s)) (Accessory (s_Bird s)) w),
      h_raceInfo := Some (fmupd i \<lparr>ri_name = s_Name s, ri_bird = s_Bird s\<rparr> ri)\<rparr>"
  have "same_input h ?h" by (simp add: same_input_def ops(2))
  moreover have "admit_all is ?h = Some h'" using "2.prems" ops by simp
  then have "same_input ?h h'" using "2.IH" [OF ops] by simp
  ultimately show ?case by (rule same_input_trans)
qed simp

lemma beginCountdown_input: "beginCountdown t h = Some h' \<Longrightarrow> same_input h h'"
  by (auto simp: same_input_def beginCountdown_def Let_def hub_next_def pickTheme_def split: prod.splits dest!: admit_all_input
      intro: calm_trans [OF calm_world(2)])

lemma finishRace_input: "finishRace t h = Some h' \<Longrightarrow> same_input h h'"
  by (auto simp: same_input_def finishRace_def no_race_def Let_def bind_eq_Some_conv dest!: broadcast_input split: if_splits)

lemma leave_race_input: "leave_race i t h = Some h' \<Longrightarrow> same_input h h'"
  by (auto simp: same_input_def leave_race_def no_race_def Let_def bind_eq_Some_conv
      dest!: broadcast_input finishRace_input intro: calm_trans [OF calm_world(4)] calm_trans [OF calm_world(5)]
      split: race_state.splits option.splits if_splits)

lemma handleLeave_input: "handleLeave c so h = Some h' \<Longrightarrow> same_input h h'"
  by (auto simp: same_input_def handleLeave_def close_opt_def unregister_def Let_def now_ms_def bind_eq_Some_conv
      dest!: leave_race_input conn_close_input split: option.splits) (blast intro: calm_trans)

lemma shutdown_input: "shutdown h = Some h' \<Longrightarrow> same_input h h'"
proof -
  have "close_players is h = Some h' \<Longrightarrow> same_input h h'" for "is"
    by (induction "is" h rule: close_players.induct) (auto simp: bind_eq_Some_conv intro: same_input_trans conn_close_input)
  then show "shutdown h = Some h' \<Longrightarrow> same_input h h'" by (simp add: shutdown_def)
qed

lemma admit_join_input: "admit_join s t h = Some h' \<Longrightarrow> same_input h h'"
  by (auto simp: same_input_def admit_join_def admitRacer_def bind_eq_Some_conv dest!: beginCountdown_input
      split: race_state.splits)

lemma tick_idle_input: "tick h = Some h' \<Longrightarrow> h_st h \<noteq> StRacing \<Longrightarrow> same_input h h'"
  by (auto simp: same_input_def no_race_def tick_def Let_def now_ms_def bind_eq_Some_conv
      dest!: broadcast_input maybeSnapshot_input beginCountdown_input intro: calm_trans
      split: race_state.splits if_splits)

lemma tick_racing_input:
  "tick h = Some h' \<Longrightarrow> h_st h = StRacing \<Longrightarrow> h_sess h' = h_sess h \<and> h_pendingFlaps h' = {||}"
  by (auto simp: same_input_def tick_def Let_def now_ms_def bind_eq_Some_conv
      dest!: maybeSnapshot_input finishRace_input split: if_splits)

text \<open>A join that succeeds is given the next id; one that fails is given none.\<close>

lemma register_input:
  "register c name h = (s, h') \<Longrightarrow> h_pendingFlaps h' = h_pendingFlaps h \<and> s_ID s = h_nextID h + 1 \<and> s_flapCount s = 0
     \<and> h_nextID h' = h_nextID h + 1 \<and> h_sess h' = fmupd (h_nextID h + 1) s (h_sess h) \<and> h_world h' = h_world h"
  by (auto simp: register_def join_bird_def Let_def split: prod.splits if_splits)

lemma handleJoin_input:
  assumes "handleJoin tbl c name h = Some (r, h')"
  shows "h_pendingFlaps h' = h_pendingFlaps h \<and> calm (h_world h) (h_world h') \<and> fmdom (h_sess h) |\<subseteq>| fmdom (h_sess h')
    \<and> (\<forall>j. jr_sess r = Some j \<longrightarrow> j = h_nextID h + 1)
    \<and> (\<forall>j s. fmlookup (h_sess h') j = Some s \<longrightarrow> fmlookup (h_sess h) j = Some s \<or> s_flapCount s = 0)"
proof -
  have rejected: "same_input h g" if "reject c msg h = Some g" for msg g
    using that by (auto simp: reject_def bind_eq_Some_conv intro: same_input_trans conn_enqueue_input conn_close_input)
  show ?thesis
  proof (cases "int (fcard (h_players h)) \<ge> h_maxPlayers h \<or> \<not> snd (ValidateName tbl name)")
    case True
    then show ?thesis
      using assms by (auto simp: handleJoin_def same_input_def bind_eq_Some_conv dest!: rejected split: if_splits prod.splits)
  next
    case False
    then obtain nm s g g' h1 h2 where "register c nm h = (s, g)" "admit_join s (fst (now_ms g)) (snd (now_ms g)) = Some g'"
      "sendWelcome s (fst (now_ms g)) g' = Some h1" "broadcast h1 = Some h2" "h' = h2" "jr_sess r = Some (s_ID s)"
      using assms by (auto simp: handleJoin_def Let_def bind_eq_Some_conv case_prod_unfold prod_eq_iff split: if_splits)
    note ops = this
    have "same_input (snd (now_ms g)) h'"
      using admit_join_input [OF ops(2)] conn_enqueue_input ops(3) broadcast_input [OF ops(4)] ops(5)
      unfolding sendWelcome_def by (blast intro: same_input_trans)
    then show ?thesis using register_input [OF ops(1)] ops(6) by (auto simp: same_input_def now_ms_def)
  qed
qed

lemma handleFlap_input:
  assumes "reg_inv h" "handleFlap (Some j) h = Some h'"
  shows "h_pendingFlaps h |\<subseteq>| h_pendingFlaps h' \<and> h_pendingFlaps h' |\<subseteq>| finsert j (h_pendingFlaps h)
    \<and> h_world h' = h_world h \<and> fmdom (h_sess h) |\<subseteq>| fmdom (h_sess h')"
proof (cases "h_st h = StRacing")
  case True
  then obtain s where s: "fmlookup (h_sess h) j = Some s" using assms(2) by (auto simp: handleFlap_def bind_eq_Some_conv)
  then have "s_ID s = j" using assms(1) unfolding reg_inv_def by blast
  then show ?thesis
    using assms(2) True s
    by (auto simp: handleFlap_def rate_window_def now_ms_def Let_def bind_eq_Some_conv split: if_splits)
qed (use assms(2) in \<open>auto simp: handleFlap_def\<close>)

section \<open>The link\<close>

text \<open>The connection \<open>c\<close> of player \<open>i\<close>. The wire holds the texts written and not read; presses count the
  keys that reached the connection, impulses the steps in which the player's bird was flapped.\<close>

record input_link =
  il_net :: Net
  il_wire :: "string list"
  il_sys :: System
  il_presses :: nat
  il_impulses :: nat

definition own_flap :: "nat \<Rightarrow> u64 \<Rightarrow> System \<Rightarrow> System \<Rightarrow> bool" where
  "own_flap c i y y' \<longleftrightarrow> fmlookup (y_phase y) c = Some (PJoined i) \<and> y' = submit (EvFlap (Some i)) y"

text \<open>A step that flaps the player's bird sets the tick of its last flap.\<close>

definition flapped :: "u64 \<Rightarrow> System \<Rightarrow> System \<Rightarrow> nat" where
  "flapped i y y' = (if last_flap i (h_world (y_hub y')) \<notin> {0, last_flap i (h_world (y_hub y))} then 1 else 0)"

text \<open>The reader submits a flap for the text of one and ignores any other.\<close>

inductive input_step :: "(nat \<Rightarrow> bool) \<Rightarrow> nat \<Rightarrow> u64 \<Rightarrow> input_link \<Rightarrow> input_link \<Rightarrow> bool" for tbl c i where
  press: "input_step tbl c i l (l\<lparr>il_net := Flap (il_net l), il_presses := Suc (il_presses l)\<rparr>)"
| written: "write_command None (il_net l) = Some (m, n) \<Longrightarrow>
    input_step tbl c i l (l\<lparr>il_net := n, il_wire := il_wire l @ [m]\<rparr>)"
| lost: "write_command (Some err) (il_net l) = Some (m, n) \<Longrightarrow> input_step tbl c i l (l\<lparr>il_net := n\<rparr>)"
| read: "il_wire l = m # ms \<Longrightarrow> fmlookup (y_phase (il_sys l)) c = Some (PJoined i) \<Longrightarrow>
    input_step tbl c i l (l\<lparr>il_wire := ms,
      il_sys := (if m = flap_msg then submit (EvFlap (Some i)) (il_sys l) else il_sys l)\<rparr>)"
| server: "sys_step tbl (il_sys l) y \<Longrightarrow> \<not> own_flap c i (il_sys l) y \<Longrightarrow>
    input_step tbl c i l (l\<lparr>il_sys := y, il_impulses := il_impulses l + flapped i (il_sys l) y\<rparr>)"

inductive input_run :: "(nat \<Rightarrow> bool) \<Rightarrow> nat \<Rightarrow> u64 \<Rightarrow> input_link \<Rightarrow> input_link \<Rightarrow> bool" for tbl c i l0 where
  start: "input_run tbl c i l0 l0"
| step: "input_run tbl c i l0 l \<Longrightarrow> input_step tbl c i l l' \<Longrightarrow> input_run tbl c i l0 l'"

section \<open>Counting\<close>

text \<open>The flaps of the player that are on their way: pending, in the event channel, on the wire, queued.\<close>

definition owed :: "u64 \<Rightarrow> System \<Rightarrow> nat" where
  "owed i y = (if i |\<in>| h_pendingFlaps (y_hub y) then 1 else 0) + count_list (y_events y) (EvFlap (Some i))"

definition under_way :: "u64 \<Rightarrow> input_link \<Rightarrow> nat" where
  "under_way i l = owed i (il_sys l) + length (il_wire l) + length (nt_cmd (il_net l))"

text \<open>No other connection reads as this player.\<close>

definition sole_reader :: "nat \<Rightarrow> u64 \<Rightarrow> System \<Rightarrow> bool" where
  "sole_reader c i y \<longleftrightarrow> (\<forall>d. fmlookup (y_phase y) d = Some (PJoined i) \<longrightarrow> d = c)"

definition input_inv :: "nat \<Rightarrow> u64 \<Rightarrow> input_link \<Rightarrow> bool" where
  "input_inv c i l \<longleftrightarrow> sys_inv (il_sys l) \<and> sole_reader c i (il_sys l)
     \<and> i |\<in>| fmdom (h_sess (y_hub (il_sys l)))
     \<and> il_impulses l + under_way i l \<le> il_presses l"

lemma owed_submit:
  "owed i (submit ev y) \<le> owed i y + (if ev = EvFlap (Some i) then 1 else 0)"
  by (simp add: owed_def)

lemma owed_set_phase [simp]: "owed i (set_phase c p y) = owed i y" "flapped i y (set_phase c p z) = flapped i y z"
  by (simp_all add: owed_def flapped_def)

lemma flapped_calm: "calm (h_world (y_hub y)) (h_world (y_hub y')) \<Longrightarrow> flapped i y y' = 0"
  by (auto simp: flapped_def calm_def)

lemma sole_reader_set: "sole_reader c i y \<Longrightarrow> p \<noteq> PJoined i \<Longrightarrow> y_phase z = y_phase y \<Longrightarrow> sole_reader c i (set_phase d p z)"
  by (auto simp: sole_reader_def split: if_splits)

text \<open>What a dispatch owes afterwards: the event is used up, and a flap makes its own player pending.\<close>

lemma dispatch_owed:
  assumes "dispatch tbl ev h = Some (r, h')" "reg_inv h" "h_nextID h \<noteq> - 1" "i |\<in>| fmdom (h_sess h)" "ev \<noteq> EvFlap None"
  shows "i |\<in>| fmdom (h_sess h') \<and> calm (h_world h) (h_world h')
    \<and> (i |\<in>| h_pendingFlaps h' \<longrightarrow> i |\<in>| h_pendingFlaps h \<or> ev = EvFlap (Some i))
    \<and> (\<forall>rep. r = Some rep \<longrightarrow> jr_sess rep \<noteq> Some i)"
proof (cases ev)
  case (EvJoin c name)
  obtain s where "fmlookup (h_sess h) i = Some s" using assms(4) by (auto simp: fmlookup_dom_iff)
  then have "i \<le> h_nextID h" using assms(2) unfolding reg_inv_def by blast
  moreover have "h_nextID h < h_nextID h + 1" using assms(3) by (rule next_id)
  ultimately have "i \<noteq> h_nextID h + 1" by auto
  then show ?thesis
    using assms(1,4) EvJoin handleJoin_input [of tbl c name h] by (auto simp: dispatch_def bind_eq_Some_conv)
next
  case (EvFlap so)
  then obtain j where j: "so = Some j" using assms(5) by (cases so) auto
  obtain g where g: "handleFlap (Some j) h = Some g" "r = None" "h' = g"
    using assms(1) EvFlap j by (auto simp: dispatch_def bind_eq_Some_conv)
  show ?thesis using handleFlap_input [OF assms(2) g(1)] g assms(4) EvFlap j by auto
next
  case (EvLeave co so)
  then show ?thesis using assms(1,4) handleLeave_input [of co so h] by (auto simp: dispatch_def bind_eq_Some_conv same_input_def)
qed

lemma settle_keeps: "b_Vy (settle t ps i b) = b_Vy b \<and> b_LastFlap (settle t ps i b) = b_LastFlap b"
proof -
  have "b_Vy (foldl score_pipe c ps) = b_Vy c \<and> b_LastFlap (foldl score_pipe c ps) = b_LastFlap c" for c ps
    by (induction ps arbitrary: c) (simp_all add: score_pipe_def)
  then show ?thesis by (simp add: settle_def kill_def)
qed

lemma fly_flapped:
  assumes "i |\<in>| fl" "\<not> b_Dead b"
  shows "b_LastFlap (fly t fl i b) = t"
    "b_Vy (fly t fl i b) = (if fadd (b_Y b) (fadd FlapImpulse Gravity) < CeilingY then 0 else fadd FlapImpulse Gravity)"
proof -
  show "b_LastFlap (fly t fl i b) = t" using assms by (simp add: fly_def Let_def)
  show "b_Vy (fly t fl i b) = (if fadd (b_Y b) (fadd FlapImpulse Gravity) < CeilingY then 0 else fadd FlapImpulse Gravity)"
    using flap_sets_velocity [OF race_world_first, of fl] assms by blast
qed

text \<open>A racing tick steps the world with the pending flaps.\<close>

lemma racing_step:
  assumes "hub_inv h" "h_st h = StRacing" "tick h = Some h'" "h_world h = Some w"
  obtains w' where "h_world h' = Some w'" "w_Tick w' = w_Tick w + 1"
    "\<And>i. fmlookup (w_Birds w') i = map_option (\<lambda>b. settle (w_Tick w') (w_Pipes w') i (fly (w_Tick w') (h_pendingFlaps h) i b))
       (fmlookup (w_Birds w) i)"
proof -
  have "ticked h h'" using tick_inv [OF assms(1)] assms(3) by auto
  then obtain w' where w': "Step (h_pendingFlaps h) w = Some w'" "h_world h' = Some w'"
    using assms(2,4) by (auto simp: ticked_def)
  have "world_inv w" "w_Tick w < MaxRaceTicks"
    using assms(1,2,4) by (cases rule: hub_inv_race_cases; simp add: race_ok_def)+
  from Step_tick [OF this w'(1)] have "stepped (h_pendingFlaps h) w w'" by simp
  then show thesis using that [OF w'(2)] by (simp add: stepped_def)
qed

lemma racing_flapped:
  assumes "hub_inv h" "h_st h = StRacing" "tick h = Some h'" "i |\<notin>| h_pendingFlaps h"
  shows "last_flap i (h_world h') = last_flap i (h_world h)"
proof -
  obtain w where w: "h_world h = Some w" using assms(1,2) by (cases rule: hub_inv_race_cases) auto
  obtain w' where w': "h_world h' = Some w'" "w_Tick w' = w_Tick w + 1"
    "\<And>i. fmlookup (w_Birds w') i = map_option (\<lambda>b. settle (w_Tick w') (w_Pipes w') i (fly (w_Tick w') (h_pendingFlaps h) i b))
       (fmlookup (w_Birds w) i)" using racing_step [OF assms(1-3) w] by metis
  have "b_LastFlap (fly t fl i b) = b_LastFlap b" if "i |\<notin>| fl" for t fl b using that by (simp add: fly_def Let_def)
  then show ?thesis using assms(4) w w'(1,3) settle_keeps by (auto simp: last_flap_def split: option.split)
qed

lemma sys_step_owed:
  assumes "sys_step tbl y y'" "sys_inv y" "sole_reader c i y" "\<not> own_flap c i y y'" "i |\<in>| fmdom (h_sess (y_hub y))"
  shows "flapped i y y' + owed i y' \<le> owed i y \<and> sole_reader c i y' \<and> i |\<in>| fmdom (h_sess (y_hub y'))"
  using assms(1)
proof cases
  case (connect d)
  then show ?thesis using assms(3,5) by (auto simp: sole_reader_def flapped_def owed_def split: if_splits)
next
  case (join d name)
  then show ?thesis using assms(3,5) owed_submit [of i "EvJoin d name" y] by (auto simp: flapped_calm intro: sole_reader_set)
next
  case (no_join d)
  then show ?thesis using assms(3,5) owed_submit [of i "EvLeave (Some d) None" y] by (auto simp: flapped_calm intro: sole_reader_set)
next
  case (flap d j)
  then have "j \<noteq> i" using assms(3,4) by (auto simp: sole_reader_def own_flap_def)
  then show ?thesis using flap assms(3,5) owed_submit [of i "EvFlap (Some j)" y] by (auto simp: flapped_calm sole_reader_def)
next
  case (leave d j)
  then show ?thesis using assms(3,5) owed_submit [of i "EvLeave (Some d) (Some j)" y] by (auto simp: flapped_calm intro: sole_reader_set)
next
  case (rejected d)
  then show ?thesis using assms(3,5) owed_submit [of i "EvLeave (Some d) None" y] by (auto simp: flapped_calm intro: sole_reader_set)
next
  case (dispatch ev evs r h')
  have inv: "hub_inv (y_hub y)" "links_inv (y_hub y) (ev # evs) (y_phase y)"
    using assms(2) dispatch(2,3) by (simp_all add: sys_inv_def)
  then have "ev \<noteq> EvFlap None" by (auto simp: links_inv_def)
  moreover have "reg_inv (y_hub y)" using inv(1) by (simp add: hub_inv_def)
  ultimately have d: "i |\<in>| fmdom (h_sess h')" "calm (h_world (y_hub y)) (h_world h')"
    "i |\<in>| h_pendingFlaps h' \<Longrightarrow> i |\<in>| h_pendingFlaps (y_hub y) \<or> ev = EvFlap (Some i)"
    "\<forall>rep. r = Some rep \<longrightarrow> jr_sess rep \<noteq> Some i"
    using dispatch_owed [OF dispatch(5) _ dispatch(4) assms(5)] by auto
  have "sole_reader c i y'"
    using assms(3) d(4) unfolding dispatch(1)
    by (auto simp: after_reply_def sole_reader_def split: event.split option.split if_splits)
  then show ?thesis using d(1-3) dispatch(1,3) by (auto simp: flapped_calm owed_def)
next
  case (tick h')
  show ?thesis
  proof (cases "h_st (y_hub y) = StRacing")
    case True
    have "hub_inv (y_hub y)" using assms(2) tick(2) by (simp add: sys_inv_def)
    from racing_flapped [OF this True tick(3), of i] tick_racing_input [OF tick(3) True]
    show ?thesis using tick(1) assms(3,5) by (auto simp: flapped_def Let_def owed_def sole_reader_def)
  next
    case False
    from tick_idle_input [OF tick(3) False] show ?thesis
      using tick(1) assms(3,5) by (auto simp: same_input_def flapped_calm owed_def sole_reader_def)
  qed
next
  case (send_frame d q w q')
  then show ?thesis using assms(3,5) by (auto simp: flapped_def owed_def sole_reader_def)
next
  case (stop h')
  then show ?thesis using assms(3,5) shutdown_input [OF stop(3)] by (auto simp: flapped_calm owed_def sole_reader_def same_input_def)
qed

lemma input_step_inv:
  assumes "input_step tbl c i l l'" "input_inv c i l"
  shows "input_inv c i l'"
  using assms(1)
proof cases
  case press
  then show ?thesis using assms(2) by (auto simp: input_inv_def under_way_def Flap_def)
next
  case (written m n)
  then show ?thesis using assms(2) by (auto simp: input_inv_def under_way_def write_command_def split: list.splits)
next
  case (lost err m n)
  then show ?thesis using assms(2) by (auto simp: input_inv_def under_way_def write_command_def net_fail_def split: list.splits)
next
  case (read m ms)
  have "sys_step tbl (il_sys l) (submit (EvFlap (Some i)) (il_sys l))" by (rule sys_step.flap [OF read(3)])
  then have "sys_inv (il_sys l')" using read(1) assms(2) sys_step_inv by (auto simp: input_inv_def)
  then show ?thesis using read(1,2) assms(2) owed_submit [of i "EvFlap (Some i)" "il_sys l"]
    by (auto simp: input_inv_def under_way_def sole_reader_def)
next
  case (server y)
  then show ?thesis using assms(2) sys_step_owed [OF server(2) _ _ server(3)] sys_step_inv [OF server(2)]
    by (auto simp: input_inv_def under_way_def)
qed

lemma input_run_inv: "input_run tbl c i l0 l \<Longrightarrow> input_inv c i l0 \<Longrightarrow> input_inv c i l"
  by (induction rule: input_run.induct) (auto intro: input_step_inv)

section \<open>Properties\<close>

lemma reader_is_sole:
  assumes "hub_inv (y_hub y)" "links_inv (y_hub y) (y_events y) (y_phase y)" "fmlookup (y_phase y) c = Some (PJoined i)"
  shows "sole_reader c i y" "i |\<in>| fmdom (h_sess (y_hub y))"
proof -
  have "\<exists>s. fmlookup (h_sess (y_hub y)) i = Some s \<and> s_conn s = d" if "fmlookup (y_phase y) d = Some (PJoined i)" for d
    using assms(2) that by (fastforce simp: links_inv_def phase_ok_def)
  note owner = this
  from owner [OF assms(3)] obtain s where "fmlookup (h_sess (y_hub y)) i = Some s" "s_conn s = c" by blast
  with owner show "sole_reader c i y" "i |\<in>| fmdom (h_sess (y_hub y))" by (auto simp: sole_reader_def intro: fmdomI)
qed

text \<open>C22: a bird flies by its own player's keys alone. Whatever the other players send and however the
  goroutines, the network and the clients interleave, the ticks give a bird at most as many impulses
  as its player has pressed keys on this connection, those under way at the start included; what is
  still under way is not counted twice.\<close>

theorem impulses_are_presses:
  assumes "reachable tbl (NewHub cfg store clk rng) (il_sys l0)" "y_running (il_sys l0)"
    "fmlookup (y_phase (il_sys l0)) c = Some (PJoined i)" "il_impulses l0 = 0" "il_presses l0 = under_way i l0"
    "input_run tbl c i l0 l"
  shows "il_impulses l + under_way i l \<le> il_presses l"
proof -
  note h = reachable_hub [OF assms(1,2)]
  have "input_inv c i l0"
    using reachable_inv [OF assms(1)] reader_is_sole [OF h assms(3)] assms(4,5) by (simp add: input_inv_def)
  from input_run_inv [OF assms(6) this] show ?thesis by (simp add: input_inv_def)
qed

text \<open>A racing tick of the running server and what it does to a bird whose flap is pending.\<close>

lemma racing_tick:
  assumes "reachable tbl (NewHub cfg store clk rng) y" "y_running y" "h_st (y_hub y) = StRacing"
    "h_world (y_hub y) = Some w" "fmlookup (w_Birds w) i = Some b" "\<not> b_Dead b" "i |\<in>| h_pendingFlaps (y_hub y)"
  shows "\<exists>h' w' b'. tick (y_hub y) = Some h' \<and> h_pendingFlaps h' = {||} \<and> h_world h' = Some w' \<and> w_Tick w' = w_Tick w + 1
    \<and> fmlookup (w_Birds w') i = Some b' \<and> b_LastFlap b' = w_Tick w'
    \<and> b_Vy b' = (if fadd (b_Y b) (fadd FlapImpulse Gravity) < CeilingY then 0 else fadd FlapImpulse Gravity)"
proof -
  have inv: "hub_inv (y_hub y)" by (rule reachable_hub(1) [OF assms(1,2)])
  then obtain h' where h': "tick (y_hub y) = Some h'" using tick_inv by blast
  obtain w' where w': "h_world h' = Some w'" "w_Tick w' = w_Tick w + 1"
    "\<And>i. fmlookup (w_Birds w') i = map_option (\<lambda>b. settle (w_Tick w') (w_Pipes w') i (fly (w_Tick w') (h_pendingFlaps (y_hub y)) i b))
       (fmlookup (w_Birds w) i)" using racing_step [OF inv assms(3) h' assms(4)] by metis
  then show ?thesis using h' tick_racing_input [OF h' assms(3)] assms(5) settle_keeps fly_flapped [OF assms(7,6)] by auto
qed

lemma input_steps2: "input_run tbl c i l0 l \<Longrightarrow> input_step tbl c i l l1 \<Longrightarrow> input_step tbl c i l1 l2 \<Longrightarrow> input_run tbl c i l0 l2"
  by (blast intro: input_run.step)

text \<open>C23: a key press acts in the next tick. On a link with nothing under way, while the race runs and the
  player's bird lives and has flapped fewer than twenty times in the current second, the press can be
  written, read and dispatched, and the tick after that gives the bird the speed of a flap, whatever
  its speed was, unless the ceiling stops it.\<close>

theorem press_acts:
  assumes "reachable tbl (NewHub cfg store clk rng) (il_sys l)" "y_running (il_sys l)" "h_st (y_hub (il_sys l)) = StRacing"
    "fmlookup (y_phase (il_sys l)) c = Some (PJoined i)" "y_events (il_sys l) = []" "il_wire l = []" "nt_cmd (il_net l) = []"
    "h_world (y_hub (il_sys l)) = Some w" "fmlookup (w_Birds w) i = Some b" "\<not> b_Dead b"
    "fmlookup (h_sess (y_hub (il_sys l))) i = Some s" "h_nextID (y_hub (il_sys l)) \<noteq> - 1"
    "s_flapCount (rate_window (h_clk (y_hub (il_sys l)) (h_calls (y_hub (il_sys l))) sdiv 1000) s) < FlapRateLimit"
  shows "\<exists>l' w' b'. input_run tbl c i l l' \<and> il_presses l' = Suc (il_presses l) \<and> under_way i l' = 0
    \<and> h_world (y_hub (il_sys l')) = Some w' \<and> w_Tick w' = w_Tick w + 1
    \<and> fmlookup (w_Birds w') i = Some b' \<and> b_LastFlap b' = w_Tick w'
    \<and> b_Vy b' = (if fadd (b_Y b) (fadd FlapImpulse Gravity) < CeilingY then 0 else fadd FlapImpulse Gravity)"
proof -
  let ?y = "il_sys l" and ?n = "il_net l"
  let ?y1 = "submit (EvFlap (Some i)) ?y"
  define l1 where "l1 = l\<lparr>il_net := Flap ?n, il_presses := Suc (il_presses l)\<rparr>"
  define l2 where "l2 = l1\<lparr>il_net := ?n, il_wire := [flap_msg]\<rparr>"
  define l3 where "l3 = l2\<lparr>il_wire := [], il_sys := ?y1\<rparr>"
  have "input_step tbl c i l l1" unfolding l1_def by (rule input_step.press)
  moreover have "write_command None (Flap ?n) = Some (flap_msg, ?n)"
    using assms(7) by (simp add: write_command_def Flap_def)
  then have "input_step tbl c i l1 l2"
    using input_step.written [of l1 flap_msg ?n tbl c i] assms(6) by (simp add: l1_def l2_def)
  moreover have "input_step tbl c i l2 l3"
    using input_step.read [of l2 flap_msg "[]" c i tbl] assms(4) by (simp add: l1_def l2_def l3_def)
  ultimately have run3: "input_run tbl c i l l3"
    by (rule input_run.step [OF input_steps2 [OF input_run.start]])
  have inv: "hub_inv (y_hub ?y)" by (rule reachable_hub(1) [OF assms(1,2)])
  then have id: "s_ID s = i" using assms(11) unfolding hub_inv_def reg_inv_def by blast
  have racer: "IsRacer w i" using assms(9) by (simp add: IsRacer_def fmdomI)
  obtain g where g: "handleFlap (Some i) (y_hub ?y) = Some g" "h_pendingFlaps g = finsert i (h_pendingFlaps (y_hub ?y))"
    "h_world g = Some w" "h_st g = StRacing"
    using handleFlap_racing [OF assms(3,11,8)] assms(13,3,8) id racer by (auto simp: rate_window_def split: if_splits)
  define y2 where "y2 = ?y1\<lparr>y_hub := g, y_events := []\<rparr>"
  have "after_reply (EvFlap (Some i)) None y2 = y2" by (simp add: after_reply_def)
  then have d: "sys_step tbl ?y1 y2"
    using sys_step.dispatch [of ?y1 "EvFlap (Some i)" "[]" tbl None g] assms(2,5,12) g(1)
    by (simp add: dispatch_def y2_def)
  have r1: "reachable tbl (NewHub cfg store clk rng) ?y1" by (rule reachable.step [OF assms(1) sys_step.flap [OF assms(4)]])
  have r2: "reachable tbl (NewHub cfg store clk rng) y2" by (rule reachable.step [OF r1 d])
  have y2: "y_running y2" "h_st (y_hub y2) = StRacing" "h_world (y_hub y2) = Some w" "i |\<in>| h_pendingFlaps (y_hub y2)"
    using assms(2) g by (simp_all add: y2_def)
  from racing_tick [OF r2 y2(1-3) assms(9,10) y2(4)] obtain h' w' b' where
    h': "tick (y_hub y2) = Some h'" "h_pendingFlaps h' = {||}" "h_world h' = Some w'" "w_Tick w' = w_Tick w + 1"
    "fmlookup (w_Birds w') i = Some b'" "b_LastFlap b' = w_Tick w'"
    "b_Vy b' = (if fadd (b_Y b) (fadd FlapImpulse Gravity) < CeilingY then 0 else fadd FlapImpulse Gravity)" by blast
  let ?y3 = "y2\<lparr>y_hub := h'\<rparr>"
  define l4 where "l4 = l3\<lparr>il_sys := y2, il_impulses := il_impulses l3 + flapped i ?y1 y2\<rparr>"
  define l5 where "l5 = l4\<lparr>il_sys := ?y3, il_impulses := il_impulses l4 + flapped i y2 ?y3\<rparr>"
  have "y_events y2 = []" "y_events ?y3 = []" by (simp_all add: y2_def)
  then have no: "\<not> own_flap c i ?y1 y2" "\<not> own_flap c i y2 ?y3" using assms(5) by (auto simp: own_flap_def dest: arg_cong [where f = y_events])
  have "input_step tbl c i l3 l4" using input_step.server [of tbl l3 y2 c i] d no(1) by (simp add: l3_def l4_def)
  moreover have "sys_step tbl y2 ?y3" by (rule sys_step.tick [OF y2(1) h'(1)])
  then have "input_step tbl c i l4 l5" using input_step.server [of tbl l4 ?y3 c i] no(2) by (simp add: l4_def l5_def)
  ultimately have "input_run tbl c i l l5" by (rule input_steps2 [OF run3])
  moreover have "il_presses l5 = Suc (il_presses l)" "under_way i l5 = 0"
    using assms(7) h'(2) by (simp_all add: l5_def l4_def l3_def l2_def l1_def under_way_def owed_def y2_def)
  ultimately show ?thesis using h'(3-7) by (intro exI [of _ l5] exI [of _ w'] exI [of _ b']) (simp add: l5_def)
qed

section \<open>Witnesses\<close>

text \<open>The values are the first race of a server with one player, and a link with nothing under way.\<close>

definition link_on :: "System \<Rightarrow> input_link" where
  "link_on y = \<lparr>il_net = NewNet, il_wire = [], il_sys = y, il_presses = owed 1 y, il_impulses = 0\<rparr>"

lemma first_race:
  obtains y w b s where "reachable (\<lambda>_. False) quick_hub y" "y_running y" "h_st (y_hub y) = StRacing" "y_events y = []"
    "fmlookup (y_phase y) 0 = Some (PJoined 1)" "h_world (y_hub y) = Some w" "fmlookup (w_Birds w) 1 = Some b" "\<not> b_Dead b"
    "fmlookup (h_sess (y_hub y)) 1 = Some s" "h_nextID (y_hub y) \<noteq> - 1" "\<forall>sec. s_flapCount (rate_window sec s) < FlapRateLimit"
proof -
  let ?h = "quick_hub\<lparr>h_conns := fmupd 0 newClientConn fmempty\<rparr>"
  obtain y r g where y: "reachable (\<lambda>_. False) quick_hub y" "y_running y" "h_st (y_hub y) = StRacing"
    "1 |\<in>| fmdom (h_sess (y_hub y))" "y_events y = []" "fmlookup (y_phase y) 0 = Some (PJoined 1)"
    "h_players (y_hub y) = {|1|}" "h_nextID (y_hub y) = 1" "h_sess (y_hub y) = h_sess g"
    "handleJoin (\<lambda>_. False) 0 ''ada'' ?h = Some (r, g)" using race_joined by blast
  obtain s where s: "fmlookup (h_sess (y_hub y)) 1 = Some s" using y(4) by (auto simp: fmlookup_dom_iff)
  have "fmlookup (h_sess ?h) 1 = None" by simp
  then have "s_flapCount s = 0" using handleJoin_input [OF y(10)] s y(9) by auto
  then have "\<forall>sec. s_flapCount (rate_window sec s) < FlapRateLimit" by (simp add: rate_window_def)
  moreover have "hub_inv (y_hub y)" using y(1,2) unfolding quick_hub_def by (rule reachable_hub(1))
  then obtain w j where "h_world (y_hub y) = Some w" "flying w j" "j |\<in>| h_players (y_hub y)"
    using y(3) by (cases rule: hub_inv_race_cases) auto
  then have "h_world (y_hub y) = Some w" "flying w 1" using y(7) by simp_all
  ultimately show thesis using that [OF y(1-3,5,6)] s y(8) by (auto simp: flying_def)
qed

theorem impulses_are_presses_witness:
  "\<exists>y l. reachable (\<lambda>_. False) quick_hub y \<and> input_run (\<lambda>_. False) 0 1 (link_on y) l
     \<and> il_presses l = Suc (owed 1 y) \<and> nt_cmd (il_net l) = [flap_msg] \<and> il_impulses l + under_way 1 l \<le> Suc (owed 1 y)"
proof -
  obtain y where y: "reachable (\<lambda>_. False) quick_hub y" "y_running y" "fmlookup (y_phase y) 0 = Some (PJoined 1)"
    using first_race by metis
  let ?l = "(link_on y)\<lparr>il_net := Flap NewNet, il_presses := Suc (owed 1 y)\<rparr>"
  have run: "input_run (\<lambda>_. False) 0 1 (link_on y) ?l"
    using input_run.step [OF input_run.start input_step.press, of "\<lambda>_. False" 0 1 "link_on y"] by (simp add: link_on_def)
  have "reachable (\<lambda>_. False) quick_hub (il_sys (link_on y))" "y_running (il_sys (link_on y))"
    "fmlookup (y_phase (il_sys (link_on y))) 0 = Some (PJoined 1)" "il_impulses (link_on y) = 0"
    "il_presses (link_on y) = under_way 1 (link_on y)"
    using y by (simp_all add: link_on_def under_way_def NewNet_def)
  from impulses_are_presses [OF this(1) [unfolded quick_hub_def] this(2-5) run] y(1) run show ?thesis
    by (intro exI [of _ y] exI [of _ ?l]) (simp add: Flap_def NewNet_def)
qed

theorem press_acts_witness:
  "\<exists>y l' w' b'. reachable (\<lambda>_. False) quick_hub y \<and> input_run (\<lambda>_. False) 0 1 (link_on y) l' \<and> under_way 1 l' = 0
     \<and> h_world (y_hub (il_sys l')) = Some w' \<and> fmlookup (w_Birds w') 1 = Some b' \<and> b_LastFlap b' = w_Tick w'"
proof -
  obtain y w b s where y: "reachable (\<lambda>_. False) quick_hub y" "y_running y" "h_st (y_hub y) = StRacing" "y_events y = []"
    "fmlookup (y_phase y) 0 = Some (PJoined 1)" "h_world (y_hub y) = Some w" "fmlookup (w_Birds w) 1 = Some b" "\<not> b_Dead b"
    "fmlookup (h_sess (y_hub y)) 1 = Some s" "h_nextID (y_hub y) \<noteq> - 1" "\<forall>sec. s_flapCount (rate_window sec s) < FlapRateLimit"
    using first_race by metis
  show ?thesis
    using press_acts [where l = "link_on y" and c = 0 and i = 1, unfolded link_on_def input_link.simps NewNet_def Net.simps,
        OF y(1) [unfolded quick_hub_def] y(2,3,5,4) refl refl y(6-10) y(11) [rule_format]] y(1)
    by (auto simp: link_on_def NewNet_def)
qed

end
