(* ===== verification/Pumps.thy ===== *)
theory Pumps
  imports System
begin

text \<open>
  The loops of the two goroutines of a connection, \<^verbatim>\<open>readPump\<close> and \<^verbatim>\<open>writePump\<close> of
  \<^verbatim>\<open>internal/server/client.go\<close>, one round at a time. A round of the reader is one of the steps the running
  server takes. \<open>decode\<close> is the JSON package on a client frame; deadlines and the pong handler only decide
  when a read fails.
\<close>

section \<open>The reader\<close>

definition TJoin :: u8 where "TJoin = 1"

definition TFlap :: u8 where "TFlap = 2"

record clientFrame =
  cf_T :: u8
  cf_Name :: string

text \<open>A transport error is \<^term>\<open>None\<close>; a text that does not decode is the zero frame.\<close>

definition readFrame :: "(string \<Rightarrow> clientFrame option) \<Rightarrow> string option \<Rightarrow> clientFrame option" where
  "readFrame decode msg = (case msg of None \<Rightarrow> None
     | Some text \<Rightarrow> Some (case decode text of None \<Rightarrow> \<lparr>cf_T = 0, cf_Name = []\<rparr> | Some f \<Rightarrow> f))"

text \<open>A round of \<^verbatim>\<open>readPump\<close> from where it stands: the first frame must be a join, later ones may be
  flaps; a return runs the deferred leave. A reader that waits for the hub or has returned reads nothing.\<close>

definition readPump :: "(string \<Rightarrow> clientFrame option) \<Rightarrow> string option \<Rightarrow> nat \<Rightarrow> System \<Rightarrow> System" where
  "readPump decode msg c y = (let leave = (\<lambda>sess. set_phase c PGone (submit (EvLeave (Some c) sess) y)) in
     case fmlookup (y_phase y) c of
       Some PConn \<Rightarrow> (case readFrame decode msg of
           None \<Rightarrow> leave None
         | Some f \<Rightarrow> if cf_T f \<noteq> TJoin then leave None
             else set_phase c PJoining (submit (EvJoin c (cf_Name f)) y))
     | Some (PJoined i) \<Rightarrow> (case readFrame decode msg of
           None \<Rightarrow> leave (Some i)
         | Some f \<Rightarrow> if cf_T f = TFlap then submit (EvFlap (Some i)) y else y)
     | Some PRejected \<Rightarrow> leave None
     | Some PJoining \<Rightarrow> y
     | Some PGone \<Rightarrow> y
     | None \<Rightarrow> y)"

lemma readPump_step: "readPump decode msg c y = y \<or> sys_step tbl y (readPump decode msg c y)"
  by (auto simp: readPump_def Let_def intro: sys_step.intros split: option.splits phase.splits)

text \<open>Garbage never ends a connection that has joined.\<close>

lemma readPump_garbage:
  "fmlookup (y_phase y) c = Some (PJoined i) \<Longrightarrow> decode text = None \<Longrightarrow> readPump decode (Some text) c y = y"
  by (simp add: readPump_def readFrame_def TFlap_def)

section \<open>The writer\<close>

datatype wrote = WroteFrame frame | WroteClose | WrotePing

text \<open>A round of \<^verbatim>\<open>writePump\<close>: the ticker (\<open>pinging\<close>) or the queue, and whether the write succeeds. The result is what
  was written, whether the loop goes on, and the queue; it blocks on an empty open queue.\<close>

definition writePump :: "bool \<Rightarrow> bool \<Rightarrow> Conn \<Rightarrow> (wrote \<times> bool \<times> Conn) option" where
  "writePump pinging ok q =
     (if pinging then Some (WrotePing, ok, q)
      else (case write_next q of
          None \<Rightarrow> None
        | Some (WClose, q') \<Rightarrow> Some (WroteClose, False, q')
        | Some (WFrame f, q') \<Rightarrow> Some (WroteFrame f, ok, q')))"

fun writePump_run :: "(bool \<times> bool) list \<Rightarrow> Conn \<Rightarrow> wrote list" where
  "writePump_run [] q = []"
| "writePump_run ((pinging, ok) # rounds) q = (case writePump pinging ok q of
       None \<Rightarrow> writePump_run rounds q
     | Some (w, again, q') \<Rightarrow> w # (if again then writePump_run rounds q' else []))"

text \<open>What a writer sends, pings aside, is a prefix of the queue, and the end of a closed queue is sent at
  most once and after all of it.\<close>

lemma writePump_run_prefix:
  "\<exists>k \<le> length (c_send q). filter (\<lambda>w. w \<noteq> WrotePing) (writePump_run rounds q) = map WroteFrame (take k (c_send q))
     \<or> c_closed q \<and> filter (\<lambda>w. w \<noteq> WrotePing) (writePump_run rounds q) = map WroteFrame (c_send q) @ [WroteClose]"
proof (induction rounds q rule: writePump_run.induct)
  case (2 pinging ok rounds q)
  show ?case
  proof (cases "writePump pinging ok q")
    case None
    then show ?thesis using 2(1) by simp
  next
    case (Some r)
    obtain w again q' where r: "r = (w, again, q')" by (cases r)
    show ?thesis
    proof (cases again)
      case False
      then show ?thesis using Some r
        by (auto simp: writePump_def write_next_def split: if_splits list.splits
            intro: exI [of _ 0] exI [of _ 1])
    next
      case True
      from 2(2) [OF Some r [symmetric] refl True] obtain k where k: "k \<le> length (c_send q')"
        "filter (\<lambda>w. w \<noteq> WrotePing) (writePump_run rounds q') = map WroteFrame (take k (c_send q'))
         \<or> c_closed q' \<and> filter (\<lambda>w. w \<noteq> WrotePing) (writePump_run rounds q') = map WroteFrame (c_send q') @ [WroteClose]" by blast
      show ?thesis
      proof (cases "w = WrotePing")
        case True
        then have "q' = q" using Some r by (auto simp: writePump_def split: option.splits ws_write.splits if_splits)
        then show ?thesis using k Some r \<open>again\<close> True by auto
      next
        case False
        then obtain f where f: "w = WroteFrame f" "c_send q = f # c_send q'" "c_closed q' = c_closed q"
          using Some r \<open>again\<close> by (auto simp: writePump_def write_next_def split: if_splits list.splits)
        then show ?thesis using k Some r \<open>again\<close> by (intro exI [of _ "Suc k"]) auto
      qed
    qed
  qed
qed (auto intro: exI [of _ 0])

end
