(* ===== verification/Server_Spec.thy ===== *)
theory Server_Spec
  imports Sample_Server Cycle_Refinement
begin

text \<open>
  What the server promises, stated of the states it can reach: no goroutine panics, the hub
  implements the abstract race cycle, the registry is consistent, races end, the store keeps its
  file and its ranking, and queues keep the newest frames.
\<close>

section \<open>The abstract race cycle\<close>

text \<open>
  The state machine of the \<^verbatim>\<open>Hub\<close> comment over the wire state and the number of players:
  waiting, countdown, racing, finished, countdown ..., and waiting when the last player leaves.
\<close>

inductive cycle :: "race_state \<times> nat \<Rightarrow> race_state \<times> nat \<Rightarrow> bool" where
  stay: "cycle (st, n) (st, n)"
| first_join: "cycle (StWaiting, 0) (StCountdown, 1)"
| join: "0 < n \<Longrightarrow> st \<noteq> StWaiting \<Longrightarrow> cycle (st, n) (st, Suc n)"
| last_leave: "st \<noteq> StWaiting \<Longrightarrow> cycle (st, 1) (StWaiting, 0)"
| leave: "0 < n \<Longrightarrow> st \<noteq> StWaiting \<Longrightarrow> cycle (st, Suc n) (st, n)"
| last_racer_left: "0 < n \<Longrightarrow> cycle (StRacing, Suc n) (StFinished, n)"
| go: "0 < n \<Longrightarrow> cycle (StCountdown, n) (StRacing, n)"
| over: "0 < n \<Longrightarrow> cycle (StRacing, n) (StFinished, n)"
| again: "0 < n \<Longrightarrow> cycle (StFinished, n) (StCountdown, n)"

definition hub_abs :: "Hub \<Rightarrow> race_state \<times> nat" where
  "hub_abs h = (h_st h, fcard (h_players h))"

lemma waiting_iff:
  assumes "hub_inv h" shows "h_st h = StWaiting \<longleftrightarrow> fcard (h_players h) = 0"
  using assms by (cases rule: hub_inv_race_cases) auto

lemma players_pos: "hub_inv h \<Longrightarrow> h_st h \<noteq> StWaiting \<Longrightarrow> 0 < fcard (h_players h)"
  using waiting_iff by (metis gr0I)

lemma cycle_join:
  assumes "hub_inv h" "i |\<notin>| h_players h" "h_players h' = finsert i (h_players h)"
    "h_st h' = (if h_st h = StWaiting then StCountdown else h_st h)"
  shows "cycle (hub_abs h) (hub_abs h')"
proof (cases "h_st h = StWaiting")
  case True
  then have n: "fcard (h_players h) = 0" using waiting_iff [OF assms(1)] by (simp only:)
  then have "fcard (h_players h') = 1"
    unfolding assms(3) by (subst fcard_finsert_disjoint [OF assms(2)]) (simp only: One_nat_def)
  then show ?thesis using True assms(4) n cycle.first_join by (simp add: hub_abs_def del: fcard_0_eq)
next
  case False
  then have "0 < fcard (h_players h)" by (rule players_pos [OF assms(1)])
  moreover have "fcard (h_players h') = Suc (fcard (h_players h))"
    unfolding assms(3) by (rule fcard_finsert_disjoint [OF assms(2)])
  ultimately show ?thesis using False assms(4) cycle.join by (simp add: hub_abs_def)
qed

lemma cycle_leave:
  assumes "hub_inv h" "hub_inv h'" "i |\<in>| h_players h" "h_players h' = h_players h |-| {|i|}" "left_st h h'"
  shows "cycle (hub_abs h) (hub_abs h')"
proof -
  obtain n where n: "fcard (h_players h) = Suc n"
    using assms(3) by (cases "fcard (h_players h)") auto
  have "h_players h = finsert i (h_players h')" "i |\<notin>| h_players h'" using assms(3,4) by auto
  then have n': "fcard (h_players h') = n" using n fcard_finsert_disjoint [of i "h_players h'"] by simp
  have st: "h_st h \<noteq> StWaiting" using waiting_iff [OF assms(1)] n by simp
  show ?thesis
  proof (cases n)
    case 0
    then have "h_st h' = StWaiting" using waiting_iff [OF assms(2)] n' by simp
    then show ?thesis using 0 n n' st cycle.last_leave by (simp add: hub_abs_def fcard_fempty)
  next
    case (Suc m)
    then have "h_st h' \<noteq> StWaiting" using waiting_iff [OF assms(2)] n' by simp
    then consider "h_st h' = h_st h" | "h_st h = StRacing" "h_st h' = StFinished"
      using assms(5) by (auto simp: left_st_def)
    then show ?thesis
      using n n' st Suc cycle.leave [of n] cycle.last_racer_left [of n] by cases (simp_all add: hub_abs_def)
  qed
qed

lemma cycle_tick:
  assumes "hub_inv h" "ticked h h'" "h_players h' = h_players h"
  shows "cycle (hub_abs h) (hub_abs h')"
proof -
  define n where "n = fcard (h_players h)"
  have n: "h_st h \<noteq> StWaiting \<Longrightarrow> 0 < n" unfolding n_def by (rule players_pos [OF assms(1)])
  have "cycle (h_st h, n) (h_st h', n)"
    using assms(2) n by (cases "h_st h") (auto simp: ticked_def intro: cycle.intros)
  then show ?thesis by (simp add: hub_abs_def assms(3) n_def)
qed

lemma dispatch_cycle:
  assumes inv: "hub_inv h" and l: "links_inv h (e # evs) ph" and nid: "h_nextID h \<noteq> - 1"
    and d: "dispatch tbl e h = Some (r, h')"
  shows "cycle (hub_abs h) (hub_abs h')"
proof (cases e)
  case (EvJoin c name)
  have ph: "fmlookup ph c = Some PJoining" using links_inv_tl(2) [OF l] EvJoin by simp
  then have "phase_ok h c PJoining" using links_inv_tl(1) [OF l] unfolding links_inv_def by blast
  then have c: "open_conn (h_conns h) c" "no_player_on h c" by (simp_all add: phase_ok_def)
  from handleJoin_inv [OF inv c nid, of tbl name] obtain rr g where
    g: "handleJoin tbl c name h = Some (rr, g)" "hub_inv g"
    "case jr_sess rr of None \<Rightarrow> refused tbl c name (jr_errMsg rr) h g
     | Some i \<Rightarrow> jr_errMsg rr = [] \<and> admitted tbl c name i h g" by blast
  have hg: "h' = g" using d g(1) EvJoin by (simp add: dispatch_def)
  show ?thesis
  proof (cases "jr_sess rr")
    case None
    then show ?thesis using g(3) hg by (simp add: hub_abs_def left_rel_def refused_def cycle.stay)
  next
    case (Some i)
    then obtain s where s: "joined_rel c i s h g" "h_st g = (if h_st h = StWaiting then StCountdown else h_st h)"
      using g(3) by (auto simp: admitted_def)
    have "h_players h |\<subseteq>| fmdom (h_sess h)" using inv unfolding hub_inv_def reg_inv_def by blast
    then have "i |\<notin>| h_players h" using s(1) unfolding joined_rel_def by blast
    then show ?thesis using cycle_join [OF inv _ _ s(2)] s(1) hg by (simp add: joined_rel_def)
  qed
next
  case (EvFlap so)
  obtain i where i: "so = Some i" "i |\<in>| fmdom (h_sess h)" using links_inv_tl(2) [OF l] EvFlap by auto
  from handleFlap_inv [OF inv i(2)] d i EvFlap have "flap_rel i h h'" by (auto simp: dispatch_def)
  then have "hub_abs h' = hub_abs h" by (auto simp: flap_rel_def hub_abs_def)
  then show ?thesis by (metis cycle.stay surj_pair)
next
  case (EvLeave co so)
  obtain c where c: "co = Some c" "fmlookup ph c = Some PGone" "c |\<in>| fmdom (h_conns h)"
    "case so of None \<Rightarrow> no_player_on h c
     | Some i \<Rightarrow> i |\<in>| h_players h \<and> (\<exists>s. fmlookup (h_sess h) i = Some s \<and> s_conn s = c)"
    using links_inv_tl(2) [OF l] EvLeave by auto
  show ?thesis
  proof (cases so)
    case None
    then have np: "no_player_on h c" using c(4) by simp
    from handleLeave_unjoined_inv [OF inv c(3) np] d c(1) None EvLeave
    have "left_rel c {||} h h'" "h_st h' = h_st h" by (auto simp: dispatch_def)
    then show ?thesis by (simp add: hub_abs_def left_rel_def cycle.stay)
  next
    case (Some i)
    then obtain s where s: "i |\<in>| h_players h" "fmlookup (h_sess h) i = Some s" "s_conn s = c" using c(4) by auto
    from handleLeave_inv [OF inv s(1,2)] d c(1) s(3) Some EvLeave
    have "hub_inv h'" "left_rel c {|i|} h h'" "left_st h h'" by (auto simp: dispatch_def)
    then show ?thesis using cycle_leave [OF inv _ s(1)] by (simp add: left_rel_def)
  qed
qed

lemma sys_step_cycle:
  assumes "sys_inv y" "sys_step tbl y y'" "y_running y'"
  shows "cycle (hub_abs (y_hub y)) (hub_abs (y_hub y'))"
  using assms(2)
proof (cases rule: sys_step.cases)
  case (dispatch ev evs r h')
  then show ?thesis
    using assms(1) dispatch_cycle [of "y_hub y" ev evs "y_phase y" tbl r h'] by (simp add: sys_inv_def)
next
  case (tick h')
  have inv: "hub_inv (y_hub y)" using assms(1) tick(2) by (simp add: sys_inv_def)
  from tick_inv [OF inv] tick(3) have "same_players (y_hub y) h'" "ticked (y_hub y) h'" by auto
  then show ?thesis using cycle_tick [OF inv] tick(1) by (simp add: same_players_def)
qed (use assms(3) in \<open>auto simp: hub_abs_def intro: cycle.stay\<close>)

interpretation server: simulation "\<lambda>y y'. sys_step tbl y y' \<and> y_running y'" sys_inv "\<lambda>y. hub_abs (y_hub y)" cycle for tbl
  by unfold_locales (auto intro: sys_step_inv sys_step_cycle)

text \<open>A server that still runs has run all the time.\<close>

lemma running_run:
  "reachable tbl h y \<Longrightarrow> y_running y \<Longrightarrow> rtranclp (\<lambda>y y'. sys_step tbl y y' \<and> y_running y') (init_system h) y"
proof (induction rule: reachable.induct)
  case (step y y')
  have "y_running y" using step(2,4) by cases auto
  with step show ?case by (auto intro: rtranclp.rtrancl_into_rtrancl)
qed simp

text \<open>C2: the server implements the abstract race cycle. Every step of every interleaving of the
  goroutines, seen through the wire state and the number of players, is a step of the cycle, and so
  every run is a run of the cycle from waiting without players.\<close>

theorem server_refines_cycle:
  assumes "reachable tbl (NewHub cfg store clk rng) y" "sys_step tbl y y'" "y_running y'"
  shows "cycle (hub_abs (y_hub y)) (hub_abs (y_hub y')) \<and> rtranclp cycle (StWaiting, 0) (hub_abs (y_hub y'))"
proof
  show "cycle (hub_abs (y_hub y)) (hub_abs (y_hub y'))" by (rule sys_step_cycle [OF reachable_inv [OF assms(1)] assms(2,3)])
  have "hub_abs (y_hub (init_system (NewHub cfg store clk rng))) = (StWaiting, 0)"
    by (simp add: hub_abs_def init_system_def NewHub_def Let_def fcard_fempty)
  then show "rtranclp cycle (StWaiting, 0) (hub_abs (y_hub y'))"
    using server.run_sim [OF running_run [OF reachable.step [OF assms(1,2)] assms(3)] reachable_inv [OF reachable.start]]
    by simp
qed

theorem server_refines_cycle_witness:
  "\<exists>y'. sys_step (\<lambda>_. False) fresh_server y' \<and> cycle (StWaiting, 0) (hub_abs (y_hub y'))
     \<and> rtranclp cycle (StWaiting, 0) (hub_abs (y_hub y'))"
proof -
  let ?y' = "set_phase 0 PConn (fresh_server\<lparr>y_hub := (y_hub fresh_server)
      \<lparr>h_conns := fmupd 0 newClientConn (h_conns (y_hub fresh_server))\<rparr>\<rparr>)"
  have s: "sys_step (\<lambda>_. False) fresh_server ?y'" by (rule sys_step.connect) simp_all
  have "cycle (hub_abs (y_hub fresh_server)) (hub_abs (y_hub ?y')) \<and> rtranclp cycle (StWaiting, 0) (hub_abs (y_hub ?y'))"
    by (rule server_refines_cycle [OF fresh_server_reachable s]) simp
  moreover have "hub_abs (y_hub fresh_server) = (StWaiting, 0)" by (simp add: hub_abs_def)
  ultimately show ?thesis using s by metis
qed

text \<open>C1: no goroutine panics. In every reachable state of a running server the event at the head
  of the queue, a tick and a shutdown all complete: no nil dereference, no send on a closed
  connection, however joins, flaps, leaves, writes and timeouts interleave.\<close>

theorem server_never_panics:
  assumes "reachable tbl (NewHub cfg store clk rng) y" "y_running y" "h_nextID (y_hub y) \<noteq> - 1"
  shows "(\<forall>ev evs. y_events y = ev # evs \<longrightarrow> dispatch tbl ev (y_hub y) \<noteq> None)
    \<and> tick (y_hub y) \<noteq> None \<and> shutdown (y_hub y) \<noteq> None"
proof -
  note inv = reachable_hub [OF assms(1,2)]
  have "dispatch tbl ev (y_hub y) \<noteq> None" if "y_events y = ev # evs" for ev evs
  proof -
    from inv(2) that have "links_inv (y_hub y) (ev # evs) (y_phase y)" by simp
    from dispatch_ok [OF inv(1) this assms(3), of tbl True] obtain r h' where
      "dispatch tbl ev (y_hub y) = Some (r, h')" by blast
    then show ?thesis by simp
  qed
  then show ?thesis using tick_inv [OF inv(1)] shutdown_total [OF inv(1)] by auto
qed

theorem server_never_panics_witness: "tick (y_hub fresh_server) \<noteq> None"
  using server_never_panics [OF fresh_server_reachable [of "\<lambda>_. False"]] by simp

text \<open>C3: the registry of a running server. The broadcast order lists every player once, different
  players have different names and connections, every player's queue is open, and no queue ever
  holds more than \<^verbatim>\<open>sendQueueLen\<close> frames.\<close>

theorem registry_consistent:
  assumes "reachable tbl (NewHub cfg store clk rng) y" "y_running y"
  defines "h \<equiv> y_hub y"
  shows "distinct (h_order h) \<and> set (h_order h) = fset (h_players h)
    \<and> (\<forall>i. i |\<in>| h_players h \<longrightarrow> (\<exists>s. player h i = Some s \<and> s_ID s = i \<and> fmlookup (h_names h) (s_Name s) = Some i
          \<and> (\<exists>q. fmlookup (h_conns h) (s_conn s) = Some q \<and> \<not> c_closed q)))
    \<and> (\<forall>i j s t. player h i = Some s \<longrightarrow> player h j = Some t \<longrightarrow> s_Name s = s_Name t \<or> s_conn s = s_conn t \<longrightarrow> i = j)
    \<and> (\<forall>c q. fmlookup (h_conns h) c = Some q \<longrightarrow> length (c_send q) \<le> sendQueueLen)"
proof -
  have inv: "hub_inv h" unfolding h_def by (rule reachable_hub(1) [OF assms(1,2)])
  then have reg: "reg_inv h" and ci: "conns_inv (h_conns h)" by (simp_all add: hub_inv_def)
  have "i = j" if p: "player h i = Some s" "player h j = Some t" "s_Name s = s_Name t \<or> s_conn s = s_conn t" for i j s t
  proof -
    have a: "i |\<in>| h_players h" "fmlookup (h_sess h) i = Some s" "j |\<in>| h_players h" "fmlookup (h_sess h) j = Some t"
      using p(1,2) by (auto simp: player_def split: if_splits)
    from p(3) show ?thesis
    proof
      assume "s_Name s = s_Name t"
      then show ?thesis by (rule player_name_inj [OF reg a(1,3,2,4)])
    next
      assume "s_conn s = s_conn t"
      then show ?thesis using reg a unfolding reg_inv_def by blast
    qed
  qed
  moreover have "\<exists>s. player h i = Some s \<and> s_ID s = i \<and> fmlookup (h_names h) (s_Name s) = Some i
      \<and> (\<exists>q. fmlookup (h_conns h) (s_conn s) = Some q \<and> \<not> c_closed q)" if "i |\<in>| h_players h" for i
    using player_Some [OF reg that] by (auto simp: open_conn_def)
  moreover have "distinct (h_order h)" "set (h_order h) = fset (h_players h)" using reg by (simp_all add: reg_inv_def)
  ultimately show ?thesis using ci unfolding conns_inv_def by blast
qed

theorem registry_consistent_witness: "distinct (h_order (y_hub fresh_server))"
  using registry_consistent [OF fresh_server_reachable [of "\<lambda>_. False"]] by simp

text \<open>C4: the race belongs to the players. A waiting hub has no players and no world; a lobby's
  birds are exactly the players, unmoved, in join order; in a running race somebody is still
  flying, every flying bird is a connected player and the time limit is not reached; results are
  shown only to somebody.\<close>

theorem race_matches_players:
  assumes "reachable tbl (NewHub cfg store clk rng) y" "y_running y"
  defines "h \<equiv> y_hub y"
  shows "case h_st h of
      StWaiting \<Rightarrow> h_players h = {||} \<and> h_world h = None
    | StCountdown \<Rightarrow> (\<exists>w. h_world h = Some w \<and> w_Tick w = 0 \<and> w_Order w = h_order h
        \<and> fmdom (w_Birds w) = h_players h \<and> (\<forall>i. i |\<in>| h_players h \<longrightarrow> flying w i) \<and> h_players h \<noteq> {||})
    | StRacing \<Rightarrow> (\<exists>w. h_world h = Some w \<and> world_inv w \<and> w_Tick w < MaxRaceTicks
        \<and> Alive w \<noteq> 0 \<and> (\<forall>i. flying w i \<longrightarrow> i |\<in>| h_players h))
    | StFinished \<Rightarrow> h_players h \<noteq> {||}"
proof -
  have inv: "hub_inv h" unfolding h_def by (rule reachable_hub(1) [OF assms(1,2)])
  then show ?thesis
  proof (cases rule: hub_inv_race_cases)
    case (countdown w ri)
    have "reg_inv h" "world_inv w" using inv countdown(4) by (simp_all add: hub_inv_def race_ok_def)
    then have "fmdom (w_Birds w) = h_players h" using countdown(6) by (rule lobby_dom)
    then show ?thesis using countdown by (simp add: lobby_def)
  next
    case (racing w ri)
    then show ?thesis using Alive_0_iff [of w] by (auto simp: race_ok_def)
  qed simp_all
qed

theorem race_matches_players_witness: "h_world (y_hub fresh_server) = None"
  using race_matches_players [OF fresh_server_reachable [of "\<lambda>_. False"]] by simp

section \<open>Races end\<close>

fun ticks :: "nat \<Rightarrow> Hub \<Rightarrow> Hub option" where
  "ticks 0 h = Some h"
| "ticks (Suc n) h = Option.bind (tick h) (ticks n)"

lemma race_ends_within:
  "hub_inv h \<Longrightarrow> h_st h = StRacing \<Longrightarrow> h_world h = Some w \<Longrightarrow> 7200 - unat (w_Tick w) \<le> n \<Longrightarrow>
   \<exists>k h'. k \<le> n \<and> ticks k h = Some h' \<and> hub_inv h' \<and> h_st h' = StFinished \<and> h_players h' = h_players h"
proof (induction n arbitrary: h w)
  case 0
  from 0(1) have "w_Tick w < MaxRaceTicks"
    using 0(2,3) by (cases rule: hub_inv_race_cases) auto
  then show ?case using 0(4) by (simp add: word_less_nat_alt)
next
  case (Suc n)
  from tick_inv [OF Suc.prems(1)] obtain g where
    g: "tick h = Some g" "hub_inv g" "same_players h g" "ticked h g" by blast
  from g(4) Suc.prems(2,3) obtain w' where
    w': "h_world g = Some w'" "w_Tick w' = w_Tick w + 1" "h_st g = StFinished \<or> h_st g = StRacing"
    by (auto simp: ticked_def split: if_splits)
  have pl: "h_players g = h_players h" using g(3) by (simp add: same_players_def)
  from w'(3) show ?case
  proof
    assume "h_st g = StFinished"
    then have "ticks 1 h = Some g \<and> hub_inv g \<and> h_st g = StFinished" using g by simp
    then show ?thesis using pl by (intro exI [of _ 1] exI [of _ g]) simp
  next
    assume r: "h_st g = StRacing"
    from Suc.prems(1) have "w_Tick w < MaxRaceTicks"
      using Suc.prems(2,3) by (cases rule: hub_inv_race_cases) auto
    then have "unat (w_Tick w') = Suc (unat (w_Tick w))"
      using w'(2) unat_Suc_less [of "w_Tick w" 7200] by (simp add: word_less_nat_alt)
    then have "7200 - unat (w_Tick w') \<le> n" using Suc.prems(4) by simp
    from Suc.IH [OF g(2) r w'(1) this] obtain k h' where
      "k \<le> n" "ticks k g = Some h'" "hub_inv h'" "h_st h' = StFinished" "h_players h' = h_players g" by blast
    then show ?thesis using g(1) pl by (intro exI [of _ "Suc k"] exI [of _ h']) simp
  qed
qed

text \<open>C5: every race ends. From any racing state at most \<^verbatim>\<open>MaxRaceTicks\<close> ticks without a join, flap
  or leave reach the results, with the same players.\<close>

theorem race_ends:
  assumes "reachable tbl (NewHub cfg store clk rng) y" "y_running y" "h_st (y_hub y) = StRacing"
  shows "\<exists>k h'. k \<le> unat MaxRaceTicks \<and> ticks k (y_hub y) = Some h' \<and> h_st h' = StFinished
    \<and> h_players h' = h_players (y_hub y)"
proof -
  have inv: "hub_inv (y_hub y)" by (rule reachable_hub(1) [OF assms(1,2)])
  then obtain w where "h_world (y_hub y) = Some w"
    using assms(3) by (cases rule: hub_inv_race_cases) auto
  from race_ends_within [OF inv assms(3) this, of 7200] show ?thesis by auto
qed

theorem race_ends_witness:
  "\<exists>(y::System) k h'. h_st (y_hub y) = StRacing \<and> k \<le> unat MaxRaceTicks \<and> ticks k (y_hub y) = Some h' \<and> h_st h' = StFinished"
proof -
  obtain y where y: "reachable (\<lambda>_. False) quick_hub y" "y_running y" "h_st (y_hub y) = StRacing"
    using race_reachable by blast
  show ?thesis using race_ends [OF y(1) [unfolded quick_hub_def] y(2,3)] y(3) by blast
qed

section \<open>Players keep their bird\<close>

text \<open>A name has one bird for ever. Any two sessions a server has ever admitted under the same
  name carry the same bird, and the store remembers exactly that bird.\<close>

theorem bird_of_a_name:
  assumes "reachable tbl (NewHub cfg store clk rng) y" "y_running y"
    "fmlookup (h_sess (y_hub y)) i = Some s" "fmlookup (h_sess (y_hub y)) j = Some t" "s_Name s = s_Name t"
  shows "s_Bird s = s_Bird t \<and> LookupBird (s_Name s) (h_store (y_hub y)) = (s_Bird s, True) \<and> bird_valid (s_Bird s)"
proof -
  have "mem_inv (y_hub y)" using reachable_hub(1) [OF assms(1,2)] by (simp add: hub_inv_def)
  then have "LookupBird (s_Name s) (h_store (y_hub y)) = (s_Bird s, True)"
    "LookupBird (s_Name t) (h_store (y_hub y)) = (s_Bird t, True)"
    using assms(3,4) unfolding mem_inv_def by blast+
  then show ?thesis using assms(5) by (auto simp: LookupBird_def Let_def)
qed

theorem bird_of_a_name_witness:
  "\<exists>(y::System) s. fmlookup (h_sess (y_hub y)) 1 = Some s \<and> LookupBird (s_Name s) (h_store (y_hub y)) = (s_Bird s, True)"
proof -
  obtain y s where y: "reachable (\<lambda>_. False) quick_hub y" "y_running y" "fmlookup (h_sess (y_hub y)) 1 = Some s"
    using race_reachable by blast
  show ?thesis using bird_of_a_name [OF y(1) [unfolded quick_hub_def] y(2,3,3) refl] y(3) by blast
qed

section \<open>Names\<close>

text \<open>A name that is taken is made unique by the first free suffix \<open>2, 3, ...\<close>; the loop always
  ends, a free name is kept, and the result is never the name of a connected player.\<close>

theorem unique_name:
  "\<exists>nm. uniqueName h base = Some nm \<and> fm_get 0 (h_names h) nm = 0
    \<and> (fm_get 0 (h_names h) base = 0 \<longrightarrow> nm = base)
    \<and> (nm = base \<or> (\<exists>m\<ge>2. nm = base @ '' '' @ show_nat m))"
proof -
  obtain nm where "uniqueName h base = Some nm" "fm_get 0 (h_names h) nm = 0"
    "nm = base \<or> (\<exists>m\<ge>2. nm = base @ '' '' @ show_nat m)" using uniqueName_total by blast
  then show ?thesis using uniqueName_free [of h base] by (cases "fm_get 0 (h_names h) base = 0") auto
qed

theorem unique_name_witness:
  "\<exists>nm m. uniqueName (quick_hub\<lparr>h_names := fmupd ''ada'' 1 fmempty\<rparr>) ''ada'' = Some nm
     \<and> m \<ge> 2 \<and> nm = ''ada'' @ '' '' @ show_nat m"
  using unique_name [of "quick_hub\<lparr>h_names := fmupd ''ada'' 1 fmempty\<rparr>" "''ada''"]
  by (auto simp: fm_get_def)

end
