(* ===== verification/Tool_Cache.thy ===== *)
theory Tool_Cache
  imports Go_Http
begin

text \<open>
  \<^verbatim>\<open>llamastack-proxy/main.go\<close>, the tool cache: the groups and tools fetched from LlamaStack, the
  keyword index, the selection of groups for a request and the conversion of tools to OpenAI's
  format. JSON values are decoded data; a reply of the service is the value it decodes to or the
  error, and the service itself is a parameter. Map ranges visit keys in ascending order here;
  the results below do not depend on it.
\<close>

section \<open>Data\<close>

record ToolGroupInfo =
  tg_Identifier :: string
  tg_ProviderID :: string
  tg_ProviderResourceID :: string
  tg_Type :: string

record ToolParameter =
  tp_Name :: string
  tp_ParameterType :: string
  tp_Description :: string
  tp_Required :: bool
  tp_Default :: json

record InputSchema =
  is_Type :: string
  is_Properties :: "(string, json) fmap"
  is_Required :: "string list"

record LlamaStackTool =
  lt_Name :: string
  lt_ToolGroupID :: string
  lt_Description :: string
  lt_InputSchema :: "InputSchema option"
  lt_Metadata :: json
  lt_Identifier :: string
  lt_ProviderResourceID :: "string option"
  lt_ProviderID :: string
  lt_Type :: string
  lt_Parameters :: "ToolParameter list"

record OpenAIToolParameter =
  op_Type :: string
  op_Description :: string
  op_Enum :: "string list"

record OpenAIToolParameters =
  os_Type :: string
  os_Properties :: "(string, OpenAIToolParameter) fmap"
  os_Required :: "string list"

record OpenAIFunction =
  of_Name :: string
  of_Description :: string
  of_Parameters :: OpenAIToolParameters

record OpenAITool =
  ot_Type :: string
  ot_Function :: OpenAIFunction

text \<open>Times in nanoseconds; the zero time, long past, is \<^term>\<open>None\<close>.\<close>

record ToolCache =
  tc_toolGroups :: "ToolGroupInfo list"
  tc_toolsByGroup :: "(string, LlamaStackTool list) fmap"
  tc_allTools :: "LlamaStackTool list"
  tc_toolToGroup :: "(string, string) fmap"
  tc_lastRefresh :: "int option"
  tc_enableSmartFilter :: bool
  tc_explicitGroups :: "string list"
  tc_blacklistedTools :: "string list"
  tc_groupKeywords :: "(string, string list) fmap"

definition cacheRefreshInterval :: int where [simp]: "cacheRefreshInterval = 5 * 60 * 10 ^ 9"

text \<open>\<^verbatim>\<open>init\<close>: the environment variables, empty when unset.\<close>

definition split_names :: "string \<Rightarrow> string list" where
  "split_names s = (if s = [] then [] else map trim_space (str_split (CHR '','') s))"

definition init_cache :: "string \<Rightarrow> string \<Rightarrow> string \<Rightarrow> ToolCache" where
  "init_cache smart filter_groups blacklist = \<lparr>tc_toolGroups = [], tc_toolsByGroup = fmempty, tc_allTools = [],
     tc_toolToGroup = fmempty, tc_lastRefresh = None, tc_enableSmartFilter = (smart = ''true''),
     tc_explicitGroups = split_names filter_groups, tc_blacklistedTools = split_names blacklist,
     tc_groupKeywords = fmempty\<rparr>"

definition truncateString :: "string \<Rightarrow> int \<Rightarrow> string option" where
  "truncateString s maxLen = (if int (length s) \<le> maxLen then Some s
     else if maxLen < 0 then None else Some (take (nat maxLen) s @ ''...''))"

section \<open>Keywords\<close>

definition stopWords :: "string list" where
  "stopWords = [''the'', ''a'', ''an'', ''and'', ''or'', ''but'', ''in'', ''on'', ''at'', ''to'', ''for'', ''of'',
     ''with'', ''by'', ''from'', ''as'', ''is'', ''was'', ''are'', ''were'', ''be'', ''been'', ''being'',
     ''have'', ''has'', ''had'', ''do'', ''does'', ''did'', ''will'', ''would'', ''could'', ''should'', ''may'',
     ''might'', ''must'', ''can'', ''this'', ''that'', ''these'', ''those'', ''i'', ''you'', ''he'', ''she'',
     ''it'', ''we'', ''they'', ''what'', ''which'', ''who'', ''when'', ''where'', ''why'', ''how'', ''all'', ''each'',
     ''every'', ''both'', ''few'', ''more'', ''most'', ''other'', ''some'', ''such'', ''no'', ''nor'', ''not'', ''only'',
     ''own'', ''same'', ''so'', ''than'', ''too'', ''very'', ''use'', ''using'', ''used'', ''tool'', ''tools'']"

definition word_sep :: "nat \<Rightarrow> bool" where
  "word_sep r \<longleftrightarrow> \<not> (97 \<le> r \<and> r \<le> 122 \<or> 48 \<le> r \<and> r \<le> 57 \<or> r = 95)"

definition split_words :: "string \<Rightarrow> string list" where
  "split_words txt = map of_runes (fields_func word_sep (lower_runes txt))"

fun keep_words :: "string list \<Rightarrow> string list \<Rightarrow> string fset \<Rightarrow> string list" where
  "keep_words [] keywords seen = keywords"
| "keep_words (w # ws) keywords seen =
     (if length w < 3 \<or> w \<in> set stopWords \<or> w |\<in>| seen then keep_words ws keywords seen
      else keep_words ws (keywords @ [w]) (finsert w seen))"

definition extractKeywords :: "string \<Rightarrow> string list" where
  "extractKeywords txt = keep_words (split_words txt) [] {||}"

section \<open>Refreshing\<close>

definition refreshToolGroups :: "string \<Rightarrow> (string \<Rightarrow> ToolGroupInfo list reply) \<Rightarrow> ToolCache \<Rightarrow> (string + unit) \<times> ToolCache" where
  "refreshToolGroups url get tc = (case get (url @ ''/v1/toolgroups'') of
       NoReply err \<Rightarrow> (Inl (''HTTP request failed: '' @ err), tc)
     | Reply status body _ val \<Rightarrow>
         if status \<noteq> 200 then (Inl (''status '' @ show_int status @ '': '' @ body), tc)
         else (case val of
             Inl err \<Rightarrow> (Inl (''failed to decode response: '' @ err), tc)
           | Inr groups \<Rightarrow> (Inr (), tc\<lparr>tc_toolGroups := groups\<rparr>)))"

definition not_blacklisted :: "string list \<Rightarrow> LlamaStackTool list \<Rightarrow> LlamaStackTool list" where
  "not_blacklisted bl tools = filter (\<lambda>t. \<not> list_ex (\<lambda>b. lt_Name t = b) bl) tools"

text \<open>One group: a failed request or an undecodable reply skips it.\<close>

definition refresh_group :: "string \<Rightarrow> (string \<Rightarrow> LlamaStackTool list reply) \<Rightarrow> ToolGroupInfo \<Rightarrow>
    LlamaStackTool list \<times> ToolCache \<Rightarrow> LlamaStackTool list \<times> ToolCache" where
  "refresh_group url get g = (\<lambda>(all, tc).
     case get (url @ ''/v1/tools?toolgroup_id='' @ tg_Identifier g) of
       NoReply err \<Rightarrow> (all, tc)
     | Reply status body _ val \<Rightarrow> (case val of
         Inl err \<Rightarrow> (all, tc)
       | Inr tools \<Rightarrow>
           (let kept = not_blacklisted (tc_blacklistedTools tc) tools in
            (all @ kept,
             tc\<lparr>tc_toolsByGroup := fmupd (tg_Identifier g) kept (tc_toolsByGroup tc),
                tc_toolToGroup := fold (\<lambda>t. fmupd (lt_Name t) (tg_Identifier g)) kept (tc_toolToGroup tc)\<rparr>))))"

definition refreshAllTools :: "string \<Rightarrow> (string \<Rightarrow> LlamaStackTool list reply) \<Rightarrow> int \<Rightarrow> ToolCache \<Rightarrow> ToolCache" where
  "refreshAllTools url get now tc =
     (let tc = tc\<lparr>tc_toolsByGroup := fmempty\<rparr>;
          (all, tc) = fold (refresh_group url get) (tc_toolGroups tc) ([], tc)
      in tc\<lparr>tc_allTools := all, tc_lastRefresh := Some now\<rparr>)"

definition tool_text :: "LlamaStackTool \<Rightarrow> string list" where
  "tool_text t = [lt_Name t, lt_Description t] @ (case lt_InputSchema t of
       None \<Rightarrow> [] | Some s \<Rightarrow> map fst (sorted_list_of_fmap (is_Properties s)))"

definition group_keywords :: "string \<Rightarrow> LlamaStackTool list \<Rightarrow> string list" where
  "group_keywords gid tools = extractKeywords (str_join (gid # concat (map tool_text tools)) '' '')"

definition buildKeywordIndex :: "ToolCache \<Rightarrow> ToolCache" where
  "buildKeywordIndex tc = tc\<lparr>tc_groupKeywords := fmmap_keys group_keywords (tc_toolsByGroup tc)\<rparr>"

definition needsRefresh :: "int \<Rightarrow> ToolCache \<Rightarrow> bool" where
  "needsRefresh now tc = (case tc_lastRefresh tc of None \<Rightarrow> True | Some t \<Rightarrow> now - t > cacheRefreshInterval)"

record service =
  sv_url :: string
  sv_groups :: "string \<Rightarrow> ToolGroupInfo list reply"
  sv_tools :: "string \<Rightarrow> LlamaStackTool list reply"

definition refreshIfNeeded :: "service \<Rightarrow> int \<Rightarrow> ToolCache \<Rightarrow> ToolCache" where
  "refreshIfNeeded sv now tc =
     (if needsRefresh now tc
      then (case refreshToolGroups (sv_url sv) (sv_groups sv) tc of
          (Inl _, tc) \<Rightarrow> tc
        | (Inr _, tc) \<Rightarrow> buildKeywordIndex (refreshAllTools (sv_url sv) (sv_tools sv) now tc))
      else tc)"

definition initializeToolCache :: "service \<Rightarrow> int \<Rightarrow> ToolCache \<Rightarrow> (string + unit) \<times> ToolCache" where
  "initializeToolCache sv now tc =
     (case refreshToolGroups (sv_url sv) (sv_groups sv) tc of
        (Inl err, tc) \<Rightarrow> (Inl (''failed to fetch tool groups: '' @ err), tc)
      | (Inr _, tc) \<Rightarrow> (Inr (), buildKeywordIndex (refreshAllTools (sv_url sv) (sv_tools sv) now tc)))"

section \<open>Selecting groups\<close>

definition pair_score :: "string \<Rightarrow> string \<Rightarrow> int" where
  "pair_score u g = (if u = g then 10 else if str_contains u g \<or> str_contains g u then 5 else 0)"

definition scoreToolGroupRelevance :: "ToolCache \<Rightarrow> string \<Rightarrow> string \<Rightarrow> int" where
  "scoreToolGroupRelevance tc userMessage groupID =
     (let user = extractKeywords userMessage in
      if user = [] then 0
      else (case fmlookup (tc_groupKeywords tc) groupID of
          None \<Rightarrow> 0
        | Some gk \<Rightarrow> if gk = [] then 0
            else fold (\<lambda>u. fold (\<lambda>g score. score + pair_score u g) gk) user 0))"

text \<open>The sort by exchange, indices as in the code.\<close>

definition swap :: "nat \<Rightarrow> nat \<Rightarrow> 'a list \<Rightarrow> 'a list" where
  "swap i j xs = xs[i := xs ! j, j := xs ! i]"

function inner_sort :: "nat \<Rightarrow> nat \<Rightarrow> (string \<times> int) list \<Rightarrow> (string \<times> int) list" where
  "inner_sort i j xs = (if j < length xs
     then inner_sort i (Suc j) (if snd (xs ! j) > snd (xs ! i) then swap i j xs else xs) else xs)"
  by auto
termination by (relation "measure (\<lambda>(i, j, xs). length xs - j)") (auto simp: swap_def)

declare inner_sort.simps [simp del]

lemma length_inner_sort [simp]: "length (inner_sort i j xs) = length xs"
proof (induction i j xs rule: inner_sort.induct)
  case (1 i j xs)
  then show ?case by (subst inner_sort.simps) (auto simp: swap_def)
qed

function outer_sort :: "nat \<Rightarrow> (string \<times> int) list \<Rightarrow> (string \<times> int) list" where
  "outer_sort i xs = (if i < length xs then outer_sort (Suc i) (inner_sort i (Suc i) xs) else xs)"
  by auto
termination by (relation "measure (\<lambda>(i, xs). length xs - i)") auto

declare outer_sort.simps [simp del]

definition selectRelevantToolGroups :: "ToolCache \<Rightarrow> string \<Rightarrow> string list" where
  "selectRelevantToolGroups tc userMessage =
     (if tc_explicitGroups tc \<noteq> [] then tc_explicitGroups tc
      else if \<not> tc_enableSmartFilter tc then map tg_Identifier (tc_toolGroups tc)
      else (let
          scores = map (\<lambda>g. (tg_Identifier g, scoreToolGroupRelevance tc userMessage (tg_Identifier g))) (tc_toolGroups tc);
          scores = outer_sort 0 scores;
          selected = map fst (filter (\<lambda>gs. snd gs > 0) scores);
          selected = (if selected = [] \<and> scores \<noteq> [] then [fst (hd scores)] else selected)
        in if selected = [] then map tg_Identifier (tc_toolGroups tc) else selected))"

definition getToolsForGroups :: "ToolCache \<Rightarrow> string list \<Rightarrow> LlamaStackTool list" where
  "getToolsForGroups tc groupIDs =
     concat (map (\<lambda>g. case fmlookup (tc_toolsByGroup tc) g of None \<Rightarrow> [] | Some ts \<Rightarrow> ts) groupIDs)"

section \<open>OpenAI's format\<close>

definition mapParameterType :: "string \<Rightarrow> string" where
  "mapParameterType ty = (let t = to_lower ty in
     if t \<in> {''string'', ''str''} then ''string''
     else if t \<in> {''integer'', ''int''} then ''integer''
     else if t \<in> {''number'', ''float''} then ''number''
     else if t \<in> {''boolean'', ''bool''} then ''boolean''
     else if t \<in> {''array'', ''list''} then ''array''
     else if t \<in> {''object'', ''dict''} then ''object''
     else ''string'')"

definition json_strings :: "json list \<Rightarrow> string list" where
  "json_strings js = List.map_filter (\<lambda>j. case j of JStr s \<Rightarrow> Some s | _ \<Rightarrow> None) js"

definition schema_param :: "json \<Rightarrow> OpenAIToolParameter option" where
  "schema_param j = (case j of
       JObj m \<Rightarrow> Some
         \<lparr>op_Type = (case fmlookup m ''type'' of Some (JStr s) \<Rightarrow> s | _ \<Rightarrow> ''string''),
          op_Description = (case fmlookup m ''description'' of Some (JStr s) \<Rightarrow> s | _ \<Rightarrow> []),
          op_Enum = (case fmlookup m ''enum'' of Some (JArr es) \<Rightarrow> json_strings es | _ \<Rightarrow> [])\<rparr>
     | _ \<Rightarrow> None)"

definition schema_properties :: "(string, json) fmap \<Rightarrow> (string, OpenAIToolParameter) fmap" where
  "schema_properties m = fold (\<lambda>(k, v) props. case schema_param v of None \<Rightarrow> props | Some p \<Rightarrow> fmupd k p props)
     (sorted_list_of_fmap m) fmempty"

definition legacy_param :: "ToolParameter \<Rightarrow> OpenAIToolParameter" where
  "legacy_param p = \<lparr>op_Type = mapParameterType (tp_ParameterType p), op_Description = tp_Description p, op_Enum = []\<rparr>"

definition tool_name :: "LlamaStackTool \<Rightarrow> string" where
  "tool_name t = (if lt_Name t = [] then lt_Identifier t else lt_Name t)"

definition convert_tool :: "LlamaStackTool \<Rightarrow> OpenAITool" where
  "convert_tool t = (let (props, req) = (case lt_InputSchema t of
         Some s \<Rightarrow> (schema_properties (is_Properties s), is_Required s)
       | None \<Rightarrow> (fold (\<lambda>p. fmupd (tp_Name p) (legacy_param p)) (lt_Parameters t) fmempty,
                  map tp_Name (filter tp_Required (lt_Parameters t))))
     in \<lparr>ot_Type = ''function'', ot_Function = \<lparr>of_Name = tool_name t, of_Description = lt_Description t,
          of_Parameters = \<lparr>os_Type = ''object'', os_Properties = props, os_Required = req\<rparr>\<rparr>\<rparr>)"

definition convertToOpenAITools :: "LlamaStackTool list \<Rightarrow> OpenAITool list" where
  "convertToOpenAITools tools = map convert_tool tools"

definition getToolsForRequest :: "service \<Rightarrow> int \<Rightarrow> string \<Rightarrow> ToolCache \<Rightarrow> OpenAITool list \<times> ToolCache" where
  "getToolsForRequest sv now userMessage tc =
     (let tc = refreshIfNeeded sv now tc
      in (convertToOpenAITools (getToolsForGroups tc (selectRelevantToolGroups tc userMessage)), tc))"

end
