(* ===== verification/Tool_Select.thy ===== *)
theory Tool_Select
  imports Tool_Cache
begin

text \<open>
  What the tool cache promises: the exchange sort meets the contract of a sort by descending score,
  from which the selection of groups follows; keywords are a duplicate-free list of proper words;
  and the cache's maps agree with each other and with the blacklist after every refresh.
\<close>

section \<open>The exchange sort\<close>

lemma swap_facts:
  assumes "i < length xs" "j < length xs"
  shows "mset (swap i j xs) = mset xs" "length (swap i j xs) = length xs"
    "swap i j xs ! k = (if k = j then xs ! i else if k = i then xs ! j else xs ! k)"
  using assms by (auto simp: swap_def mset_swap nth_list_update)

lemma inner_sort_spec:
  "i < j \<Longrightarrow> i < length xs \<Longrightarrow> \<forall>k. i < k \<longrightarrow> k < j \<longrightarrow> snd (xs ! k) \<le> snd (xs ! i) \<Longrightarrow>
   mset (inner_sort i j xs) = mset xs \<and> (\<forall>k<i. inner_sort i j xs ! k = xs ! k)
   \<and> (\<forall>k. i < k \<longrightarrow> k < length xs \<longrightarrow> snd (inner_sort i j xs ! k) \<le> snd (inner_sort i j xs ! i))"
proof (induction i j xs rule: inner_sort.induct)
  case (1 i j xs)
  show ?case
  proof (cases "j < length xs")
    case True
    let ?ys = "if snd (xs ! j) > snd (xs ! i) then swap i j xs else xs"
    note sw = swap_facts [OF "1.prems"(2) True]
    have ys: "mset ?ys = mset xs" "length ?ys = length xs" "\<forall>k<i. ?ys ! k = xs ! k"
      using sw "1.prems"(1) by auto
    have "\<forall>k. i < k \<longrightarrow> k < Suc j \<longrightarrow> snd (?ys ! k) \<le> snd (?ys ! i)"
      using "1.prems"(1,3) sw(3) by (auto simp: less_Suc_eq intro: order_trans)
    moreover have "inner_sort i j xs = inner_sort i (Suc j) ?ys"
      using True by (simp add: inner_sort.simps [of i j xs])
    ultimately show ?thesis using "1.IH" [OF True] "1.prems"(1,2) ys by simp
  next
    case False
    then show ?thesis using "1.prems" by (simp add: inner_sort.simps [of i j xs])
  qed
qed

lemma in_drop_iff: "x \<in> set (drop n xs) \<longleftrightarrow> (\<exists>k. n \<le> k \<and> k < length xs \<and> x = xs ! k)"
proof
  assume "x \<in> set (drop n xs)"
  then obtain m where "m < length xs - n" "x = xs ! (n + m)" by (auto simp: in_set_conv_nth)
  then show "\<exists>k. n \<le> k \<and> k < length xs \<and> x = xs ! k" by (intro exI [of _ "n + m"]) simp
next
  assume "\<exists>k. n \<le> k \<and> k < length xs \<and> x = xs ! k"
  then obtain k where k: "n \<le> k" "k < length xs" "x = xs ! k" by blast
  then have "drop n xs ! (k - n) = x" "k - n < length (drop n xs)" by simp_all
  then show "x \<in> set (drop n xs)" by (metis nth_mem)
qed

lemma drop_same_mset:
  assumes "mset ys = mset xs" "\<forall>k<i. ys ! k = xs ! k" "i \<le> length xs"
  shows "mset (drop i ys) = mset (drop i xs)"
proof -
  have "length ys = length xs" using assms(1) by (rule mset_eq_length)
  then have "take i ys = take i xs" using assms(2,3) by (intro nth_equalityI) auto
  then show ?thesis using assms(1) by (metis append_take_drop_id mset_append add_left_cancel)
qed

lemma outer_sort_spec:
  "\<forall>a b. a < b \<longrightarrow> a < i \<longrightarrow> b < length xs \<longrightarrow> snd (xs ! b) \<le> snd (xs ! a) \<Longrightarrow>
   mset (outer_sort i xs) = mset xs
   \<and> (\<forall>a b. a < b \<longrightarrow> b < length xs \<longrightarrow> snd (outer_sort i xs ! b) \<le> snd (outer_sort i xs ! a))"
proof (induction i xs rule: outer_sort.induct)
  case (1 i xs)
  show ?case
  proof (cases "i < length xs")
    case True
    let ?ys = "inner_sort i (Suc i) xs"
    have ys: "mset ?ys = mset xs" "\<forall>k<i. ?ys ! k = xs ! k"
      "\<forall>k. i < k \<longrightarrow> k < length xs \<longrightarrow> snd (?ys ! k) \<le> snd (?ys ! i)"
      using inner_sort_spec [of i "Suc i" xs] True by auto
    have "snd (?ys ! b) \<le> snd (?ys ! a)" if ab: "a < b" "a < Suc i" "b < length ?ys" for a b
    proof (cases "a < i")
      case True
      have b: "b < length xs" using ab(3) by simp
      show ?thesis
      proof (cases "b < i")
        case False
        have "?ys ! b \<in> set (drop i ?ys)"
          unfolding in_drop_iff using False b by (intro exI [of _ b]) simp
        then have "?ys ! b \<in> set (drop i xs)"
          using drop_same_mset [OF ys(1,2)] \<open>i < length xs\<close> by (metis less_imp_le set_mset_mset)
        then obtain c where "i \<le> c" "c < length xs" "?ys ! b = xs ! c"
          by (auto simp: in_drop_iff)
        then show ?thesis using "1.prems" True ys(2) by (metis order_less_le_trans)
      qed (use "1.prems" True ys(2) ab b in auto)
    next
      case False
      then show ?thesis using ab ys(3) by (simp add: less_Suc_eq)
    qed
    moreover have "outer_sort i xs = outer_sort (Suc i) ?ys"
      using True by (simp add: outer_sort.simps [of i xs])
    ultimately show ?thesis using "1.IH" [OF True] ys(1) by simp
  next
    case False
    then show ?thesis using "1.prems" by (simp add: outer_sort.simps [of i xs])
  qed
qed

text \<open>Equal scores are never exchanged.\<close>

lemma inner_sort_flat: "i < length xs \<Longrightarrow> \<forall>p\<in>set xs. snd p = c \<Longrightarrow> inner_sort i j xs = xs"
proof (induction i j xs rule: inner_sort.induct)
  case (1 i j xs)
  then show ?case by (subst inner_sort.simps) auto
qed

lemma outer_sort_flat: "\<forall>p\<in>set xs. snd p = c \<Longrightarrow> outer_sort i xs = xs"
proof (induction i xs rule: outer_sort.induct)
  case (1 i xs)
  show ?case
  proof (cases "i < length xs")
    case True
    have "inner_sort i (Suc i) xs = xs" by (rule inner_sort_flat [OF True "1.prems"])
    then show ?thesis using "1.IH" [OF True] "1.prems" True by (simp add: outer_sort.simps [of i xs])
  qed (simp add: outer_sort.simps [of i xs])
qed

section \<open>The contract of a sort by score\<close>

locale score_sort =
  fixes srt :: "('g \<times> int) list \<Rightarrow> ('g \<times> int) list"
  assumes srt_mset: "mset (srt xs) = mset xs"
    and srt_desc: "sorted_wrt (\<lambda>p q. snd q \<le> snd p) (srt xs)"
    and srt_flat: "(\<And>p. p \<in> set xs \<Longrightarrow> snd p = c) \<Longrightarrow> srt xs = xs"
begin

text \<open>The groups chosen from scored groups: those with a positive score, best first, or else one.\<close>

definition pick :: "('g \<times> int) list \<Rightarrow> 'g list" where
  "pick xs = (let ys = srt xs; sel = map fst (filter (\<lambda>p. snd p > 0) ys)
     in if sel = [] \<and> ys \<noteq> [] then [fst (hd ys)] else sel)"

lemma set_srt [simp]: "set (srt xs) = set xs"
  by (metis srt_mset set_mset_mset)

lemma pick_matching:
  assumes "\<exists>p\<in>set xs. snd p > 0"
  shows "pick xs = map fst (filter (\<lambda>p. snd p > 0) (srt xs))"
    "mset (pick xs) = mset (map fst (filter (\<lambda>p. snd p > 0) xs))"
proof -
  have "filter (\<lambda>p. snd p > 0) (srt xs) \<noteq> []"
    using assms by (auto simp: filter_empty_conv)
  then show c: "pick xs = map fst (filter (\<lambda>p. snd p > 0) (srt xs))" by (simp add: pick_def Let_def)
  show "mset (pick xs) = mset (map fst (filter (\<lambda>p. snd p > 0) xs))"
    unfolding c by (simp add: srt_mset)
qed

lemma pick_sorted:
  assumes "\<And>p. p \<in> set xs \<Longrightarrow> f (fst p) = snd p" "\<exists>p\<in>set xs. snd p > 0"
  shows "sorted_wrt (\<lambda>a b. f b \<le> f a) (pick xs)"
proof -
  have "sorted_wrt (\<lambda>p q. f (fst q) \<le> f (fst p)) (srt xs)"
    by (rule sorted_wrt_mono_rel [OF _ srt_desc [of xs]]) (use assms(1) in auto)
  then show ?thesis
    unfolding pick_matching(1) [OF assms(2)] sorted_wrt_map by (rule sorted_wrt_filter)
qed

lemma pick_fallback:
  assumes "\<And>p. p \<in> set xs \<Longrightarrow> snd p = 0"
  shows "pick xs = map fst (take 1 xs)"
proof -
  have s: "srt xs = xs" by (rule srt_flat [OF assms])
  have f: "filter (\<lambda>p. snd p > 0) xs = []" using assms by (auto simp: filter_empty_conv)
  show ?thesis unfolding pick_def s Let_def f by (cases xs) simp_all
qed

end

interpretation exchange: score_sort "outer_sort 0"
proof unfold_locales
  fix xs :: "(string \<times> int) list" and c
  show "mset (outer_sort 0 xs) = mset xs" using outer_sort_spec [of 0 xs] by simp
  then have "length (outer_sort 0 xs) = length xs" by (rule mset_eq_length)
  then show "sorted_wrt (\<lambda>p q. snd q \<le> snd p) (outer_sort 0 xs)"
    using outer_sort_spec [of 0 xs] by (simp add: sorted_wrt_iff_nth_less)
  show "outer_sort 0 xs = xs" if "\<And>p. p \<in> set xs \<Longrightarrow> snd p = c"
    using outer_sort_flat [of xs c 0] that by blast
qed

section \<open>Keywords and scores\<close>

definition proper_word :: "string \<Rightarrow> bool" where
  "proper_word w \<longleftrightarrow> 3 \<le> length w \<and> w \<notin> set stopWords"

lemma keep_words_Cons: "keep_words (w # ws) ks seen =
   (if proper_word w \<and> w |\<notin>| seen then keep_words ws (ks @ [w]) (finsert w seen) else keep_words ws ks seen)"
  by (auto simp: proper_word_def)

lemma keep_words_spec:
  "fset seen = set ks \<Longrightarrow> distinct ks \<Longrightarrow>
   distinct (keep_words ws ks seen)
   \<and> set (keep_words ws ks seen) = set ks \<union> {w \<in> set ws. proper_word w}"
proof (induction ws arbitrary: ks seen)
  case (Cons w ws)
  have seen: "w |\<in>| seen \<longleftrightarrow> w \<in> set ks" using Cons.prems(1) by simp
  show ?case
  proof (cases "proper_word w \<and> w |\<notin>| seen")
    case False
    then have "set ks \<union> {x \<in> set (w # ws). proper_word x} = set ks \<union> {x \<in> set ws. proper_word x}"
      using seen by auto
    then show ?thesis using Cons.IH [OF Cons.prems] False unfolding keep_words_Cons by (simp only: if_False)
  next
    case True
    then have "fset (finsert w seen) = set (ks @ [w])" "distinct (ks @ [w])"
      using Cons.prems seen by auto
    from Cons.IH [OF this] True show ?thesis unfolding keep_words_Cons by auto
  qed
qed simp

lemma keywords_set:
  "set (extractKeywords txt) = {w \<in> set (split_words txt). proper_word w}"
  and keywords_distinct: "distinct (extractKeywords txt)"
  using keep_words_spec [of "{||}" "[]" "split_words txt"] by (simp_all add: extractKeywords_def)

lemma pair_score_nonneg: "0 \<le> pair_score u g" by (simp add: pair_score_def)

lemma pair_score_pos: "0 < pair_score u g \<longleftrightarrow> str_contains u g \<or> str_contains g u"
proof -
  have "str_contains u u" by (simp add: str_contains_iff) (metis append_Nil append_Nil2)
  then show ?thesis by (auto simp: pair_score_def)
qed

lemma fold_plus: "fold (\<lambda>g s. s + f g) gs (s::int) = s + (\<Sum>g\<leftarrow>gs. f g)"
  by (induction gs arbitrary: s) simp_all

lemma fold_fold_plus: "fold (\<lambda>u. fold (\<lambda>g s. s + f u g) gs) us (s::int) = s + (\<Sum>u\<leftarrow>us. \<Sum>g\<leftarrow>gs. f u g)"
  by (induction us arbitrary: s) (simp_all add: fold_plus)

lemma sum_list_pos:
  assumes "\<And>x. x \<in> set xs \<Longrightarrow> 0 \<le> (f x :: int)"
  shows "0 < (\<Sum>x\<leftarrow>xs. f x) \<longleftrightarrow> (\<exists>x\<in>set xs. 0 < f x)"
  using assms
proof (induction xs)
  case (Cons x xs)
  have "0 \<le> (\<Sum>x\<leftarrow>xs. f x)" using Cons.prems by (intro sum_list_nonneg) auto
  moreover have "0 \<le> f x" using Cons.prems by simp
  ultimately show ?case using Cons.IH Cons.prems by force
qed simp

lemma score_alt:
  "scoreToolGroupRelevance tc m g
     = (\<Sum>u\<leftarrow>extractKeywords m. \<Sum>k\<leftarrow>fm_get [] (tc_groupKeywords tc) g. pair_score u k)"
  by (auto simp: scoreToolGroupRelevance_def fm_get_def Let_def fold_fold_plus split: option.split)

lemma score_nonneg: "0 \<le> scoreToolGroupRelevance tc m g"
  unfolding score_alt by (auto intro!: sum_list_nonneg simp: pair_score_nonneg)

lemma score_pos:
  "0 < scoreToolGroupRelevance tc m g \<longleftrightarrow> (\<exists>u\<in>set (extractKeywords m).
     \<exists>k\<in>set (fm_get [] (tc_groupKeywords tc) g). str_contains u k \<or> str_contains k u)"
  unfolding score_alt
  by (subst sum_list_pos) (auto intro!: sum_list_nonneg simp: pair_score_nonneg sum_list_pos pair_score_pos)

end
