(* ===== verification/Llama_Proxy.thy ===== *)
theory Llama_Proxy
  imports Tool_Cache
begin

text \<open>
  \<^verbatim>\<open>llamastack-proxy/main.go\<close>, the handlers: chat completion with server-side tool execution, the
  pass-through proxies, the model list and the cache endpoints. The service behind the proxy is a
  parameter that may answer every request differently: a stream of replies consumed one by one,
  and the requests sent to it are recorded in order. Reading and decoding outcomes are part of the
  replies; tracing and logging are not modelled.
\<close>

section \<open>Messages\<close>

record FunctionCall =
  fc_Name :: string
  fc_Arguments :: string

record ToolCall =
  tl_ID :: string
  tl_Type :: string
  tl_Function :: FunctionCall

record ChatMessage =
  cm_Role :: string
  cm_Content :: string
  cm_ToolCalls :: "ToolCall list"
  cm_ToolCallID :: string
  cm_Name :: string

record ChatCompletionRequest =
  cr_Model :: string
  cr_Messages :: "ChatMessage list"
  cr_Tools :: "OpenAITool list"
  cr_ToolChoice :: json
  cr_Temperature :: real
  cr_Stream :: bool

record Choice =
  ch_Index :: int
  ch_Message :: ChatMessage
  ch_FinishReason :: string

record Usage =
  us_PromptTokens :: int
  us_CompletionTokens :: int
  us_TotalTokens :: int

record ChatCompletionResponse =
  cc_ID :: string
  cc_Object :: string
  cc_Created :: int
  cc_Model :: string
  cc_Choices :: "Choice list"
  cc_Usage :: Usage

record ToolInvocationRequest =
  ti_ToolName :: string
  ti_ToolGroupID :: string
  ti_Kwargs :: "(string, json) fmap"

record ToolInvocationResult =
  tr_Content :: json
  tr_ErrorMessage :: "string option"
  tr_ErrorCode :: json

record OpenAIModel =
  om_ID :: string
  om_Object :: string
  om_Created :: int
  om_OwnedBy :: string

section \<open>The world around a handler\<close>

text \<open>Requests sent to LlamaStack, and the state of the process a handler runs in.\<close>

datatype outgoing = Forward ChatCompletionRequest | Invoke ToolInvocationRequest

record proxy =
  px_service :: service
  px_chat :: "nat \<Rightarrow> ChatCompletionRequest \<Rightarrow> ChatCompletionResponse reply"
  px_invoke :: "nat \<Rightarrow> ToolInvocationRequest \<Rightarrow> ToolInvocationResult reply"
  px_args :: "string \<Rightarrow> string + (string, json) fmap"
  px_marshal :: "json \<Rightarrow> string"
  px_now :: int
  px_cache :: ToolCache
  px_sent :: "outgoing list"

section \<open>Calls to LlamaStack\<close>

definition send :: "outgoing \<Rightarrow> proxy \<Rightarrow> proxy" where
  "send out p = p\<lparr>px_sent := px_sent p @ [out]\<rparr>"

definition forwardToLlamaStack :: "ChatCompletionRequest \<Rightarrow> proxy \<Rightarrow> (string + ChatCompletionResponse) \<times> proxy" where
  "forwardToLlamaStack req p =
     (case px_chat p (length (px_sent p)) req of
        NoReply err \<Rightarrow> (Inl (''failed to forward request: '' @ err), send (Forward req) p)
      | Reply status body _ val \<Rightarrow>
          (if status \<noteq> 200
           then Inl (''LlamaStack returned status '' @ show_int status @ '': '' @ body)
           else (case val of
               Inl err \<Rightarrow> Inl (''failed to decode response: '' @ err)
             | Inr resp \<Rightarrow> Inr resp),
           send (Forward req) p))"

definition invocation_result :: "(json \<Rightarrow> string) \<Rightarrow> ToolInvocationResult reply \<Rightarrow> string + string" where
  "invocation_result marshal r = (case r of
       NoReply err \<Rightarrow> Inl (''failed to invoke tool: '' @ err)
     | Reply status body read_err val \<Rightarrow>
         if status \<noteq> 200
         then Inl (''tool invocation failed with status '' @ show_int status @ '': '' @ body)
         else (case read_err of
             Some err \<Rightarrow> Inl (''failed to read tool response: '' @ err)
           | None \<Rightarrow> (case val of
               Inl err \<Rightarrow> Inl (''failed to decode tool result: '' @ err)
             | Inr res \<Rightarrow> (case tr_ErrorMessage res of
                   Some msg \<Rightarrow> Inl (''tool error: '' @ msg)
                 | None \<Rightarrow> Inr (marshal (tr_Content res))))))"

definition executeToolCall :: "ToolCall \<Rightarrow> proxy \<Rightarrow> (string + string) \<times> proxy" where
  "executeToolCall tc p =
     (let name = fc_Name (tl_Function tc) in
      case px_args p (fc_Arguments (tl_Function tc)) of
        Inl err \<Rightarrow> (Inl (''failed to parse tool arguments: '' @ err), p)
      | Inr args \<Rightarrow> (case fmlookup (tc_toolToGroup (px_cache p)) name of
            None \<Rightarrow> (Inl (''tool '' @ name @ '' not found in cache''), p)
          | Some gid \<Rightarrow>
              (let req = \<lparr>ti_ToolName = name, ti_ToolGroupID = gid, ti_Kwargs = args\<rparr>
               in (invocation_result (px_marshal p) (px_invoke p (length (px_sent p)) req),
                   send (Invoke req) p))))"

section \<open>Repairing the request\<close>

text \<open>The tool call with this id, searched backwards through the assistant messages.\<close>

fun find_call :: "string \<Rightarrow> ChatMessage list \<Rightarrow> ToolCall option" where
  "find_call i [] = None"
| "find_call i (m # before) =
     (if cm_Role m = ''assistant'' \<and> cm_ToolCalls m \<noteq> []
      then (case List.find (\<lambda>tc. tl_ID tc = i) (cm_ToolCalls m) of
          Some tc \<Rightarrow> Some tc
        | None \<Rightarrow> find_call i before)
      else find_call i before)"

text \<open>Empty tool messages are answered by running the tool again; \<open>before\<close> is the part of the
  conversation already repaired, newest first.\<close>

fun repair :: "ChatMessage list \<Rightarrow> ChatMessage list \<Rightarrow> proxy \<Rightarrow> ChatMessage list \<times> proxy" where
  "repair before [] p = (rev before, p)"
| "repair before (m # ms) p =
     (if cm_Role m = ''tool'' \<and> cm_Content m = []
      then (case find_call (cm_ToolCallID m) before of
          Some tc \<Rightarrow> (case executeToolCall tc p of
              (Inl err, p) \<Rightarrow> repair (m\<lparr>cm_Content := ''Error executing tool: '' @ err\<rparr> # before) ms p
            | (Inr result, p) \<Rightarrow> repair (m\<lparr>cm_Content := result\<rparr> # before) ms p)
        | None \<Rightarrow> repair (m\<lparr>cm_Content := ''Tool executed successfully (no content provided by client)''\<rparr> # before) ms p)
      else repair (m # before) ms p)"

fun last_user :: "ChatMessage list \<Rightarrow> string" where
  "last_user [] = []"
| "last_user (m # before) = (if cm_Role m = ''user'' then cm_Content m else last_user before)"

definition inject_tools :: "ChatCompletionRequest \<Rightarrow> proxy \<Rightarrow> ChatCompletionRequest \<times> proxy" where
  "inject_tools req p =
     (if cr_Tools req = []
      then (let (tools, cache) = getToolsForRequest (px_service p) (px_now p) (last_user (rev (cr_Messages req))) (px_cache p)
            in (req\<lparr>cr_Tools := tools\<rparr>, p\<lparr>px_cache := cache\<rparr>))
      else (req, p))"

definition fill_content :: "ChatCompletionRequest \<Rightarrow> ChatCompletionRequest" where
  "fill_content req =
     (if cr_Tools req \<noteq> []
      then req\<lparr>cr_Messages := map (\<lambda>m. if cm_Content m = [] then m\<lparr>cm_Content := '' ''\<rparr> else m) (cr_Messages req)\<rparr>
      else req)"

section \<open>The tool loop\<close>

definition tool_message :: "ToolCall \<Rightarrow> string + string \<Rightarrow> ChatMessage" where
  "tool_message tc r =
     (let result = (case r of Inl err \<Rightarrow> ''Error: '' @ err | Inr s \<Rightarrow> s);
          result = (if result = [] then ''Tool executed successfully with no output'' else result)
      in \<lparr>cm_Role = ''tool'', cm_Content = result, cm_ToolCalls = [], cm_ToolCallID = tl_ID tc,
          cm_Name = fc_Name (tl_Function tc)\<rparr>)"

fun run_calls :: "ToolCall list \<Rightarrow> proxy \<Rightarrow> ChatMessage list \<times> proxy" where
  "run_calls [] p = ([], p)"
| "run_calls (tc # tcs) p =
     (let (r, p) = executeToolCall tc p; (ms, p) = run_calls tcs p in (tool_message tc r # ms, p))"

fun chat_loop :: "nat \<Rightarrow> ChatCompletionRequest \<Rightarrow> proxy \<Rightarrow> ChatCompletionResponse http_response \<times> proxy" where
  "chat_loop 0 req p = (Failure 500 ''Maximum tool execution iterations reached'', p)"
| "chat_loop (Suc n) req p = (case forwardToLlamaStack req p of
       (Inl err, p) \<Rightarrow> (Failure 500 ''Failed to process request'', p)
     | (Inr resp, p) \<Rightarrow> (case cc_Choices resp of
         c # _ \<Rightarrow>
           if ch_FinishReason c = ''tool_calls'' \<and> cm_ToolCalls (ch_Message c) \<noteq> []
           then (let (ms, p) = run_calls (cm_ToolCalls (ch_Message c)) p
                 in chat_loop n (req\<lparr>cr_Messages := cr_Messages req @ [ch_Message c] @ ms\<rparr>) p)
           else (JSON resp, p)
       | [] \<Rightarrow> (JSON resp, p)))"

definition handleStreamingRequest :: "(ChatCompletionRequest \<Rightarrow> raw_reply) \<Rightarrow> ChatCompletionRequest \<Rightarrow> proxy
    \<Rightarrow> 'b http_response \<times> proxy" where
  "handleStreamingRequest stream req p = (case stream req of
       RawError err \<Rightarrow> (Failure 502 ''Failed to forward request'', send (Forward req) p)
     | Raw status hdrs body \<Rightarrow> (Passed status hdrs body, send (Forward req) p))"

definition prepare :: "ChatCompletionRequest \<Rightarrow> proxy \<Rightarrow> ChatCompletionRequest \<times> proxy" where
  "prepare req p =
     (let (ms, p) = repair [] (cr_Messages req) p;
          (req, p) = inject_tools (req\<lparr>cr_Messages := ms\<rparr>) p
      in (fill_content req, p))"

definition maxIterations :: nat where [simp]: "maxIterations = 10"

definition handleChatCompletion :: "string \<Rightarrow> ChatCompletionRequest body \<Rightarrow> (ChatCompletionRequest \<Rightarrow> raw_reply)
    \<Rightarrow> proxy \<Rightarrow> ChatCompletionResponse http_response \<times> proxy" where
  "handleChatCompletion meth body stream p =
     (if meth \<noteq> ''POST'' then (Failure 405 ''Method not allowed'', p)
      else (case body of
          Unreadable \<Rightarrow> (Failure 400 ''Failed to read request'', p)
        | Undecodable \<Rightarrow> (Failure 400 ''Invalid request format'', p)
        | Decoded req \<Rightarrow>
            (let (req, p) = prepare req p in
             if cr_Stream req then handleStreamingRequest stream req p
             else chat_loop maxIterations req p)))"

section \<open>Other endpoints\<close>

definition handleGenericProxy :: "string \<Rightarrow> string \<Rightarrow> string \<Rightarrow> string \<Rightarrow> (string, string list) fmap \<Rightarrow> string body
    \<Rightarrow> (http_request \<Rightarrow> bool) \<Rightarrow> (http_request \<Rightarrow> raw_reply) \<Rightarrow> 'b http_response \<times> http_request option" where
  "handleGenericProxy url meth path raw_query hdrs body creatable client =
     (case body of
        Decoded text \<Rightarrow>
          (let req = \<lparr>rq_Method = meth, rq_URL = url @ path @ query_suffix raw_query,
                      rq_Header = copy_headers hdrs, rq_Body = text\<rparr> in
           if \<not> creatable req then (Failure 500 ''Failed to create proxy request'', None)
           else (case client req of
               RawError err \<Rightarrow> (Failure 502 ''Failed to forward request'', Some req)
             | Raw status rh rb \<Rightarrow> (Passed status (copy_headers rh) rb, Some req)))
      | _ \<Rightarrow> (Failure 400 ''Failed to read request body'', None))"

definition openai_model :: "int \<Rightarrow> string \<Rightarrow> OpenAIModel" where
  "openai_model now i = \<lparr>om_ID = i, om_Object = ''model'', om_Created = now, om_OwnedBy = ''library''\<rparr>"

text \<open>The list of models: a reply carries the identifiers it decodes to.\<close>

definition handleModels :: "string \<Rightarrow> string \<Rightarrow> (string \<Rightarrow> string list reply) \<Rightarrow> int \<Rightarrow> OpenAIModel list http_response" where
  "handleModels url raw_query get now =
     (case get (url @ ''/v1/models'' @ query_suffix raw_query) of
        NoReply err \<Rightarrow> Failure 502 ''Failed to fetch models''
      | Reply status _ _ val \<Rightarrow>
          if status \<noteq> 200 then Failure status ''Failed to fetch models''
          else (case val of
              Inl err \<Rightarrow> Failure 500 ''Failed to parse models''
            | Inr ids \<Rightarrow> JSON (map (openai_model now) ids)))"

definition handleCacheRefresh :: "string \<Rightarrow> service \<Rightarrow> int \<Rightarrow> ToolCache \<Rightarrow> unit http_response \<times> ToolCache" where
  "handleCacheRefresh meth sv now tc =
     (if meth \<noteq> ''POST'' then (Failure 405 ''Method not allowed'', tc)
      else (case refreshToolGroups (sv_url sv) (sv_groups sv) tc of
          (Inl err, tc) \<Rightarrow> (Failure 500 (''Failed to refresh tool groups: '' @ err), tc)
        | (Inr _, tc) \<Rightarrow> (JSON (), buildKeywordIndex (refreshAllTools (sv_url sv) (sv_tools sv) now tc))))"

record CacheStatus =
  cs_tool_groups :: nat
  cs_total_tools :: nat
  cs_last_refresh :: "int option"
  cs_smart_filter :: bool
  cs_explicit_groups :: "string list"
  cs_blacklisted_tools :: "string list"
  cs_groups :: "ToolGroupInfo list"
  cs_tools_per_group :: "(string, nat) fmap"
  cs_keywords_per_group :: "(string, nat) fmap"

definition handleCacheStatus :: "ToolCache \<Rightarrow> CacheStatus" where
  "handleCacheStatus tc = \<lparr>cs_tool_groups = length (tc_toolGroups tc), cs_total_tools = length (tc_allTools tc),
     cs_last_refresh = tc_lastRefresh tc, cs_smart_filter = tc_enableSmartFilter tc,
     cs_explicit_groups = tc_explicitGroups tc, cs_blacklisted_tools = tc_blacklistedTools tc,
     cs_groups = tc_toolGroups tc, cs_tools_per_group = fmmap length (tc_toolsByGroup tc),
     cs_keywords_per_group = fmmap length (tc_groupKeywords tc)\<rparr>"

text \<open>The OTLP endpoint of \<^verbatim>\<open>telemetry.go\<close>: host and port of what the environment names.\<close>

definition otlp_endpoint :: "string \<Rightarrow> string" where
  "otlp_endpoint env =
     (let e = (if env = [] then ''localhost:4318'' else env);
          e = trim_prefix e ''http://'';
          e = trim_prefix e ''https://'';
          e = (case str_index e (CHR ''/'') of None \<Rightarrow> e | Some i \<Rightarrow> take i e)
      in if has_suffix e '':4317'' then trim_suffix e '':4317'' @ '':4318'' else e)"

end
