(* ===== verification/Llama_Spec.thy ===== *)
theory Llama_Spec
  imports Tool_Select Llama_Proxy
begin

text \<open>
  What the LlamaStack proxy promises: which groups a request gets, that advertised tools respect
  the blacklist and can be executed, that the tool loop is bounded, answers every call and never
  forwards an empty tool message, and that the pass-through proxy is transparent.
\<close>

section \<open>Selection\<close>

lemma select_smart:
  fixes msg :: string
  assumes "tc_explicitGroups tc = []" "tc_enableSmartFilter tc"
  defines "scored \<equiv> map (\<lambda>g. (tg_Identifier g, scoreToolGroupRelevance tc msg (tg_Identifier g))) (tc_toolGroups tc)"
  shows "selectRelevantToolGroups tc msg = exchange.pick scored"
proof -
  have e: "outer_sort 0 scored = [] \<longleftrightarrow> tc_toolGroups tc = []"
    using exchange.set_srt [of scored] by (metis Nil_is_map_conv scored_def set_empty)
  show ?thesis
    unfolding selectRelevantToolGroups_def exchange.pick_def Let_def scored_def [symmetric]
    using assms(1,2) e by auto
qed


section \<open>The cache and the blacklist\<close>

definition cache_ok :: "ToolCache \<Rightarrow> bool" where
  "cache_ok tc \<longleftrightarrow> (\<forall>g ts t. fmlookup (tc_toolsByGroup tc) g = Some ts \<longrightarrow> t \<in> set ts \<longrightarrow>
      lt_Name t \<notin> set (tc_blacklistedTools tc) \<and> lt_Name t |\<in>| fmdom (tc_toolToGroup tc))"

lemma fold_upd_dom:
  "n |\<in>| fmdom (fold (\<lambda>t. fmupd (f t) g) ts m) \<longleftrightarrow> n |\<in>| fmdom m \<or> n \<in> f ` set ts"
  by (induction ts arbitrary: m) auto

lemma refresh_group_ok:
  assumes "cache_ok tc" "refresh_group url get g (all, tc) = (all', tc')"
  shows "cache_ok tc'" "tc_blacklistedTools tc' = tc_blacklistedTools tc"
proof -
  show "cache_ok tc'"
    using assms unfolding cache_ok_def
    by (auto simp: refresh_group_def Let_def not_blacklisted_def fold_upd_dom list_ex_iff
        split: reply.splits sum.splits if_splits)
  show "tc_blacklistedTools tc' = tc_blacklistedTools tc"
    using assms(2) by (auto simp: refresh_group_def Let_def split: reply.splits sum.splits)
qed

lemma fold_refresh_ok:
  "cache_ok tc \<Longrightarrow> fold (refresh_group url get) gs (all, tc) = (all', tc') \<Longrightarrow>
   cache_ok tc' \<and> tc_blacklistedTools tc' = tc_blacklistedTools tc"
proof (induction gs arbitrary: all tc)
  case (Cons g gs)
  obtain a t where a: "refresh_group url get g (all, tc) = (a, t)" by (cases "refresh_group url get g (all, tc)")
  with Cons.prems(2) have "fold (refresh_group url get) gs (a, t) = (all', tc')" by simp
  with Cons.IH [OF refresh_group_ok(1) [OF Cons.prems(1) a]] refresh_group_ok(2) [OF Cons.prems(1) a]
  show ?case by metis
qed simp

lemma refreshAllTools_ok [inv_intros]: "cache_ok (refreshAllTools url get now tc)"
proof -
  let ?tc = "tc\<lparr>tc_toolsByGroup := fmempty\<rparr>"
  obtain all tc' where f: "fold (refresh_group url get) (tc_toolGroups ?tc) ([], ?tc) = (all, tc')"
    by (cases "fold (refresh_group url get) (tc_toolGroups ?tc) ([], ?tc)")
  have "cache_ok ?tc" by (simp add: cache_ok_def)
  from fold_refresh_ok [OF this f] have "cache_ok tc'" by blast
  then show ?thesis using f by (simp add: refreshAllTools_def Let_def cache_ok_def)
qed

lemma buildKeywordIndex_ok [inv_intros]: "cache_ok tc \<Longrightarrow> cache_ok (buildKeywordIndex tc)"
  by (simp add: buildKeywordIndex_def cache_ok_def)

lemma refreshToolGroups_ok: "cache_ok tc \<Longrightarrow> cache_ok (snd (refreshToolGroups url get tc))"
  by (auto simp: refreshToolGroups_def cache_ok_def split: reply.split sum.split)

text \<open>Every cache a running proxy can have.\<close>

inductive proxy_cache :: "ToolCache \<Rightarrow> bool" where
  start: "proxy_cache (init_cache smart groups blacklist)"
| fetch: "proxy_cache tc \<Longrightarrow> proxy_cache (snd (initializeToolCache sv now tc))"
| request: "proxy_cache tc \<Longrightarrow> proxy_cache (refreshIfNeeded sv now tc)"
| manual: "proxy_cache tc \<Longrightarrow> proxy_cache (snd (handleCacheRefresh meth sv now tc))"

lemma proxy_cache_ok: "proxy_cache tc \<Longrightarrow> cache_ok tc"
proof (induction rule: proxy_cache.induct)
  case (start smart groups blacklist)
  show ?case by (simp add: init_cache_def cache_ok_def)
next
  case (fetch tc sv now)
  then show ?case using refreshToolGroups_ok [OF fetch.IH, of "sv_url sv" "sv_groups sv"]
    by (auto simp: initializeToolCache_def split: prod.split sum.split intro: inv_intros)
next
  case (request tc sv now)
  then show ?case using refreshToolGroups_ok [OF request.IH, of "sv_url sv" "sv_groups sv"]
    by (auto simp: refreshIfNeeded_def split: prod.split sum.split intro: inv_intros)
next
  case (manual tc meth sv now)
  then show ?case using refreshToolGroups_ok [OF manual.IH, of "sv_url sv" "sv_groups sv"]
    by (auto simp: handleCacheRefresh_def split: prod.split sum.split intro: inv_intros)
qed

text \<open>The tools a request is given come from the cached tools of the selected groups; a tool with a
  name is never blacklisted, and calling it by the name advertised finds its group.\<close>

theorem tools_advertised:
  assumes "proxy_cache tc" "getToolsForRequest sv now msg tc = (tools, tc')" "ot \<in> set tools"
  shows "\<exists>g ts t. g \<in> set (selectRelevantToolGroups tc' msg) \<and> fmlookup (tc_toolsByGroup tc') g = Some ts
    \<and> t \<in> set ts \<and> ot = convert_tool t
    \<and> (lt_Name t \<noteq> [] \<longrightarrow> of_Name (ot_Function ot) \<notin> set (tc_blacklistedTools tc')
         \<and> of_Name (ot_Function ot) |\<in>| fmdom (tc_toolToGroup tc'))"
proof -
  have tc': "tc' = refreshIfNeeded sv now tc"
    and tools: "tools = map convert_tool (getToolsForGroups tc' (selectRelevantToolGroups tc' msg))"
    using assms(2) by (auto simp: getToolsForRequest_def Let_def convertToOpenAITools_def)
  have ok: "cache_ok tc'" unfolding tc' by (rule proxy_cache_ok [OF proxy_cache.request [OF assms(1)]])
  obtain t where t: "ot = convert_tool t" "t \<in> set (getToolsForGroups tc' (selectRelevantToolGroups tc' msg))"
    using assms(3) tools by auto
  then obtain g where "g \<in> set (selectRelevantToolGroups tc' msg)"
    "t \<in> set (case fmlookup (tc_toolsByGroup tc') g of None \<Rightarrow> [] | Some ts \<Rightarrow> ts)"
    by (auto simp only: getToolsForGroups_def set_concat set_map)
  then obtain ts where g: "g \<in> set (selectRelevantToolGroups tc' msg)"
    "fmlookup (tc_toolsByGroup tc') g = Some ts" "t \<in> set ts"
    by (cases "fmlookup (tc_toolsByGroup tc') g") auto
  have "of_Name (ot_Function ot) = tool_name t" by (simp add: t(1) convert_tool_def case_prod_unfold Let_def)
  then show ?thesis using t(1) g ok by (auto simp: cache_ok_def tool_name_def)
qed

section \<open>A small LlamaStack\<close>

definition sample_tool :: "string \<Rightarrow> string \<Rightarrow> LlamaStackTool" where
  "sample_tool name ident = \<lparr>lt_Name = name, lt_ToolGroupID = ''time'', lt_Description = ''tells the hour'',
     lt_InputSchema = None, lt_Metadata = JNull, lt_Identifier = ident, lt_ProviderResourceID = None,
     lt_ProviderID = [], lt_Type = [], lt_Parameters = []\<rparr>"

definition sample_service :: service where
  "sample_service = \<lparr>sv_url = ''http://stack'',
     sv_groups = (\<lambda>_. Reply 200 [] None (Inr [\<lparr>tg_Identifier = ''time'', tg_ProviderID = [],
        tg_ProviderResourceID = [], tg_Type = []\<rparr>])),
     sv_tools = (\<lambda>_. Reply 200 [] None (Inr [sample_tool ''clock'' [], sample_tool [] ''calc'', sample_tool ''bomb'' []]))\<rparr>"

definition sample_cache :: ToolCache where
  "sample_cache = init_cache [] [] ''bomb''"

lemma split_bomb: "split_names ''bomb'' = [''bomb'']"
  by (simp add: split_names_def trim_space_plain byte_def)

lemma sample_request:
  "getToolsForRequest sample_service 7 [] sample_cache
     = ([convert_tool (sample_tool ''clock'' []), convert_tool (sample_tool [] ''calc'')],
        refreshIfNeeded sample_service 7 sample_cache)"
  "tc_toolToGroup (refreshIfNeeded sample_service 7 sample_cache) = fmupd [] ''time'' (fmupd ''clock'' ''time'' fmempty)"
  "tc_toolsByGroup (refreshIfNeeded sample_service 7 sample_cache)
     = fmupd ''time'' [sample_tool ''clock'' [], sample_tool [] ''calc''] fmempty"
  by (simp_all add: getToolsForRequest_def sample_cache_def init_cache_def split_bomb refreshIfNeeded_def
      needsRefresh_def refreshToolGroups_def sample_service_def refreshAllTools_def refresh_group_def
      not_blacklisted_def sample_tool_def buildKeywordIndex_def selectRelevantToolGroups_def
      getToolsForGroups_def convertToOpenAITools_def Let_def split_names_def [of "[]"])

theorem tools_advertised_witness:
  "''clock'' \<notin> set (tc_blacklistedTools (refreshIfNeeded sample_service 7 sample_cache))"
proof -
  have "proxy_cache sample_cache" unfolding sample_cache_def by (rule proxy_cache.start)
  from tools_advertised [OF this sample_request(1), of "convert_tool (sample_tool ''clock'' [])"]
  obtain t where "t \<in> {sample_tool ''clock'' [], sample_tool [] ''calc''}"
    "convert_tool (sample_tool ''clock'' []) = convert_tool t" "lt_Name t \<noteq> [] \<longrightarrow>
      of_Name (ot_Function (convert_tool (sample_tool ''clock'' []))) \<notin> set (tc_blacklistedTools (refreshIfNeeded sample_service 7 sample_cache))"
    by (auto simp: sample_request(3) split: if_splits)
  then show ?thesis by (auto simp: convert_tool_def sample_tool_def tool_name_def)
qed

definition two_groups :: ToolCache where
  "two_groups = sample_cache\<lparr>tc_enableSmartFilter := True,
     tc_toolGroups := [\<lparr>tg_Identifier = ''time'', tg_ProviderID = [], tg_ProviderResourceID = [], tg_Type = []\<rparr>,
       \<lparr>tg_Identifier = ''math'', tg_ProviderID = [], tg_ProviderResourceID = [], tg_Type = []\<rparr>],
     tc_groupKeywords := fmupd ''math'' [''summary''] fmempty\<rparr>"

lemma keywords_sum: "extractKeywords ''Sum it'' = [''sum'']"
proof -
  have "runes ''Sum it'' = map byte ''Sum it''" by (rule runes_ascii) (simp add: byte_def)
  then have "lower_runes ''Sum it'' = [115, 117, 109, 32, 105, 116]"
    by (simp add: lower_runes_def lower_rune_def byte_def)
  then have "split_words ''Sum it'' = [of_runes [115, 117, 109], of_runes [105, 116]]"
    by (simp add: split_words_def fields_func.simps word_sep_def)
  moreover have "of_runes (map byte ''sum'') = ''sum''" "of_runes (map byte ''it'') = ''it''"
    by (rule of_runes_ascii, simp add: byte_def)+
  ultimately show ?thesis by (simp add: extractKeywords_def byte_def stopWords_def)
qed


section \<open>The tool loop\<close>

fun forwards :: "outgoing list \<Rightarrow> ChatCompletionRequest list" where
  "forwards [] = []"
| "forwards (Forward r # os) = r # forwards os"
| "forwards (Invoke t # os) = forwards os"

lemma forwards_append [simp]: "forwards (xs @ ys) = forwards xs @ forwards ys"
  by (induction xs rule: forwards.induct) simp_all

text \<open>An answer to the calls of a model message: one tool message per call, in order, never empty.\<close>

definition answers :: "ToolCall list \<Rightarrow> ChatMessage list \<Rightarrow> bool" where
  "answers tcs ms \<longleftrightarrow> map cm_ToolCallID ms = map tl_ID tcs
     \<and> (\<forall>m\<in>set ms. cm_Role m = ''tool'' \<and> cm_Content m \<noteq> [])"

text \<open>The next request of a conversation: what was sent, the model's message and its answers.\<close>

definition continues :: "ChatCompletionRequest \<Rightarrow> ChatCompletionRequest \<Rightarrow> bool" where
  "continues a b \<longleftrightarrow> (\<exists>c ms. b = a\<lparr>cr_Messages := cr_Messages a @ c # ms\<rparr> \<and> cm_ToolCalls c \<noteq> []
     \<and> answers (cm_ToolCalls c) ms)"

definition final :: "ChatCompletionResponse \<Rightarrow> bool" where
  "final resp \<longleftrightarrow> (case cc_Choices resp of [] \<Rightarrow> True
     | c # _ \<Rightarrow> ch_FinishReason c \<noteq> ''tool_calls'' \<or> cm_ToolCalls (ch_Message c) = [])"

lemma executeToolCall_sent:
  "executeToolCall tc p = (r, p') \<Longrightarrow>
   forwards (px_sent p') = forwards (px_sent p) \<and> px_chat p' = px_chat p \<and> px_marshal p' = px_marshal p"
  by (auto simp: executeToolCall_def Let_def send_def split: sum.splits option.splits)

lemma run_calls_spec:
  "run_calls tcs p = (ms, p') \<Longrightarrow> answers tcs ms \<and> forwards (px_sent p') = forwards (px_sent p)
     \<and> px_chat p' = px_chat p \<and> px_marshal p' = px_marshal p"
proof (induction tcs arbitrary: p ms p')
  case Nil
  then show ?case by (simp add: answers_def)
next
  case (Cons tc tcs)
  obtain r q where r: "executeToolCall tc p = (r, q)" by (cases "executeToolCall tc p")
  obtain ns q' where q: "run_calls tcs q = (ns, q')" by (cases "run_calls tcs q")
  have "ms = tool_message tc r # ns" "p' = q'" using Cons.prems r q by simp_all
  then show ?case
    using executeToolCall_sent [OF r] Cons.IH [OF q]
    by (auto simp: answers_def tool_message_def Let_def)
qed

lemma forwardToLlamaStack_sent:
  "forwardToLlamaStack req p = (r, p') \<Longrightarrow> px_sent p' = px_sent p @ [Forward req] \<and> px_chat p' = px_chat p
     \<and> px_marshal p' = px_marshal p
     \<and> (\<forall>resp. r = Inr resp \<longrightarrow> (\<exists>b e. px_chat p (length (px_sent p)) req = Reply 200 b e (Inr resp)))"
  by (auto simp: forwardToLlamaStack_def send_def split: reply.splits sum.splits if_splits)

lemma chat_loop_spec:
  "chat_loop n req p = (r, p') \<Longrightarrow>
   \<exists>fs. forwards (px_sent p') = forwards (px_sent p) @ fs \<and> length fs \<le> n \<and> (0 < n \<longrightarrow> fs \<noteq> [])
     \<and> (fs \<noteq> [] \<longrightarrow> hd fs = req) \<and> successively continues fs
     \<and> (case r of JSON resp \<Rightarrow> final resp | Failure st _ \<Rightarrow> st = 500 | Passed _ _ _ \<Rightarrow> False)"
proof (induction n arbitrary: req p)
  case (Suc n)
  obtain a q where a: "forwardToLlamaStack req p = (a, q)" by (cases "forwardToLlamaStack req p")
  note f = forwardToLlamaStack_sent [OF a]
  have one: ?case if "p' = q" "case r of JSON resp \<Rightarrow> final resp | Failure st _ \<Rightarrow> st = 500 | Passed _ _ _ \<Rightarrow> False"
    using f that by (intro exI [of _ "[req]"]) simp
  show ?case
  proof (cases a)
    case (Inl err)
    then show ?thesis using Suc.prems a by (intro one) auto
  next
    case (Inr resp)
    show ?thesis
    proof (cases "final resp")
      case True
      then have "r = JSON resp" "p' = q"
        using Suc.prems a Inr by (auto simp: final_def split: list.splits if_splits)
      with True show ?thesis by (intro one) simp_all
    next
      case False
      then obtain c cs where c: "cc_Choices resp = c # cs" "ch_FinishReason c = ''tool_calls''"
        "cm_ToolCalls (ch_Message c) \<noteq> []" by (auto simp: final_def split: list.splits)
      obtain ms q' where m: "run_calls (cm_ToolCalls (ch_Message c)) q = (ms, q')"
        by (cases "run_calls (cm_ToolCalls (ch_Message c)) q")
      let ?req = "req\<lparr>cr_Messages := cr_Messages req @ [ch_Message c] @ ms\<rparr>"
      have "chat_loop n ?req q' = (r, p')" using Suc.prems a Inr c m by simp
      from Suc.IH [OF this] obtain fs where fs: "forwards (px_sent p') = forwards (px_sent q') @ fs" "length fs \<le> n"
        "fs \<noteq> [] \<longrightarrow> hd fs = ?req" "successively continues fs"
        "case r of JSON resp \<Rightarrow> final resp | Failure st _ \<Rightarrow> st = 500 | Passed _ _ _ \<Rightarrow> False" by blast
      have "continues req ?req"
        unfolding continues_def using run_calls_spec [OF m] c(3)
        by (intro exI [of _ "ch_Message c"] exI [of _ ms]) simp
      then have "successively continues (req # fs)" using fs(3,4) by (cases fs) auto
      then show ?thesis using fs f run_calls_spec [OF m] by (intro exI [of _ "req # fs"]) simp
    qed
  qed
qed auto


section \<open>No empty tool message\<close>

definition tool_msgs_ok :: "ChatMessage list \<Rightarrow> bool" where
  "tool_msgs_ok ms \<longleftrightarrow> (\<forall>m\<in>set ms. cm_Role m = ''tool'' \<longrightarrow> cm_Content m \<noteq> [])"

lemma executeToolCall_nonempty:
  assumes "executeToolCall tc p = (Inr s, p')" "\<forall>j. px_marshal p j \<noteq> []"
  shows "s \<noteq> []"
  using assms
  by (auto simp: executeToolCall_def invocation_result_def Let_def split: sum.splits option.splits reply.splits if_splits)

lemma repair_ok:
  "tool_msgs_ok before \<Longrightarrow> \<forall>j. px_marshal p j \<noteq> [] \<Longrightarrow> repair before ms p = (out, p') \<Longrightarrow>
   tool_msgs_ok out \<and> map cm_Role out = map cm_Role (rev before @ ms)
   \<and> map cm_ToolCalls out = map cm_ToolCalls (rev before @ ms)
   \<and> forwards (px_sent p') = forwards (px_sent p) \<and> px_chat p' = px_chat p \<and> px_marshal p' = px_marshal p"
proof (induction before ms p arbitrary: out p' rule: repair.induct)
  case (1 before p)
  then show ?case by (auto simp: tool_msgs_ok_def)
next
  case (2 before m ms p)
  note hyp = "2.prems"(1,2)
  show ?case
  proof (cases "cm_Role m = ''tool'' \<and> cm_Content m = []")
    case False
    then have "tool_msgs_ok (m # before)" using hyp by (auto simp: tool_msgs_ok_def)
    from "2.IH"(4) [OF False this hyp(2), of out p'] "2.prems"(3) show ?thesis
      unfolding repair.simps if_not_P [OF False] by simp
  next
    case True
    show ?thesis
    proof (cases "find_call (cm_ToolCallID m) before")
      case None
      let ?m = "m\<lparr>cm_Content := ''Tool executed successfully (no content provided by client)''\<rparr>"
      have "tool_msgs_ok (?m # before)" using hyp by (auto simp: tool_msgs_ok_def)
      from "2.IH"(1) [OF True None this hyp(2), of out p'] True None "2.prems"(3) show ?thesis by simp
    next
      case (Some tc)
      obtain r q where r: "executeToolCall tc p = (r, q)" by (cases "executeToolCall tc p")
      note q = executeToolCall_sent [OF r]
      have hq: "\<forall>j. px_marshal q j \<noteq> []" using hyp(2) q by simp
      show ?thesis
      proof (cases r)
        case (Inl err)
        let ?m = "m\<lparr>cm_Content := ''Error executing tool: '' @ err\<rparr>"
        have "tool_msgs_ok (?m # before)" using hyp by (auto simp: tool_msgs_ok_def)
        from "2.IH"(2) [OF True Some r [symmetric] Inl this hq, of out p'] True Some r Inl q "2.prems"(3)
        show ?thesis by simp
      next
        case (Inr s)
        let ?m = "m\<lparr>cm_Content := s\<rparr>"
        have "s \<noteq> []" using executeToolCall_nonempty [OF _ hyp(2)] r Inr by blast
        then have "tool_msgs_ok (?m # before)" using hyp by (auto simp: tool_msgs_ok_def)
        from "2.IH"(3) [OF True Some r [symmetric] Inr this hq, of out p'] True Some r Inr q "2.prems"(3)
        show ?thesis by simp
      qed
    qed
  qed
qed

text \<open>A chat service whose messages are never tool messages.\<close>

definition model_speaks :: "(nat \<Rightarrow> ChatCompletionRequest \<Rightarrow> ChatCompletionResponse reply) \<Rightarrow> bool" where
  "model_speaks chat \<longleftrightarrow> (\<forall>k req st b e resp c. chat k req = Reply st b e (Inr resp) \<longrightarrow> c \<in> set (cc_Choices resp)
     \<longrightarrow> cm_Role (ch_Message c) \<noteq> ''tool'')"

lemma chat_loop_ok:
  "chat_loop n req p = (r, p') \<Longrightarrow> tool_msgs_ok (cr_Messages req) \<Longrightarrow> model_speaks (px_chat p) \<Longrightarrow>
   \<exists>fs. forwards (px_sent p') = forwards (px_sent p) @ fs \<and> (\<forall>f\<in>set fs. tool_msgs_ok (cr_Messages f))"
proof (induction n arbitrary: req p)
  case (Suc n)
  obtain a q where a: "forwardToLlamaStack req p = (a, q)" by (cases "forwardToLlamaStack req p")
  note f = forwardToLlamaStack_sent [OF a]
  have one: ?case if "p' = q" using f that Suc.prems(2) by (intro exI [of _ "[req]"]) simp
  show ?case
  proof (cases a)
    case (Inl err)
    then show ?thesis using Suc.prems(1) a by (intro one) auto
  next
    case (Inr resp)
    show ?thesis
    proof (cases "final resp")
      case True
      then show ?thesis
        using Suc.prems(1) a Inr by (intro one) (auto simp: final_def split: list.splits if_splits)
    next
      case False
      then obtain c cs where c: "cc_Choices resp = c # cs" "ch_FinishReason c = ''tool_calls''"
        "cm_ToolCalls (ch_Message c) \<noteq> []" by (auto simp: final_def split: list.splits)
      obtain ms q' where m: "run_calls (cm_ToolCalls (ch_Message c)) q = (ms, q')"
        by (cases "run_calls (cm_ToolCalls (ch_Message c)) q")
      note ms = run_calls_spec [OF m]
      let ?req = "req\<lparr>cr_Messages := cr_Messages req @ [ch_Message c] @ ms\<rparr>"
      have l: "chat_loop n ?req q' = (r, p')" using Suc.prems(1) a Inr c m by simp
      have "cm_Role (ch_Message c) \<noteq> ''tool''"
        using f Inr c(1) Suc.prems(3) unfolding model_speaks_def by fastforce
      then have "tool_msgs_ok (cr_Messages ?req)"
        using Suc.prems(2) ms by (auto simp: tool_msgs_ok_def answers_def)
      moreover have "model_speaks (px_chat q')" using f ms Suc.prems(3) by simp
      ultimately obtain fs where "forwards (px_sent p') = forwards (px_sent q') @ fs"
        "\<forall>f\<in>set fs. tool_msgs_ok (cr_Messages f)" using Suc.IH [OF l] by blast
      then show ?thesis using f ms Suc.prems(2) by (intro exI [of _ "req # fs"]) simp
    qed
  qed
qed simp

lemma inject_tools_frame:
  "inject_tools req p = (req', p') \<Longrightarrow> cr_Messages req' = cr_Messages req \<and> px_sent p' = px_sent p \<and> px_chat p' = px_chat p"
  by (auto simp: inject_tools_def Let_def split: if_splits prod.splits)

lemma fill_content_ok: "tool_msgs_ok (cr_Messages req) \<Longrightarrow> tool_msgs_ok (cr_Messages (fill_content req))"
  by (auto simp: fill_content_def tool_msgs_ok_def)

lemma prepare_ok:
  assumes "prepare req p = (req', p')" "\<forall>j. px_marshal p j \<noteq> []"
  shows "tool_msgs_ok (cr_Messages req')" "forwards (px_sent p') = forwards (px_sent p)" "px_chat p' = px_chat p"
proof -
  obtain ms q where r: "repair [] (cr_Messages req) p = (ms, q)" by (cases "repair [] (cr_Messages req) p")
  obtain rq q' where i: "inject_tools (req\<lparr>cr_Messages := ms\<rparr>) q = (rq, q')"
    by (cases "inject_tools (req\<lparr>cr_Messages := ms\<rparr>) q")
  have e: "req' = fill_content rq" "p' = q'" using assms(1) r i by (simp_all add: prepare_def)
  have "tool_msgs_ok []" by (simp add: tool_msgs_ok_def)
  note ok = repair_ok [OF this assms(2) r] and fr = inject_tools_frame [OF i]
  then show "tool_msgs_ok (cr_Messages req')" unfolding e by (intro fill_content_ok) simp
  show "forwards (px_sent p') = forwards (px_sent p)" "px_chat p' = px_chat p" using ok fr e by simp_all
qed

text \<open>LlamaStack never sees an empty tool message. Whatever the client sends, streamed or not, every
  request forwarded has a content in each of its tool messages.\<close>

theorem no_empty_tool_message:
  assumes "handleChatCompletion meth (Decoded req) stream p = (r, p')" "\<forall>j. px_marshal p j \<noteq> []"
    "model_speaks (px_chat p)"
  shows "\<exists>fs. forwards (px_sent p') = forwards (px_sent p) @ fs
    \<and> (\<forall>f\<in>set fs. \<forall>m\<in>set (cr_Messages f). cm_Role m = ''tool'' \<longrightarrow> cm_Content m \<noteq> [])"
proof (cases "meth = ''POST''")
  case False
  then show ?thesis using assms(1) by (simp add: handleChatCompletion_def)
next
  case True
  obtain rq q where pr: "prepare req p = (rq, q)" by (cases "prepare req p")
  note ok = prepare_ok [OF pr assms(2)]
  show ?thesis
  proof (cases "cr_Stream rq")
    case True
    then have "handleStreamingRequest stream rq q = (r, p')"
      using assms(1) pr \<open>meth = ''POST''\<close> by (simp add: handleChatCompletion_def)
    then have "px_sent p' = px_sent q @ [Forward rq]"
      by (auto simp: handleStreamingRequest_def send_def split: raw_reply.splits)
    then show ?thesis using ok by (intro exI [of _ "[rq]"]) (simp add: tool_msgs_ok_def)
  next
    case False
    then have "chat_loop maxIterations rq q = (r, p')"
      using assms(1) pr True by (simp add: handleChatCompletion_def)
    from chat_loop_ok [OF this ok(1)] ok assms(3) show ?thesis by (simp add: tool_msgs_ok_def)
  qed
qed

section \<open>Transparency\<close>

text \<open>The pass-through proxy is transparent: LlamaStack receives the method, path, query, headers and
  body of the client's request, and the client receives the status, headers and body of the reply.\<close>

theorem generic_proxy_transparent:
  assumes "\<forall>k vs. fmlookup hdrs k = Some vs \<longrightarrow> vs \<noteq> []" "client req = Raw status rh rb"
    "\<forall>k vs. fmlookup rh k = Some vs \<longrightarrow> vs \<noteq> []" "creatable req"
    "req = \<lparr>rq_Method = meth, rq_URL = url @ path @ (if query = [] then [] else ''?'' @ query), rq_Header = hdrs, rq_Body = text\<rparr>"
  shows "handleGenericProxy url meth path query hdrs (Decoded text) creatable client
    = (Passed status rh rb, Some req)"
proof -
  have "\<lparr>rq_Method = meth, rq_URL = url @ path @ query_suffix query, rq_Header = copy_headers hdrs, rq_Body = text\<rparr> = req"
    using copy_headers_same [OF assms(1)] by (simp add: assms(5) query_suffix_def)
  then show ?thesis
    using assms(2,4) copy_headers_same [OF assms(3)] by (simp add: handleGenericProxy_def Let_def)
qed

theorem generic_proxy_transparent_witness:
  "handleGenericProxy ''http://s'' ''GET'' ''/v1/x'' ''a=1'' (fmupd ''Accept'' [''a'', ''b''] fmempty) (Decoded [])
     (\<lambda>_. True) (\<lambda>r. Raw 200 (fmupd ''Host'' [rq_URL r] fmempty) (rq_Method r))
   = (Passed 200 (fmupd ''Host'' [''http://s/v1/x?a=1''] fmempty) ''GET'' :: unit http_response,
      Some \<lparr>rq_Method = ''GET'', rq_URL = ''http://s/v1/x?a=1'', rq_Header = fmupd ''Accept'' [''a'', ''b''] fmempty, rq_Body = []\<rparr>)"
proof -
  have h: "\<forall>k vs. fmlookup (fmupd a [v, w] fmempty) k = Some vs \<longrightarrow> vs \<noteq> []"
    "\<forall>k vs. fmlookup (fmupd a [v] fmempty) k = Some vs \<longrightarrow> vs \<noteq> []" for a v w :: string by auto
  show ?thesis
    by (rule generic_proxy_transparent [OF h(1) _ h(2)]) simp_all
qed

section \<open>A conversation\<close>

definition call_of :: "string \<Rightarrow> ToolCall" where
  "call_of name = \<lparr>tl_ID = ''c1'', tl_Type = ''function'', tl_Function = \<lparr>fc_Name = name, fc_Arguments = ''{}''\<rparr>\<rparr>"

definition say :: "string \<Rightarrow> string \<Rightarrow> ToolCall list \<Rightarrow> ChatMessage" where
  "say role text calls = \<lparr>cm_Role = role, cm_Content = text, cm_ToolCalls = calls, cm_ToolCallID = [], cm_Name = []\<rparr>"

definition reply_with :: "ChatMessage \<Rightarrow> string \<Rightarrow> ChatCompletionResponse" where
  "reply_with m fin = \<lparr>cc_ID = [], cc_Object = [], cc_Created = 0, cc_Model = [],
     cc_Choices = [\<lparr>ch_Index = 0, ch_Message = m, ch_FinishReason = fin\<rparr>],
     cc_Usage = \<lparr>us_PromptTokens = 0, us_CompletionTokens = 0, us_TotalTokens = 0\<rparr>\<rparr>"

text \<open>The model asks for the clock, then answers.\<close>

definition sample_chat :: "nat \<Rightarrow> ChatCompletionRequest \<Rightarrow> ChatCompletionResponse reply" where
  "sample_chat k req = Reply 200 [] None (Inr (if k = 0
     then reply_with (say ''assistant'' [] [call_of ''clock'']) ''tool_calls''
     else reply_with (say ''assistant'' ''noon'' []) ''stop''))"

definition sample_proxy :: proxy where
  "sample_proxy = \<lparr>px_service = sample_service, px_chat = sample_chat,
     px_invoke = (\<lambda>_ _. Reply 200 [] None (Inr \<lparr>tr_Content = JStr ''noon'', tr_ErrorMessage = None, tr_ErrorCode = JNull\<rparr>)),
     px_args = (\<lambda>_. Inr fmempty), px_marshal = (\<lambda>_. ''null''), px_now = 8,
     px_cache = refreshIfNeeded sample_service 7 sample_cache, px_sent = []\<rparr>"

definition sample_req :: ChatCompletionRequest where
  "sample_req = \<lparr>cr_Model = ''m'', cr_Messages = [say ''user'' ''time?'' []], cr_Tools = [convert_tool (sample_tool ''clock'' [])],
     cr_ToolChoice = JNull, cr_Temperature = 0, cr_Stream = False\<rparr>"

lemma sample_speaks: "model_speaks sample_chat"
  by (simp add: model_speaks_def sample_chat_def reply_with_def say_def)

lemmas sample_simps = sample_proxy_def sample_chat_def reply_with_def say_def call_of_def sample_request(2)
  executeToolCall_def invocation_result_def forwardToLlamaStack_def send_def tool_message_def

lemma sample_run_lemma:
  "chat_loop maxIterations sample_req sample_proxy = (JSON (reply_with (say ''assistant'' ''noon'' []) ''stop''),
     snd (chat_loop maxIterations sample_req sample_proxy))"
  "forwards (px_sent (snd (chat_loop maxIterations sample_req sample_proxy))) = [sample_req,
     sample_req\<lparr>cr_Messages := cr_Messages sample_req @ [say ''assistant'' [] [call_of ''clock''],
       \<lparr>cm_Role = ''tool'', cm_Content = ''null'', cm_ToolCalls = [], cm_ToolCallID = ''c1'', cm_Name = ''clock''\<rparr>]\<rparr>]"
  by (simp_all add: numeral_eq_Suc sample_simps)


theorem no_empty_tool_message_witness:
  "list_all (\<lambda>f. list_all (\<lambda>m. cm_Content m \<noteq> []) (filter (\<lambda>m. cm_Role m = ''tool'') (cr_Messages f)))
     (forwards (px_sent (snd (handleChatCompletion ''POST'' (Decoded sample_req) (\<lambda>_. RawError []) sample_proxy))))"
proof -
  obtain r p' where h: "handleChatCompletion ''POST'' (Decoded sample_req) (\<lambda>_. RawError []) sample_proxy = (r, p')"
    by (cases "handleChatCompletion ''POST'' (Decoded sample_req) (\<lambda>_. RawError []) sample_proxy")
  have "\<forall>j. px_marshal sample_proxy j \<noteq> []" "model_speaks (px_chat sample_proxy)"
    using sample_speaks by (simp_all add: sample_proxy_def)
  from no_empty_tool_message [OF h this] show ?thesis unfolding h by (auto simp: sample_proxy_def list_all_iff)
qed

section \<open>Defects\<close>

text \<open>The repair of empty contents misses the tool loop. All messages of a request with tools get a
  content before the first forward, because some templates fail without one, but the model's own
  message that asks for a tool has an empty content and is forwarded as it is in the next round.\<close>

theorem blank_in_second_request:
  "let fs = forwards (px_sent (snd (handleChatCompletion ''POST'' (Decoded sample_req) (\<lambda>_. RawError []) sample_proxy)))
   in length fs = 2 \<and> list_all (\<lambda>m. cm_Content m \<noteq> []) (cr_Messages (fs ! 0)) \<and> cr_Tools (fs ! 1) \<noteq> []
      \<and> \<not> list_all (\<lambda>m. cm_Content m \<noteq> []) (cr_Messages (fs ! 1))"
proof -
  have "prepare sample_req sample_proxy = (sample_req, sample_proxy)"
    by (simp add: prepare_def sample_req_def say_def inject_tools_def fill_content_def)
  then have "handleChatCompletion ''POST'' (Decoded sample_req) (\<lambda>_. RawError []) sample_proxy
      = chat_loop maxIterations sample_req sample_proxy"
    by (simp add: handleChatCompletion_def sample_req_def)
  then show ?thesis by (simp only: sample_run_lemma(2)) (simp add: sample_req_def say_def)
qed

text \<open>A legacy tool, known only by its identifier, is advertised under the identifier, but the map from
  tools to groups is keyed by the empty name, so calling it fails; and the blacklist, which
  compares names, does not stop it.\<close>

theorem legacy_tool_lost:
  "of_Name (ot_Function (convert_tool (sample_tool [] ''calc''))) = ''calc''
   \<and> convert_tool (sample_tool [] ''calc'') \<in> set (fst (getToolsForRequest sample_service 7 [] sample_cache))
   \<and> fst (executeToolCall (call_of ''calc'') sample_proxy) = Inl ''tool calc not found in cache''
   \<and> not_blacklisted [''calc''] [sample_tool [] ''calc''] = [sample_tool [] ''calc'']"
  by (simp add: sample_request(1)) (simp add: sample_simps convert_tool_def sample_tool_def tool_name_def not_blacklisted_def)

section \<open>The trace endpoint\<close>

text \<open>The exporter is never given a path or the gRPC port, whatever the environment names.\<close>

theorem otlp_endpoint_shape:
  "CHR ''/'' \<notin> set (otlp_endpoint env) \<and> \<not> has_suffix (otlp_endpoint env) '':4317''"
proof -
  define e where "e = trim_prefix (trim_prefix (if env = [] then ''localhost:4318'' else env) ''http://'') ''https://''"
  define h where "h = takeWhile (\<lambda>d. d \<noteq> CHR ''/'') e"
  have o: "otlp_endpoint env = (if has_suffix h '':4317'' then trim_suffix h '':4317'' @ '':4318'' else h)"
    by (simp add: otlp_endpoint_def Let_def str_index_take e_def h_def)
  have "CHR ''/'' \<notin> set h" by (auto simp: h_def dest: set_takeWhileD)
  then have "CHR ''/'' \<notin> set (trim_suffix h '':4317'' @ '':4318'')"
    by (auto simp: trim_suffix_def dest: in_set_takeD)
  moreover have "\<not> has_suffix (x @ '':4318'') '':4317''" for x by (simp add: has_suffix_def)
  ultimately show ?thesis using \<open>CHR ''/'' \<notin> set h\<close> unfolding o by simp
qed

end
