(* ===== verification/Llama_Concurrent.thy ===== *)
theory Llama_Concurrent
  imports Llama_Spec
begin

text \<open>
  The tool cache of \<^verbatim>\<open>llamastack-proxy\<close> under concurrent requests. Its lock makes each of four actions
  atomic: storing fetched groups, refreshing all tools, rebuilding the keyword index, and a read.
  A request selects its groups, reads their tools and later executes calls, and between those reads
  other requests may take any actions.
\<close>

inductive cache_run :: "ToolCache \<Rightarrow> ToolCache \<Rightarrow> bool" for tc0 where
  start: "cache_run tc0 tc0"
| groups: "cache_run tc0 tc \<Longrightarrow> cache_run tc0 (snd (refreshToolGroups url get tc))"
| tools: "cache_run tc0 tc \<Longrightarrow> cache_run tc0 (refreshAllTools url get_tools now tc)"
| index: "cache_run tc0 tc \<Longrightarrow> cache_run tc0 (buildKeywordIndex tc)"

lemma cache_run_trans: "cache_run tc1 tc2 \<Longrightarrow> cache_run tc0 tc1 \<Longrightarrow> cache_run tc0 tc2"
  by (induction rule: cache_run.induct) (auto intro: cache_run.intros)

text \<open>The operations of the handlers are runs of these actions.\<close>

lemma refreshIfNeeded_run: "cache_run tc (refreshIfNeeded sv now tc)"
proof (cases "needsRefresh now tc")
  case True
  obtain r tc1 where r: "refreshToolGroups (sv_url sv) (sv_groups sv) tc = (r, tc1)" by fastforce
  have "cache_run tc tc1" using cache_run.groups [OF cache_run.start, of tc "sv_url sv" "sv_groups sv"] by (simp add: r)
  then have "cache_run tc (buildKeywordIndex (refreshAllTools (sv_url sv) (sv_tools sv) now tc1))"
    by (intro cache_run.index cache_run.tools)
  then show ?thesis using \<open>cache_run tc tc1\<close> True r by (cases r) (simp_all add: refreshIfNeeded_def)
qed (simp add: refreshIfNeeded_def cache_run.start)

lemma getToolsForRequest_run:
  "cache_run tc (snd (getToolsForRequest sv now msg tc))
   \<and> fst (getToolsForRequest sv now msg tc) = convertToOpenAITools (getToolsForGroups (snd (getToolsForRequest sv now msg tc))
       (selectRelevantToolGroups (snd (getToolsForRequest sv now msg tc)) msg))"
  using refreshIfNeeded_run by (simp add: getToolsForRequest_def Let_def)

section \<open>What every action keeps\<close>

text \<open>The blacklist, and the names that can be called, of which there are only ever more.\<close>

definition keeps_names :: "ToolCache \<Rightarrow> ToolCache \<Rightarrow> bool" where
  "keeps_names tc tc' \<longleftrightarrow> tc_blacklistedTools tc' = tc_blacklistedTools tc
     \<and> fmdom (tc_toolToGroup tc) |\<subseteq>| fmdom (tc_toolToGroup tc')"

lemma keeps_names_refl [simp]: "keeps_names tc tc"
  by (simp add: keeps_names_def)

lemma keeps_names_trans: "keeps_names tc tc1 \<Longrightarrow> keeps_names tc1 tc2 \<Longrightarrow> keeps_names tc tc2"
  by (auto simp: keeps_names_def)

lemma refresh_group_names:
  assumes "refresh_group url get_tools g (all, tc) = (all', tc')"
  shows "keeps_names tc tc'"
  using assms
  by (auto simp: refresh_group_def Let_def keeps_names_def fold_upd_dom fsubset_iff split: reply.splits sum.splits)

lemma fold_refresh_names:
  "fold (refresh_group url get_tools) gs (all, tc) = (all', tc') \<Longrightarrow> keeps_names tc tc'"
proof (induction gs arbitrary: all tc)
  case (Cons g gs)
  obtain a t where a: "refresh_group url get_tools g (all, tc) = (a, t)" by fastforce
  then have "fold (refresh_group url get_tools) gs (a, t) = (all', tc')" using Cons.prems by simp
  from Cons.IH [OF this] refresh_group_names [OF a] show ?case using keeps_names_trans by blast
qed simp

lemma refreshAllTools_names: "keeps_names tc (refreshAllTools url get_tools now tc)"
proof -
  let ?tc = "tc\<lparr>tc_toolsByGroup := fmempty\<rparr>"
  obtain all tc' where f: "fold (refresh_group url get_tools) (tc_toolGroups ?tc) ([], ?tc) = (all, tc')" by fastforce
  from fold_refresh_names [OF this] show ?thesis using f by (simp add: refreshAllTools_def Let_def keeps_names_def)
qed

lemma cache_run_keeps:
  "cache_run tc0 tc \<Longrightarrow> cache_ok tc0 \<Longrightarrow> cache_ok tc \<and> keeps_names tc0 tc"
proof (induction rule: cache_run.induct)
  case (groups tc url get)
  have "keeps_names tc (snd (refreshToolGroups url get tc))"
    by (auto simp: refreshToolGroups_def keeps_names_def split: reply.split sum.split)
  then show ?case using groups refreshToolGroups_ok keeps_names_trans by blast
next
  case (tools tc url get_tools now)
  then show ?case using refreshAllTools_ok refreshAllTools_names keeps_names_trans by blast
next
  case (index tc)
  then show ?case using buildKeywordIndex_ok [of tc] keeps_names_trans [of tc0 tc]
    by (simp add: keeps_names_def buildKeywordIndex_def)
qed simp

text \<open>C33: advertised tools stay callable under concurrency. The tools a request advertises come from the
  cache as it is when it reads them, for the groups it selected before; each that has a name is not
  blacklisted, and whenever the model calls it later, whatever other requests have refreshed in
  between, its name still has a group to be executed in.\<close>

theorem advertised_tools_callable:
  assumes "cache_run (init_cache smart groups blacklist) tc1" "cache_run tc1 tc2" "cache_run tc2 tc3"
    and "ot \<in> set (convertToOpenAITools (getToolsForGroups tc2 (selectRelevantToolGroups tc1 msg)))"
  shows "\<exists>g ts t. g \<in> set (selectRelevantToolGroups tc1 msg) \<and> fmlookup (tc_toolsByGroup tc2) g = Some ts
    \<and> t \<in> set ts \<and> ot = convert_tool t
    \<and> (lt_Name t \<noteq> [] \<longrightarrow> of_Name (ot_Function ot) = lt_Name t \<and> lt_Name t \<notin> set (split_names blacklist)
         \<and> lt_Name t |\<in>| fmdom (tc_toolToGroup tc3))"
proof -
  have "cache_ok (init_cache smart groups blacklist)" by (simp add: init_cache_def cache_ok_def)
  then have k: "cache_ok tc2" "keeps_names (init_cache smart groups blacklist) tc2" "keeps_names tc2 tc3"
    using cache_run_keeps [OF assms(1)] cache_run_keeps [OF assms(2)] cache_run_keeps [OF assms(3)] keeps_names_trans by blast+
  obtain t where t: "ot = convert_tool t" "t \<in> set (getToolsForGroups tc2 (selectRelevantToolGroups tc1 msg))"
    using assms(4) by (auto simp: convertToOpenAITools_def)
  then obtain g ts where g: "g \<in> set (selectRelevantToolGroups tc1 msg)" "fmlookup (tc_toolsByGroup tc2) g = Some ts" "t \<in> set ts"
    by (auto simp: getToolsForGroups_def split: option.splits dest!: sym [of "Some _"])
  have "of_Name (ot_Function ot) = tool_name t" by (simp add: t(1) convert_tool_def case_prod_unfold Let_def)
  moreover have "lt_Name t \<notin> set (split_names blacklist)" "lt_Name t |\<in>| fmdom (tc_toolToGroup tc3)"
    using k g(2,3) by (auto simp: cache_ok_def keeps_names_def init_cache_def)
  ultimately show ?thesis using t(1) g by (auto simp: tool_name_def)
qed

text \<open>The values are a proxy that refreshes, and refreshes again before the tool is called.\<close>

theorem advertised_tools_callable_witness:
  "''clock'' |\<in>| fmdom (tc_toolToGroup (refreshAllTools ''http://stack'' (\<lambda>_. NoReply ''down'') 9 (refreshIfNeeded sample_service 7 sample_cache)))"
proof -
  let ?tc = "refreshIfNeeded sample_service 7 sample_cache"
  have run: "cache_run (init_cache [] [] ''bomb'') ?tc" using refreshIfNeeded_run unfolding sample_cache_def .
  have "convertToOpenAITools (getToolsForGroups ?tc (selectRelevantToolGroups ?tc [])) =
      [convert_tool (sample_tool ''clock'' []), convert_tool (sample_tool [] ''calc'')]"
    using getToolsForRequest_run [of sample_cache sample_service 7 "[]", THEN conjunct2, symmetric] by (simp add: sample_request(1))
  then have "convert_tool (sample_tool ''clock'' []) \<in> set (convertToOpenAITools (getToolsForGroups ?tc (selectRelevantToolGroups ?tc [])))"
    by simp
  from advertised_tools_callable [OF run cache_run.start cache_run.tools [OF cache_run.start] this,
      of "''http://stack''" "\<lambda>_. NoReply ''down''" 9]
  obtain t where "t \<in> {sample_tool ''clock'' [], sample_tool [] ''calc''}" "convert_tool (sample_tool ''clock'' []) = convert_tool t"
    "lt_Name t \<noteq> [] \<longrightarrow> lt_Name t |\<in>| fmdom (tc_toolToGroup (refreshAllTools ''http://stack'' (\<lambda>_. NoReply ''down'') 9 ?tc))"
    by (auto simp: sample_request(3) split: if_splits)
  then show ?thesis by (auto simp: convert_tool_def sample_tool_def tool_name_def)
qed

end
