(* ===== verification/Llama_Main.thy ===== *)
theory Llama_Main
  imports Llama_Concurrent
begin

text \<open>
  \<^verbatim>\<open>llamastack-proxy\<close> as a whole: \<^verbatim>\<open>init\<close> with the environment, the start of \<^verbatim>\<open>main\<close>, its mux and
  the handlers behind it. A run is a list of requests, each with what the world answers meanwhile.
  \<open>env\<close> is \<^verbatim>\<open>os.Getenv\<close>, empty for what is not set. Paths are cleaned already: the mux redirects any
  other path before a handler runs.
\<close>

section \<open>Start and routes\<close>

definition defaultLlamaStackURL :: string where
  "defaultLlamaStackURL = ''http://llamastack.llm.svc.cluster.local:8321''"

definition defaultProxyPort :: string where "defaultProxyPort = ''8322''"

text \<open>The process: where it forwards to, where it listens, its cache, and what it sent to LlamaStack:
  chat requests and tool invocations in \<open>lp_sent\<close>, other requests in \<open>lp_through\<close>.\<close>

record llama_process =
  lp_url :: string
  lp_addr :: string
  lp_cache :: ToolCache
  lp_sent :: "outgoing list"
  lp_through :: "http_request list"

definition llama_init :: "(string \<Rightarrow> string) \<Rightarrow> llama_process" where
  "llama_init env =
     (let url = env ''LLAMASTACK_URL''; url = (if url = [] then defaultLlamaStackURL else url);
          port = env ''PROXY_PORT''; port = (if port = [] then defaultProxyPort else port)
      in \<lparr>lp_url = url, lp_addr = ''0.0.0.0:'' @ port,
          lp_cache = init_cache (env ''ENABLE_SMART_TOOL_FILTERING'') (env ''TOOL_GROUPS_FILTER'') (env ''TOOLS_BLACKLIST''),
          lp_sent = [], lp_through = []\<rparr>)"

datatype llama_route = LChat | LModels | LThrough | LHealth | LCacheStatus | LCacheRefresh

definition llama_route :: "string \<Rightarrow> llama_route" where
  "llama_route path =
     (if path = ''/openai/v1/chat/completions'' then LChat
      else if path = ''/v1/chat/completions'' then LChat
      else if path = ''/openai/v1/models'' then LModels
      else if path = ''/v1/models'' then LModels
      else if path = ''/openai/v1/embeddings'' then LThrough
      else if path = ''/v1/embeddings'' then LThrough
      else if path = ''/health'' then LHealth
      else if path = ''/admin/cache/status'' then LCacheStatus
      else if path = ''/admin/cache/refresh'' then LCacheRefresh
      else LThrough)"

section \<open>Requests\<close>

record llama_request =
  lq_Method :: string
  lq_Path :: string
  lq_Query :: string
  lq_Header :: headers
  lq_Body :: "string option"

text \<open>What the world does while one request is served: LlamaStack's answers, the JSON package and
  the clock.\<close>

record llama_world =
  lw_groups :: "string \<Rightarrow> ToolGroupInfo list reply"
  lw_tools :: "string \<Rightarrow> LlamaStackTool list reply"
  lw_models :: "string \<Rightarrow> string list reply"
  lw_chat :: "nat \<Rightarrow> ChatCompletionRequest \<Rightarrow> ChatCompletionResponse reply"
  lw_stream :: "ChatCompletionRequest \<Rightarrow> raw_reply"
  lw_invoke :: "nat \<Rightarrow> ToolInvocationRequest \<Rightarrow> ToolInvocationResult reply"
  lw_creatable :: "http_request \<Rightarrow> bool"
  lw_client :: "http_request \<Rightarrow> raw_reply"
  lw_decode :: "string \<Rightarrow> ChatCompletionRequest option"
  lw_args :: "string \<Rightarrow> string + (string, json) fmap"
  lw_marshal :: "json \<Rightarrow> string"
  lw_now :: int

datatype llama_reply =
  ChatReply "ChatCompletionResponse http_response"
| ModelsReply "OpenAIModel list http_response"
| ThroughReply "unit http_response"
| HealthReply int string
| StatusReply CacheStatus
| RefreshReply "unit http_response"

definition chat_body :: "llama_world \<Rightarrow> llama_request \<Rightarrow> ChatCompletionRequest body" where
  "chat_body w r = (case lq_Body r of None \<Rightarrow> Unreadable
     | Some text \<Rightarrow> (case lw_decode w text of None \<Rightarrow> Undecodable | Some req \<Rightarrow> Decoded req))"

definition through_body :: "llama_request \<Rightarrow> string body" where
  "through_body r = (case lq_Body r of None \<Rightarrow> Unreadable | Some text \<Rightarrow> Decoded text)"

definition service_of :: "llama_world \<Rightarrow> llama_process \<Rightarrow> service" where
  "service_of w p = \<lparr>sv_url = lp_url p, sv_groups = lw_groups w, sv_tools = lw_tools w\<rparr>"

text \<open>The process as the chat handler sees it; its calls are numbered from 0.\<close>

definition chat_proxy :: "llama_world \<Rightarrow> llama_process \<Rightarrow> proxy" where
  "chat_proxy w p = \<lparr>px_service = service_of w p, px_chat = lw_chat w, px_invoke = lw_invoke w,
     px_args = lw_args w, px_marshal = lw_marshal w, px_now = lw_now w, px_cache = lp_cache p, px_sent = []\<rparr>"

definition handleHealth :: llama_reply where
  "handleHealth = HealthReply 200 ''healthy''"

definition llama_serve :: "llama_world \<Rightarrow> llama_request \<Rightarrow> llama_process \<Rightarrow> llama_reply \<times> llama_process" where
  "llama_serve w r p = (case llama_route (lq_Path r) of
       LChat \<Rightarrow> (let (reply, px) = handleChatCompletion (lq_Method r) (chat_body w r) (lw_stream w) (chat_proxy w p)
                 in (ChatReply reply, p\<lparr>lp_cache := px_cache px, lp_sent := lp_sent p @ px_sent px\<rparr>))
     | LModels \<Rightarrow> (ModelsReply (handleModels (lp_url p) (lq_Query r) (lw_models w) (lw_now w div 10 ^ 9)), p)
     | LThrough \<Rightarrow> (let (reply, sent) = handleGenericProxy (lp_url p) (lq_Method r) (lq_Path r) (lq_Query r) (lq_Header r)
                        (through_body r) (lw_creatable w) (lw_client w)
                    in (ThroughReply reply, p\<lparr>lp_through := lp_through p @ (case sent of None \<Rightarrow> [] | Some q \<Rightarrow> [q])\<rparr>))
     | LHealth \<Rightarrow> (handleHealth, p)
     | LCacheStatus \<Rightarrow> (StatusReply (handleCacheStatus (lp_cache p)), p)
     | LCacheRefresh \<Rightarrow> (let (reply, tc) = handleCacheRefresh (lq_Method r) (service_of w p) (lw_now w) (lp_cache p)
                         in (RefreshReply reply, p\<lparr>lp_cache := tc\<rparr>)))"

text \<open>The start: without LlamaStack the proxy goes on with an empty cache. The first component is what
  \<^verbatim>\<open>main\<close> warns of.\<close>

definition llama_main :: "(string \<Rightarrow> string) \<Rightarrow> llama_world \<Rightarrow> string option \<times> llama_process" where
  "llama_main env w =
     (let p = llama_init env;
          (r, tc) = initializeToolCache (service_of w p) (lw_now w) (lp_cache p)
      in (case r of Inl err \<Rightarrow> Some err | Inr _ \<Rightarrow> None, p\<lparr>lp_cache := tc\<rparr>))"

fun serve_all :: "(llama_world \<times> llama_request) list \<Rightarrow> llama_process \<Rightarrow> llama_process" where
  "serve_all [] p = p"
| "serve_all ((w, r) # rs) p = serve_all rs (snd (llama_serve w r p))"

section \<open>The names that can be called\<close>

definition names_ok :: "ToolCache \<Rightarrow> bool" where
  "names_ok tc \<longleftrightarrow> (\<forall>n. n |\<in>| fmdom (tc_toolToGroup tc) \<longrightarrow> n \<notin> set (tc_blacklistedTools tc))"

lemma refresh_group_names_ok:
  assumes "names_ok tc" "refresh_group url get g (all, tc) = (all', tc')"
  shows "names_ok tc'"
  using assms
  by (auto simp: names_ok_def refresh_group_def Let_def not_blacklisted_def fold_upd_dom list_ex_iff
      split: reply.splits sum.splits)

lemma fold_refresh_names_ok:
  "names_ok tc \<Longrightarrow> fold (refresh_group url get) gs (all, tc) = (all', tc') \<Longrightarrow> names_ok tc'"
proof (induction gs arbitrary: all tc)
  case (Cons g gs)
  obtain a t where a: "refresh_group url get g (all, tc) = (a, t)" by fastforce
  then show ?case using Cons.IH [OF refresh_group_names_ok [OF Cons.prems(1) a]] Cons.prems(2) by simp
qed simp

lemma refreshAllTools_names_ok: "names_ok tc \<Longrightarrow> names_ok (refreshAllTools url get now tc)"
proof -
  assume ok: "names_ok tc"
  let ?tc = "tc\<lparr>tc_toolsByGroup := fmempty\<rparr>"
  obtain all tc' where f: "fold (refresh_group url get) (tc_toolGroups ?tc) ([], ?tc) = (all, tc')" by fastforce
  have "names_ok ?tc" using ok by (simp add: names_ok_def)
  from fold_refresh_names_ok [OF this f] show ?thesis using f by (simp add: refreshAllTools_def Let_def names_ok_def)
qed

text \<open>Concurrent requests included, no action on the cache makes a blacklisted name callable.\<close>

lemma cache_run_names_ok: "cache_run tc0 tc \<Longrightarrow> names_ok tc0 \<Longrightarrow> names_ok tc"
proof (induction rule: cache_run.induct)
  case (groups tc url get)
  then show ?case by (auto simp: refreshToolGroups_def names_ok_def split: reply.split sum.split)
next
  case (tools tc url get_tools now)
  then show ?case by (intro refreshAllTools_names_ok) simp
qed (simp_all add: names_ok_def buildKeywordIndex_def)

lemma cache_run_blacklist: "cache_run tc0 tc \<Longrightarrow> tc_blacklistedTools tc = tc_blacklistedTools tc0"
proof (induction rule: cache_run.induct)
  case (groups tc url get)
  then show ?case by (auto simp: refreshToolGroups_def split: reply.split sum.split)
next
  case (tools tc url get_tools now)
  then show ?case using refreshAllTools_names [of tc url get_tools now] by (simp add: keeps_names_def)
qed (simp_all add: buildKeywordIndex_def)

lemma refresh_run:
  assumes "refreshToolGroups url get tc = (r, tc1)"
  shows "cache_run tc tc1" "cache_run tc (buildKeywordIndex (refreshAllTools url' get_tools now tc1))"
proof -
  show "cache_run tc tc1" using cache_run.groups [OF cache_run.start, of tc url get] by (simp add: assms)
  then show "cache_run tc (buildKeywordIndex (refreshAllTools url' get_tools now tc1))"
    by (intro cache_run.index cache_run.tools)
qed

lemma initializeToolCache_run: "cache_run tc (snd (initializeToolCache sv now tc))"
  by (auto simp: initializeToolCache_def split: prod.split sum.split intro: refresh_run)

lemma handleCacheRefresh_run: "cache_run tc (snd (handleCacheRefresh meth sv now tc))"
  by (auto simp: handleCacheRefresh_def cache_run.start split: prod.split sum.split intro: refresh_run)

section \<open>What the chat handler invokes\<close>

text \<open>The invocations sent so far name no tool of \<open>bl\<close>, the blacklist, and none of its names can be called.\<close>

definition calls_ok :: "string list \<Rightarrow> proxy \<Rightarrow> bool" where
  "calls_ok bl p \<longleftrightarrow> tc_blacklistedTools (px_cache p) = bl \<and> names_ok (px_cache p)
     \<and> (\<forall>t. Invoke t \<in> set (px_sent p) \<longrightarrow> ti_ToolName t \<notin> set bl)"

lemma calls_ok_send: "calls_ok bl p \<Longrightarrow> calls_ok bl (send (Forward req) p)"
  by (auto simp: calls_ok_def send_def)

lemma executeToolCall_calls:
  assumes "calls_ok bl p" "executeToolCall tc p = (r, p')"
  shows "calls_ok bl p'"
  using assms
  by (auto simp: executeToolCall_def calls_ok_def names_ok_def send_def Let_def fmdomI split: sum.splits option.splits)

lemma run_calls_calls: "run_calls tcs p = (ms, p') \<Longrightarrow> calls_ok bl p \<Longrightarrow> calls_ok bl p'"
proof (induction tcs arbitrary: p ms)
  case (Cons tc tcs)
  obtain r q where r: "executeToolCall tc p = (r, q)" by fastforce
  then show ?case using Cons executeToolCall_calls [OF Cons.prems(2) r] by (auto split: prod.splits)
qed simp

lemma repair_calls: "repair before ms p = (out, p') \<Longrightarrow> calls_ok bl p \<Longrightarrow> calls_ok bl p'"
proof (induction before ms p arbitrary: out rule: repair.induct)
  case (2 before m ms p)
  show ?case
  proof (cases "cm_Role m = ''tool'' \<and> cm_Content m = []")
    case False
    then show ?thesis using "2.IH"(4) [OF False] "2.prems" by (simp only: repair.simps if_False)
  next
    case True
    show ?thesis
    proof (cases "find_call (cm_ToolCallID m) before")
      case None
      then show ?thesis using "2.IH"(1) [OF True None] "2.prems" True by simp
    next
      case (Some tc)
      obtain r q where r: "executeToolCall tc p = (r, q)" by fastforce
      note q = executeToolCall_calls [OF "2.prems"(2) r]
      show ?thesis
        using "2.IH"(2,3) [OF True Some r [symmetric]] "2.prems"(1) True Some r q by (cases r) auto
    qed
  qed
qed simp

lemma inject_tools_calls:
  assumes "inject_tools req p = (req', p')" "calls_ok bl p"
  shows "calls_ok bl p'"
proof -
  have "cache_run (px_cache p) (px_cache p')" "px_sent p' = px_sent p"
    using assms(1) getToolsForRequest_run [of "px_cache p" "px_service p" "px_now p" "last_user (rev (cr_Messages req))"]
    by (auto simp: inject_tools_def cache_run.start split: if_splits prod.splits)
  then show ?thesis using assms(2) cache_run_names_ok cache_run_blacklist unfolding calls_ok_def by metis
qed

lemma chat_loop_calls: "chat_loop n req p = (r, p') \<Longrightarrow> calls_ok bl p \<Longrightarrow> calls_ok bl p'"
proof (induction n arbitrary: req p)
  case (Suc n)
  obtain a q where a: "forwardToLlamaStack req p = (a, q)" by fastforce
  have q: "calls_ok bl q"
    using a calls_ok_send [OF Suc.prems(2)] by (auto simp: forwardToLlamaStack_def split: reply.splits)
  show ?case
    using Suc.prems(1) a q Suc.IH run_calls_calls [OF _ q]
    by (auto split: sum.splits list.splits if_splits prod.splits)
qed simp

lemma handleChatCompletion_calls:
  assumes "handleChatCompletion meth body stream p = (r, p')" "calls_ok bl p"
  shows "calls_ok bl p'"
proof (cases "\<exists>req. meth = ''POST'' \<and> body = Decoded req")
  case False
  then show ?thesis using assms by (auto simp: handleChatCompletion_def split: if_splits body.splits)
next
  case True
  then obtain req where req: "meth = ''POST''" "body = Decoded req" by blast
  obtain rq q where pr: "prepare req p = (rq, q)" by fastforce
  then have q: "calls_ok bl q"
    using repair_calls [OF _ assms(2)] inject_tools_calls by (fastforce simp: prepare_def split: prod.splits)
  show ?thesis
    using assms(1) req pr chat_loop_calls [OF _ q] calls_ok_send [OF q]
    by (auto simp: handleChatCompletion_def handleStreamingRequest_def simp del: chat_loop.simps split: if_splits raw_reply.splits)
qed

section \<open>Whole runs\<close>

definition filled :: "ChatCompletionRequest \<Rightarrow> bool" where
  "filled f \<longleftrightarrow> (\<forall>m\<in>set (cr_Messages f). cm_Role m = ''tool'' \<longrightarrow> cm_Content m \<noteq> [])"

definition process_ok :: "string \<Rightarrow> string list \<Rightarrow> llama_process \<Rightarrow> bool" where
  "process_ok url bl p \<longleftrightarrow> lp_url p = url \<and> tc_blacklistedTools (lp_cache p) = bl \<and> names_ok (lp_cache p)
     \<and> (\<forall>t. Invoke t \<in> set (lp_sent p) \<longrightarrow> ti_ToolName t \<notin> set bl)
     \<and> (\<forall>f. Forward f \<in> set (lp_sent p) \<longrightarrow> filled f)"

text \<open>A world whose JSON package writes no empty text and whose model speaks as itself.\<close>

definition sane :: "llama_world \<Rightarrow> bool" where
  "sane w \<longleftrightarrow> (\<forall>j. lw_marshal w j \<noteq> []) \<and> model_speaks (lw_chat w)"

lemma forwards_iff: "f \<in> set (forwards os) \<longleftrightarrow> Forward f \<in> set os"
  by (induction os rule: forwards.induct) auto

lemma handleChatCompletion_filled:
  assumes "handleChatCompletion meth body stream p = (r, p')" "\<forall>j. px_marshal p j \<noteq> []" "model_speaks (px_chat p)"
    "px_sent p = []" "Forward f \<in> set (px_sent p')"
  shows "filled f"
proof (cases "\<exists>req. body = Decoded req")
  case True
  then obtain req where "handleChatCompletion meth (Decoded req) stream p = (r, p')" using assms(1) by blast
  from no_empty_tool_message [OF this assms(2,3)] assms(4,5) show ?thesis by (auto simp: filled_def forwards_iff [symmetric])
next
  case False
  then have "p' = p" using assms(1) by (auto simp: handleChatCompletion_def split: if_splits body.splits)
  then show ?thesis using assms(4,5) by simp
qed

lemma cache_run_process:
  "process_ok url bl p \<Longrightarrow> cache_run (lp_cache p) tc \<Longrightarrow> process_ok url bl (p\<lparr>lp_cache := tc\<rparr>)"
  using cache_run_names_ok [of "lp_cache p" tc] cache_run_blacklist [of "lp_cache p" tc] by (simp add: process_ok_def)

lemma llama_serve_ok:
  assumes "process_ok url bl p" "sane w"
  shows "process_ok url bl (snd (llama_serve w r p))"
proof (cases "llama_route (lq_Path r)")
  case LChat
  obtain reply px where h: "handleChatCompletion (lq_Method r) (chat_body w r) (lw_stream w) (chat_proxy w p) = (reply, px)"
    by fastforce
  have c: "calls_ok bl (chat_proxy w p)" using assms(1) by (simp add: calls_ok_def process_ok_def chat_proxy_def)
  have "filled f" if "Forward f \<in> set (px_sent px)" for f
    by (rule handleChatCompletion_filled [OF h _ _ _ that]) (use assms(2) in \<open>simp_all add: sane_def chat_proxy_def\<close>)
  then show ?thesis
    using handleChatCompletion_calls [OF h c] assms(1) LChat h by (auto simp: llama_serve_def process_ok_def calls_ok_def)
next
  case LCacheRefresh
  then show ?thesis using cache_run_process [OF assms(1) handleCacheRefresh_run]
    by (simp add: llama_serve_def split_beta)
qed (use assms(1) in \<open>simp_all add: llama_serve_def process_ok_def split_beta Let_def\<close>)

lemma serve_all_ok: "process_ok url bl p \<Longrightarrow> \<forall>(w, r)\<in>set rs. sane w \<Longrightarrow> process_ok url bl (serve_all rs p)"
  by (induction rs p rule: serve_all.induct) (auto simp: llama_serve_ok)

lemma llama_main_ok:
  "process_ok (lp_url (llama_init env)) (split_names (env ''TOOLS_BLACKLIST'')) (snd (llama_main env w))"
proof -
  have "process_ok (lp_url (llama_init env)) (split_names (env ''TOOLS_BLACKLIST'')) (llama_init env)"
    by (simp add: process_ok_def llama_init_def Let_def init_cache_def names_ok_def)
  from cache_run_process [OF this initializeToolCache_run] show ?thesis by (simp add: llama_main_def split_beta Let_def)
qed


text \<open>The values are a proxy started against the small LlamaStack with one tool on the blacklist, and a
  request in which the model calls the clock: what is sent are two chat requests and one invocation.\<close>

definition sample_env :: "string \<Rightarrow> string" where
  "sample_env key = (if key = ''TOOLS_BLACKLIST'' then ''bomb'' else if key = ''LLAMASTACK_URL'' then sv_url sample_service else [])"

definition sample_world :: "int \<Rightarrow> llama_world" where
  "sample_world now = \<lparr>lw_groups = sv_groups sample_service, lw_tools = sv_tools sample_service, lw_models = (\<lambda>_. NoReply []),
     lw_chat = sample_chat, lw_stream = (\<lambda>_. RawError []), lw_invoke = px_invoke sample_proxy, lw_creatable = (\<lambda>_. True),
     lw_client = (\<lambda>_. RawError []), lw_decode = (\<lambda>_. Some sample_req), lw_args = px_args sample_proxy,
     lw_marshal = px_marshal sample_proxy, lw_now = now\<rparr>"

definition sample_post :: llama_request where
  "sample_post = \<lparr>lq_Method = ''POST'', lq_Path = ''/v1/chat/completions'', lq_Query = [], lq_Header = fmempty, lq_Body = Some []\<rparr>"

lemma sample_start:
  "chat_proxy (sample_world 8) (snd (llama_main sample_env (sample_world 7))) = sample_proxy"
  "lp_sent (snd (llama_main sample_env (sample_world 7))) = []"
proof -
  have sv: "service_of (sample_world 7) (llama_init sample_env) = sample_service"
    "service_of (sample_world 8) (llama_init sample_env\<lparr>lp_cache := tc\<rparr>) = sample_service" for tc
    by (simp_all add: service_of_def sample_world_def llama_init_def Let_def sample_env_def sample_service_def)
  have cache: "lp_cache (llama_init sample_env) = sample_cache"
    by (simp add: llama_init_def Let_def sample_env_def sample_cache_def)
  have "snd (initializeToolCache sample_service 7 sample_cache) = refreshIfNeeded sample_service 7 sample_cache"
    by (simp add: initializeToolCache_def refreshIfNeeded_def needsRefresh_def sample_cache_def init_cache_def
        split: prod.split sum.split)
  then show "chat_proxy (sample_world 8) (snd (llama_main sample_env (sample_world 7))) = sample_proxy"
    by (simp add: llama_main_def split_beta Let_def chat_proxy_def sv cache) (simp add: sample_world_def sample_proxy_def)
  show "lp_sent (snd (llama_main sample_env (sample_world 7))) = []"
    by (simp add: llama_main_def split_beta Let_def) (simp add: llama_init_def Let_def)
qed


text \<open>The blacklist does not hold for what is passed through: a client's own request to LlamaStack's
  invocation endpoint is not one of the routes and goes there as it is.\<close>

lemma blacklist_bypassed:
  assumes "lq_Path r = ''/v1/tool-runtime/invoke''" "lq_Query r = []" "lq_Body r = Some text"
    "lw_creatable w = (\<lambda>_. True)"
  shows "lp_through (snd (llama_serve w r p)) = lp_through p @
    [\<lparr>rq_Method = lq_Method r, rq_URL = lp_url p @ ''/v1/tool-runtime/invoke'', rq_Header = copy_headers (lq_Header r),
      rq_Body = text\<rparr>]"
  using assms
  by (cases "lw_client w \<lparr>rq_Method = lq_Method r, rq_URL = lp_url p @ ''/v1/tool-runtime/invoke'',
      rq_Header = copy_headers (lq_Header r), rq_Body = text\<rparr>")
    (simp_all add: llama_serve_def llama_route_def handleGenericProxy_def through_body_def query_suffix_def Let_def)

end
