(* ===== verification/Sha256.thy ===== *)
theory Sha256
  imports Go_Strings
begin

unbundle bit_operations_syntax

text \<open>
  \<^verbatim>\<open>crypto/sha256\<close> and \<^verbatim>\<open>encoding/hex\<close>, as the OpenHands proxy uses them: the digest of a text
  in lower-case hexadecimal digits.
\<close>

type_synonym u32 = "32 word"

section \<open>Constants\<close>

text \<open>The fractional parts of the square and cube roots of the first primes.\<close>

definition sha_init :: "u32 list" where
  "sha_init = [1779033703, 3144134277, 1013904242, 2773480762, 1359893119, 2600822924, 528734635, 1541459225]"

definition sha_k :: "u32 list" where
  "sha_k =
    [1116352408, 1899447441, 3049323471, 3921009573, 961987163, 1508970993, 2453635748, 2870763221,
     3624381080, 310598401, 607225278, 1426881987, 1925078388, 2162078206, 2614888103, 3248222580,
     3835390401, 4022224774, 264347078, 604807628, 770255983, 1249150122, 1555081692, 1996064986,
     2554220882, 2821834349, 2952996808, 3210313671, 3336571891, 3584528711, 113926993, 338241895,
     666307205, 773529912, 1294757372, 1396182291, 1695183700, 1986661051, 2177026350, 2456956037,
     2730485921, 2820302411, 3259730800, 3345764771, 3516065817, 3600352804, 4094571909, 275423344,
     430227734, 506948616, 659060556, 883997877, 958139571, 1322822218, 1537002063, 1747873779,
     1955562222, 2024104815, 2227730452, 2361852424, 2428436474, 2756734187, 3204031479, 3329325298]"

section \<open>One block\<close>

definition rotr :: "nat \<Rightarrow> u32 \<Rightarrow> u32" where
  "rotr n x = drop_bit n x OR push_bit (32 - n) x"

definition sum0 :: "u32 \<Rightarrow> u32" where
  "sum0 x = rotr 2 x XOR rotr 13 x XOR rotr 22 x"

definition sum1 :: "u32 \<Rightarrow> u32" where
  "sum1 x = rotr 6 x XOR rotr 11 x XOR rotr 25 x"

definition sig0 :: "u32 \<Rightarrow> u32" where
  "sig0 x = rotr 7 x XOR rotr 18 x XOR drop_bit 3 x"

definition sig1 :: "u32 \<Rightarrow> u32" where
  "sig1 x = rotr 17 x XOR rotr 19 x XOR drop_bit 10 x"

text \<open>The schedule is extended at its end, one word per step.\<close>

fun extend :: "nat \<Rightarrow> u32 list \<Rightarrow> u32 list" where
  "extend 0 w = w"
| "extend (Suc n) w = (let i = length w in
     extend n (w @ [sig1 (w ! (i - 2)) + w ! (i - 7) + sig0 (w ! (i - 15)) + w ! (i - 16)]))"

type_synonym chain = "u32 \<times> u32 \<times> u32 \<times> u32 \<times> u32 \<times> u32 \<times> u32 \<times> u32"

fun compress :: "u32 \<times> u32 \<Rightarrow> chain \<Rightarrow> chain" where
  "compress (k, w) (a, b, c, d, e, f, g, h) =
     (let t1 = h + sum1 e + ((e AND f) XOR (NOT e AND g)) + k + w;
          t2 = sum0 a + ((a AND b) XOR (a AND c) XOR (b AND c))
      in (t1 + t2, a, b, c, d + t1, e, f, g))"

fun chain_add :: "chain \<Rightarrow> chain \<Rightarrow> chain" where
  "chain_add (a, b, c, d, e, f, g, h) (a', b', c', d', e', f', g', h') =
     (a + a', b + b', c + c', d + d', e + e', f + f', g + g', h + h')"

definition block :: "u32 list \<Rightarrow> chain \<Rightarrow> chain" where
  "block ws s = chain_add s (fold compress (zip sha_k (extend 48 ws)) s)"

section \<open>Messages\<close>

text \<open>Bytes of a number, most significant first.\<close>

fun be_bytes :: "nat \<Rightarrow> nat \<Rightarrow> nat list" where
  "be_bytes 0 n = []"
| "be_bytes (Suc k) n = be_bytes k (n div 256) @ [n mod 256]"

definition pad :: "nat list \<Rightarrow> nat list" where
  "pad bs = bs @ [128] @ replicate ((119 - length bs mod 64) mod 64) 0 @ be_bytes 8 (8 * length bs mod 2 ^ 64)"

fun be_words :: "nat list \<Rightarrow> u32 list" where
  "be_words (a # b # c # d # bs) = of_nat (((a * 256 + b) * 256 + c) * 256 + d) # be_words bs"
| "be_words _ = []"

fun blocks :: "nat \<Rightarrow> u32 list \<Rightarrow> chain \<Rightarrow> chain" where
  "blocks 0 ws s = s"
| "blocks (Suc n) ws s = blocks n (drop 16 ws) (block (take 16 ws) s)"

fun chain_list :: "chain \<Rightarrow> u32 list" where
  "chain_list (a, b, c, d, e, f, g, h) = [a, b, c, d, e, f, g, h]"

definition sha256 :: "string \<Rightarrow> nat list" where
  "sha256 s = (let bs = pad (map byte s); i = sha_init
     in concat (map (\<lambda>w. be_bytes 4 (unat w))
          (chain_list (blocks (length bs div 64) (be_words bs)
             (i ! 0, i ! 1, i ! 2, i ! 3, i ! 4, i ! 5, i ! 6, i ! 7)))))"

definition hex_digit :: "nat \<Rightarrow> char" where
  "hex_digit n = (if n < 10 then mk_byte (48 + n) else mk_byte (87 + n))"

definition hex_string :: "nat list \<Rightarrow> string" where
  "hex_string bs = concat (map (\<lambda>b. [hex_digit (b div 16), hex_digit (b mod 16)]) bs)"

section \<open>Shape\<close>

lemma length_be_bytes [simp]: "length (be_bytes k n) = k"
  by (induction k arbitrary: n) simp_all

lemma length_chain_list [simp]: "length (chain_list c) = 8"
  by (cases c rule: chain_list.cases) simp

lemma length_concat_const: "(\<And>x. x \<in> set xs \<Longrightarrow> length (f x) = n) \<Longrightarrow> length (concat (map f xs)) = n * length xs"
  by (induction xs) simp_all

lemma length_sha256: "length (sha256 s) = 32"
  unfolding sha256_def Let_def by (subst length_concat_const [where n = 4]) simp_all

lemma length_hex_string: "length (hex_string bs) = 2 * length bs"
  unfolding hex_string_def by (subst length_concat_const [where n = 2]) simp_all

lemma pad_blocks: "length (pad bs) mod 64 = 0"
proof -
  define r where "r = length bs mod 64"
  have r: "r < 64" "length bs = 64 * (length bs div 64) + r" by (simp_all add: r_def)
  have "(r + 1 + (119 - r) mod 64 + 8) mod 64 = 0"
  proof (cases "r < 56")
    case True
    then have "(119 - r) mod 64 = 55 - r" by (simp add: mod_if)
    then show ?thesis using True by simp
  next
    case False
    then have "(119 - r) mod 64 = 119 - r" using r(1) by simp
    then show ?thesis using r(1) False by simp
  qed
  then have "(64 * (length bs div 64) + (r + 1 + (119 - r) mod 64 + 8)) mod 64 = 0"
    by (simp only: mod_mult_self4)
  moreover have "length (pad bs) = 64 * (length bs div 64) + (r + 1 + (119 - r) mod 64 + 8)"
    using r(2) by (simp add: pad_def flip: r_def)
  ultimately show ?thesis by simp
qed

end
