(* ===== verification/Conv_Proxy.thy ===== *)
theory Conv_Proxy
  imports Go_Http Sha256
begin

text \<open>
  \<^verbatim>\<open>openwebui-openhands-proxy/main.go\<close>: the proxy that keeps one OpenHands conversation per chat
  thread. The store is a map from thread keys to conversation ids, persisted by writing a temporary
  file and renaming it; the file system and the outcome of each save are part of the state. A nil
  map is \<^term>\<open>None\<close>: it can be read, and writing to it panics. The upstream is a parameter that may
  answer every request differently. \<open>decode\<close> is \<^verbatim>\<open>json.Unmarshal\<close> of a body into its messages and
  \<open>marshal\<close> the JSON text of a value. Tracing and logging are not modelled.
\<close>

section \<open>The store\<close>

text \<open>A file: an object of strings, the text \<^verbatim>\<open>null\<close>, or bytes that do not decode to either.\<close>

datatype conv_file = ConvMap "(string, string) fmap" | ConvNull | ConvJunk

text \<open>How a save ends; a failed write leaves nothing or something in the temporary file.\<close>

datatype conv_save = DirFails | TmpFails "conv_file option" | MoveFails | Moved

record conv_store =
  cv_entries :: "(string, string) fmap option"
  cv_path :: string
  cv_fs :: "(string, conv_file) fmap"
  cv_env :: "nat \<Rightarrow> conv_save"
  cv_saves :: nat

definition marshal_entries :: "(string, string) fmap option \<Rightarrow> conv_file" where
  "marshal_entries e = (case e of None \<Rightarrow> ConvNull | Some m \<Rightarrow> ConvMap m)"

definition load :: "bool \<Rightarrow> conv_store \<Rightarrow> conv_store" where
  "load readable s = (case fmlookup (cv_fs s) (cv_path s) of
       None \<Rightarrow> s
     | Some f \<Rightarrow>
         if \<not> readable then s
         else (case f of
             ConvMap m \<Rightarrow> s\<lparr>cv_entries := map_option (\<lambda>e. e ++\<^sub>f m) (cv_entries s)\<rparr>
           | ConvNull \<Rightarrow> s\<lparr>cv_entries := None\<rparr>
           | ConvJunk \<Rightarrow> s\<lparr>cv_entries := Some fmempty\<rparr>))"

definition newStore :: "string \<Rightarrow> bool \<Rightarrow> (string, conv_file) fmap \<Rightarrow> (nat \<Rightarrow> conv_save) \<Rightarrow> conv_store" where
  "newStore path readable fs env = load readable
     \<lparr>cv_entries = Some fmempty, cv_path = path, cv_fs = fs, cv_env = env, cv_saves = 0\<rparr>"

definition save_entries :: "conv_store \<Rightarrow> conv_store" where
  "save_entries s =
     (if cv_path s = [] then s
      else let tmp = cv_path s @ ''.tmp''; data = marshal_entries (cv_entries s);
               s' = s\<lparr>cv_saves := Suc (cv_saves s)\<rparr>
           in case cv_env s (cv_saves s) of
             DirFails \<Rightarrow> s'
           | TmpFails part \<Rightarrow>
               s'\<lparr>cv_fs := (case part of None \<Rightarrow> fmdrop tmp (cv_fs s) | Some f \<Rightarrow> fmupd tmp f (cv_fs s))\<rparr>
           | MoveFails \<Rightarrow> s'\<lparr>cv_fs := fmupd tmp data (cv_fs s)\<rparr>
           | Moved \<Rightarrow> s'\<lparr>cv_fs := fmupd (cv_path s) data (fmdrop tmp (cv_fs s))\<rparr>)"

definition get_conv :: "string \<Rightarrow> conv_store \<Rightarrow> string \<times> bool" where
  "get_conv key s = (case cv_entries s of
       None \<Rightarrow> ([], False)
     | Some m \<Rightarrow> (fm_get [] m key, key |\<in>| fmdom m))"

definition set_conv :: "string \<Rightarrow> string \<Rightarrow> conv_store \<Rightarrow> conv_store option" where
  "set_conv key i s =
     (if key = [] \<or> i = [] then Some s
      else if fst (get_conv key s) = i then Some s
      else (case cv_entries s of
          None \<Rightarrow> None
        | Some m \<Rightarrow> Some (save_entries (s\<lparr>cv_entries := Some (fmupd key i m)\<rparr>))))"

section \<open>Thread keys\<close>

record chat_message =
  mg_Role :: string
  mg_Content :: json

definition text_parts :: "json list \<Rightarrow> string" where
  "text_parts ps = concat (map (\<lambda>p. case p of
       JObj m \<Rightarrow> (case fmlookup m ''text'' of Some (JStr t) \<Rightarrow> t | _ \<Rightarrow> [])
     | _ \<Rightarrow> []) ps)"

definition hashContent :: "(json \<Rightarrow> string) \<Rightarrow> json \<Rightarrow> string" where
  "hashContent marshal c = hex_string (sha256 (case c of
       JStr t \<Rightarrow> t
     | JArr ps \<Rightarrow> text_parts ps
     | _ \<Rightarrow> marshal c))"

definition extractThreadKey :: "(string \<Rightarrow> chat_message list option) \<Rightarrow> (json \<Rightarrow> string) \<Rightarrow> string \<Rightarrow> string" where
  "extractThreadKey decode marshal body = (case decode body of
       None \<Rightarrow> []
     | Some ms \<Rightarrow> (case List.find (\<lambda>m. equal_fold (mg_Role m) ''user'') ms of
           None \<Rightarrow> []
         | Some m \<Rightarrow> hashContent marshal (mg_Content m)))"

section \<open>The chat completions handler\<close>

definition convHeader :: string where "convHeader = ''X-OpenHands-ServerConversation-ID''"

record inbound =
  ib_Method :: string
  ib_Path :: string
  ib_Query :: string
  ib_Header :: headers
  ib_Body :: "string + string"

record gateway =
  gw_store :: conv_store
  gw_upstream :: string
  gw_creatable :: "http_request \<Rightarrow> string option"
  gw_client :: "nat \<Rightarrow> http_request \<Rightarrow> raw_reply"
  gw_sent :: "http_request list"

definition upstream_request :: "string \<Rightarrow> string \<Rightarrow> inbound \<Rightarrow> gateway \<Rightarrow> http_request" where
  "upstream_request inject body r g =
     \<lparr>rq_Method = ib_Method r, rq_URL = gw_upstream g @ ib_Path r @ query_suffix (ib_Query r),
      rq_Header = (if inject \<noteq> [] then hdr_set convHeader inject (ib_Header r)
                   else hdr_del convHeader (ib_Header r)),
      rq_Body = body\<rparr>"

definition doForward :: "string \<Rightarrow> string \<Rightarrow> inbound \<Rightarrow> gateway \<Rightarrow> raw_reply \<times> gateway" where
  "doForward inject body r g =
     (let up = upstream_request inject body r g in
      case gw_creatable g up of
        Some err \<Rightarrow> (RawError err, g)
      | None \<Rightarrow> (gw_client g (length (gw_sent g)) up, g\<lparr>gw_sent := gw_sent g @ [up]\<rparr>))"

text \<open>The retry after a rejected id. When it fails the first response goes on, its body closed.\<close>

definition heal :: "bool \<Rightarrow> string \<Rightarrow> inbound \<Rightarrow> int \<times> headers \<times> string \<Rightarrow> gateway
    \<Rightarrow> (int \<times> headers \<times> string) \<times> gateway" where
  "heal had body r resp g = (case resp of (status, hdrs, text) \<Rightarrow>
     if had \<and> status \<ge> 400
     then (case doForward [] body r g of
         (Raw status2 hdrs2 text2, g) \<Rightarrow> ((status2, hdrs2, text2), g)
       | (RawError _, g) \<Rightarrow> ((status, hdrs, []), g))
     else (resp, g))"

definition relay_headers :: "headers \<Rightarrow> headers" where
  "relay_headers h =
     (let w = fold (\<lambda>(k, vs) w. if equal_fold k convHeader then w else fold (hdr_add k) vs w)
                (sorted_list_of_fmap h) fmempty;
          i = hdr_get h convHeader
      in if i \<noteq> [] then hdr_set convHeader i w else w)"

definition lookup_thread :: "string \<Rightarrow> conv_store \<Rightarrow> string \<times> bool" where
  "lookup_thread key s = (if key \<noteq> [] then get_conv key s else ([], False))"

definition remember :: "string \<Rightarrow> string \<Rightarrow> conv_store \<Rightarrow> conv_store option" where
  "remember key i s = (if key \<noteq> [] \<and> i \<noteq> [] then set_conv key i s else Some s)"

text \<open>The mapping and the response. A handler that panics aborts its connection (no response) and the
  server goes on.\<close>

fun answer :: "string \<Rightarrow> (int \<times> headers \<times> string) \<times> gateway \<Rightarrow> unit http_response option \<times> gateway" where
  "answer key ((status, hdrs, text), g) = (case remember key (hdr_get hdrs convHeader) (gw_store g) of
       None \<Rightarrow> (None, g)
     | Some s \<Rightarrow> (Some (Passed status (relay_headers hdrs) text), g\<lparr>gw_store := s\<rparr>))"

definition chatCompletionsHandler :: "(string \<Rightarrow> chat_message list option) \<Rightarrow> (json \<Rightarrow> string) \<Rightarrow> inbound
    \<Rightarrow> gateway \<Rightarrow> unit http_response option \<times> gateway" where
  "chatCompletionsHandler decode marshal r g = (case ib_Body r of
       Inl err \<Rightarrow> (Some (Failure 400 (''read request body: '' @ err)), g)
     | Inr body \<Rightarrow>
         (let key = extractThreadKey decode marshal body;
              (convID, had) = lookup_thread key (gw_store g)
          in case doForward convID body r g of
            (RawError err, g) \<Rightarrow> (Some (Failure 502 (''upstream: '' @ err)), g)
          | (Raw status hdrs text, g) \<Rightarrow> answer key (heal had body r (status, hdrs, text) g)))"

text \<open>What the director of the transparent proxy makes of a request: scheme and host of the upstream
  (\<open>origin\<close>) and no conversation id.\<close>

definition director :: "string \<Rightarrow> string \<Rightarrow> inbound \<Rightarrow> http_request" where
  "director origin body r = \<lparr>rq_Method = ib_Method r, rq_URL = origin @ ib_Path r @ query_suffix (ib_Query r),
     rq_Header = hdr_del convHeader (ib_Header r), rq_Body = body\<rparr>"

text \<open>The routes of the mux, for cleaned paths.\<close>

datatype route = RChat | RHealth | RProxy

definition route_of :: "string \<Rightarrow> route" where
  "route_of path = (if path = ''/v1/chat/completions'' then RChat
     else if path = ''/healthz'' \<or> path = ''/alive'' then RHealth else RProxy)"

definition env_or :: "(string \<Rightarrow> string) \<Rightarrow> string \<Rightarrow> string \<Rightarrow> string" where
  "env_or getenv key dflt = (if getenv key \<noteq> [] then getenv key else dflt)"

definition short :: "string \<Rightarrow> string" where
  "short s = (if length s \<le> 12 then s else take 12 s)"

end
