(* ===== verification/Conv_Spec.thy ===== *)
theory Conv_Spec
  imports Conv_Proxy Saved_File
begin

text \<open>
  What the OpenHands proxy promises: which conversation id goes upstream, how the mapping follows the
  answers, what a restart finds, and two situations in which it fails.
\<close>

section \<open>The store\<close>

lemma save_entries_frame [simp]:
  "cv_entries (save_entries s) = cv_entries s" "cv_path (save_entries s) = cv_path s"
  "cv_env (save_entries s) = cv_env s"
  by (auto simp: save_entries_def Let_def split: conv_save.split option.split)

lemma save_entries_file:
  "fmlookup (cv_fs (save_entries s)) (cv_path s) =
     (if cv_path s \<noteq> [] \<and> cv_env s (cv_saves s) = Moved then Some (marshal_entries (cv_entries s))
      else fmlookup (cv_fs s) (cv_path s))"
  by (auto simp: save_entries_def Let_def split: conv_save.split option.split)

lemma save_entries_saves: "cv_saves (save_entries s) = (if cv_path s = [] then cv_saves s else Suc (cv_saves s))"
  by (auto simp: save_entries_def Let_def split: conv_save.split option.split)

text \<open>What one write does: the mapping of its key, the file, and nothing else.\<close>

lemma set_conv_some:
  assumes "set_conv k i s = Some s'"
  shows "cv_path s' = cv_path s" "cv_env s' = cv_env s"
    "get_conv j s' = (if j = k \<and> k \<noteq> [] \<and> i \<noteq> [] then (i, fst (get_conv k s) = i \<longrightarrow> snd (get_conv k s)) else get_conv j s)"
    "cv_entries s = Some m \<Longrightarrow> \<exists>m'. cv_entries s' = Some m'"
  using assms
  by (auto simp: set_conv_def get_conv_def fm_get_def split: if_splits option.splits)

lemma get_conv_known: "fst (get_conv k s) \<noteq> [] \<Longrightarrow> snd (get_conv k s)"
  by (auto simp: get_conv_def fm_get_def fmlookup_dom_iff split: option.splits)

lemma set_conv_get:
  "set_conv k i s = Some s' \<Longrightarrow> k \<noteq> [] \<Longrightarrow> i \<noteq> [] \<Longrightarrow> get_conv k s' = (i, True)"
  using set_conv_some(3) [of k i s s' k] get_conv_known [of k s] by auto

lemma set_conv_file:
  assumes "set_conv k i s = Some s'" "cv_path s \<noteq> []"
  shows "fmlookup (cv_fs s') (cv_path s) =
      (if cv_saves s' \<noteq> cv_saves s \<and> cv_env s (cv_saves s) = Moved
       then Some (marshal_entries (cv_entries s')) else fmlookup (cv_fs s) (cv_path s))"
    "cv_saves s' = cv_saves s \<Longrightarrow> cv_entries s' = cv_entries s"
proof -
  consider "s' = s" | m where "s' = save_entries (s\<lparr>cv_entries := Some (fmupd k i m)\<rparr>)"
    using assms(1) by (auto simp: set_conv_def split: if_splits option.splits)
  then have "fmlookup (cv_fs s') (cv_path s) =
      (if cv_saves s' \<noteq> cv_saves s \<and> cv_env s (cv_saves s) = Moved
       then Some (marshal_entries (cv_entries s')) else fmlookup (cv_fs s) (cv_path s))
    \<and> (cv_saves s' = cv_saves s \<longrightarrow> cv_entries s' = cv_entries s)"
  proof cases
    case (2 m)
    then show ?thesis
      using save_entries_file [of "s\<lparr>cv_entries := Some (fmupd k i m)\<rparr>"] assms(2)
      by (simp add: save_entries_saves)
  qed simp
  then show "fmlookup (cv_fs s') (cv_path s) =
      (if cv_saves s' \<noteq> cv_saves s \<and> cv_env s (cv_saves s) = Moved
       then Some (marshal_entries (cv_entries s')) else fmlookup (cv_fs s) (cv_path s))"
    "cv_saves s' = cv_saves s \<Longrightarrow> cv_entries s' = cv_entries s" by simp_all
qed

section \<open>The handler\<close>

lemma heal_store [simp]: "gw_store (snd (heal had body r resp g)) = gw_store g"
  by (auto simp: heal_def doForward_def Let_def split: prod.split raw_reply.split option.split)

lemma doForward_frame:
  "doForward i body r g = (x, g') \<Longrightarrow> gw_store g' = gw_store g \<and> gw_upstream g' = gw_upstream g
    \<and> gw_creatable g' = gw_creatable g \<and> gw_client g' = gw_client g
    \<and> (\<exists>us. gw_sent g' = gw_sent g @ us \<and> set us \<subseteq> {upstream_request i body r g} \<and> length us \<le> 1
         \<and> (gw_creatable g (upstream_request i body r g) = None \<longrightarrow> us = [upstream_request i body r g]))"
  by (auto simp: doForward_def Let_def split: option.splits)

lemma upstream_request_cong: "gw_upstream g' = gw_upstream g \<Longrightarrow> upstream_request i body r g' = upstream_request i body r g"
  by (simp add: upstream_request_def)

text \<open>The store after a request: unchanged, or one write under the key of its thread.\<close>

lemma handler_store:
  assumes "chatCompletionsHandler decode marshal r g = (res, g')"
  obtains "gw_store g' = gw_store g"
  | key i s where "set_conv key i (gw_store g) = Some s" "gw_store g' = s"
proof -
  have "gw_store g' = gw_store g \<or> (\<exists>key i. set_conv key i (gw_store g) = Some (gw_store g'))"
    using assms
    by (auto simp: chatCompletionsHandler_def Let_def heal_def doForward_def remember_def
        split: sum.splits prod.splits raw_reply.splits option.splits if_splits)
  then show thesis using that by blast
qed


text \<open>The id a thread has in the store.\<close>

abbreviation thread_conv :: "string \<Rightarrow> conv_store \<Rightarrow> string" where
  "thread_conv key s \<equiv> fst (lookup_thread key s)"

lemma handler_eq:
  assumes "ib_Body r = Inr body" "extractThreadKey decode marshal body = key"
  shows "chatCompletionsHandler decode marshal r g =
    (case doForward (thread_conv key (gw_store g)) body r g of
       (RawError err, g) \<Rightarrow> (Some (Failure 502 (''upstream: '' @ err)), g)
     | (Raw status hdrs text, h) \<Rightarrow>
         answer key (heal (snd (lookup_thread key (gw_store g))) body r (status, hdrs, text) h))"
  by (simp add: chatCompletionsHandler_def assms Let_def case_prod_unfold)

lemma heal_frame:
  assumes "heal had body r resp g = (y, k)"
  shows "k = g \<or> (\<exists>z. doForward [] body r g = (z, k))"
  using assms by (auto simp: heal_def split: if_splits prod.splits raw_reply.splits)

lemma answer_frame: "\<exists>s. snd (answer key (y, g)) = g\<lparr>gw_store := s\<rparr>"
  by (cases "(key, y, g)" rule: answer.cases) (auto split: option.split intro: exI [of _ "gw_store g"])

lemma handler_requests:
  assumes "chatCompletionsHandler decode marshal r g = (res, g')" "ib_Body r = Inr body"
    "extractThreadKey decode marshal body = key" "first = upstream_request (thread_conv key (gw_store g)) body r g"
  shows "gw_upstream g' = gw_upstream g" "gw_creatable g' = gw_creatable g" "gw_client g' = gw_client g"
    "\<exists>us. gw_sent g' = gw_sent g @ us \<and> length us \<le> 2
       \<and> set us \<subseteq> {first, upstream_request [] body r g}
       \<and> (gw_creatable g first = None \<longrightarrow> us \<noteq> [] \<and> hd us = first)"
proof -
  obtain x h where f: "doForward (thread_conv key (gw_store g)) body r g = (x, h)" by fastforce
  note fr = doForward_frame [OF f, folded assms(4)]
  note eq = handler_eq [OF assms(2,3), of g, unfolded assms(1) f]
  have "gw_upstream g' = gw_upstream g \<and> gw_creatable g' = gw_creatable g \<and> gw_client g' = gw_client g
    \<and> (\<exists>us. gw_sent g' = gw_sent g @ us \<and> length us \<le> 2 \<and> set us \<subseteq> {first, upstream_request [] body r g}
       \<and> (gw_creatable g first = None \<longrightarrow> us \<noteq> [] \<and> hd us = first))"
  proof (cases x)
    case (RawError err)
    then have "g' = h" using eq by simp
    then show ?thesis using fr by (elim conjE exE) (intro conjI exI, auto)
  next
    case (Raw st hd0 tx)
    obtain y k where hl: "heal (snd (lookup_thread key (gw_store g))) body r (st, hd0, tx) h = (y, k)" by fastforce
    from answer_frame [of key y k] obtain s where g': "g' = k\<lparr>gw_store := s\<rparr>"
      using eq Raw hl by (metis (no_types, lifting) case_prod_conv raw_reply.simps(6) snd_conv)
    from fr obtain us where us: "gw_sent h = gw_sent g @ us" "length us \<le> 1" "set us \<subseteq> {first}"
      "gw_creatable g first = None \<longrightarrow> us = [first]" by auto
    from heal_frame [OF hl] obtain vs where vs: "gw_sent k = gw_sent h @ vs" "length vs \<le> 1"
      "set vs \<subseteq> {upstream_request [] body r g}" "gw_upstream k = gw_upstream g"
      "gw_creatable k = gw_creatable g" "gw_client k = gw_client g"
    proof (elim disjE exE)
      fix z assume "doForward [] body r h = (z, k)"
      from doForward_frame [OF this] fr that upstream_request_cong [of h g] show thesis by auto
    qed (use fr in \<open>auto intro: that [of "[]"]\<close>)
    show ?thesis
      using g' us vs by (intro conjI exI [of _ "us @ vs"]) auto
  qed
  then show "gw_upstream g' = gw_upstream g" "gw_creatable g' = gw_creatable g" "gw_client g' = gw_client g"
    "\<exists>us. gw_sent g' = gw_sent g @ us \<and> length us \<le> 2 \<and> set us \<subseteq> {first, upstream_request [] body r g}
       \<and> (gw_creatable g first = None \<longrightarrow> us \<noteq> [] \<and> hd us = first)" by blast+
qed

section \<open>Properties\<close>

text \<open>Continuity cannot be forged. Whatever headers the caller sends, at most two requests go upstream;
  each carries the caller's method, URL, body and headers, except that the conversation header is
  exactly the id stored for the thread or absent.\<close>

theorem conversation_not_forged:
  assumes "chatCompletionsHandler decode marshal r g = (res, g')" "ib_Body r = Inr body"
    "extractThreadKey decode marshal body = key"
  shows "\<exists>us. gw_sent g' = gw_sent g @ us \<and> length us \<le> 2
    \<and> (\<forall>u\<in>set us. rq_Method u = ib_Method r \<and> rq_Body u = body
        \<and> rq_URL u = gw_upstream g @ ib_Path r @ query_suffix (ib_Query r)
        \<and> (fmlookup (rq_Header u) (canon_key convHeader) = None
           \<or> fmlookup (rq_Header u) (canon_key convHeader) = Some [thread_conv key (gw_store g)]
             \<and> thread_conv key (gw_store g) \<noteq> [])
        \<and> (\<forall>k. k \<noteq> canon_key convHeader \<longrightarrow> fmlookup (rq_Header u) k = fmlookup (ib_Header r) k))"
proof -
  from handler_requests(4) [OF assms refl] obtain us where us: "gw_sent g' = gw_sent g @ us" "length us \<le> 2"
    "set us \<subseteq> {upstream_request (thread_conv key (gw_store g)) body r g, upstream_request [] body r g}" by auto
  then show ?thesis
    by (intro exI [of _ us] conjI ballI)
      (auto simp: upstream_request_def hdr_set_def hdr_del_def split: if_splits)
qed

lemma answer_remembers:
  assumes "answer key (y, h) = (Some (Passed st hs tx), g')"
  shows "\<exists>hdrs. hs = relay_headers hdrs \<and> remember key (hdr_get hdrs convHeader) (gw_store h) = Some (gw_store g')"
  using assms by (cases "(key, y, h)" rule: answer.cases) (auto split: option.splits)

lemma other_header: "\<not> equal_fold k convHeader \<Longrightarrow> canon_key k \<noteq> canon_key convHeader"
  using equal_fold_canon equal_fold_sym equal_fold_trans by metis

text \<open>The response names a conversation exactly when the upstream did.\<close>

lemma fold_hdr_add_other:
  "canon_key k \<noteq> c \<Longrightarrow> fmlookup (fold (hdr_add k) vs w) c = fmlookup w c"
  by (induction vs arbitrary: w) (simp_all add: hdr_add_def)

lemma relayed_other:
  "fmlookup (fold (\<lambda>(k, vs) w. if equal_fold k convHeader then w else fold (hdr_add k) vs w) kvs w) (canon_key convHeader)
    = fmlookup w (canon_key convHeader)"
  by (induction kvs arbitrary: w) (auto simp: fold_hdr_add_other other_header)

lemma hdr_get_relay: "hdr_get (relay_headers h) convHeader = hdr_get h convHeader"
proof (cases "hdr_get h convHeader = []")
  case True
  then show ?thesis by (simp add: relay_headers_def Let_def) (simp add: hdr_get_def fm_get_def relayed_other)
qed (simp add: relay_headers_def Let_def)

text \<open>C36: conversations continue. Once an answer that reaches the client names a conversation, the next
  request of the same thread goes upstream under that conversation, whatever the earlier mapping
  was; the mappings of other threads are not touched.\<close>

theorem conversation_continues:
  assumes "chatCompletionsHandler decode marshal r g = (Some (Passed st hs tx), g1)"
    "ib_Body r = Inr body" "extractThreadKey decode marshal body = key" "key \<noteq> []"
    "hdr_get hs convHeader = i" "i \<noteq> []"
    "ib_Body r' = Inr body'" "extractThreadKey decode marshal body' = key"
    "\<forall>u. gw_creatable g u = None"
  shows "get_conv key (gw_store g1) = (i, True)
    \<and> (\<forall>j. j \<noteq> key \<longrightarrow> get_conv j (gw_store g1) = get_conv j (gw_store g))
    \<and> (\<exists>u us. gw_sent (snd (chatCompletionsHandler decode marshal r' g1)) = gw_sent g1 @ u # us
          \<and> rq_Header u = hdr_set convHeader i (ib_Header r') \<and> rq_Body u = body')"
proof -
  have "\<exists>h y. gw_store h = gw_store g \<and> answer key (y, h) = (Some (Passed st hs tx), g1)"
  proof -
    obtain x h where f: "doForward (thread_conv key (gw_store g)) body r g = (x, h)" by fastforce
    note eq = handler_eq [OF assms(2,3), of g, unfolded assms(1) f]
    obtain s0 h0 t0 where x: "x = Raw s0 h0 t0" using eq by (cases x) auto
    obtain y k where hl: "heal (snd (lookup_thread key (gw_store g))) body r (s0, h0, t0) h = (y, k)" by fastforce
    have "gw_store k = gw_store g" using heal_store [of _ body r "(s0, h0, t0)" h] hl doForward_frame [OF f] by (metis snd_conv)
    moreover have "answer key (y, k) = (Some (Passed st hs tx), g1)" using eq x hl by simp
    ultimately show ?thesis by blast
  qed
  then obtain h y where h: "gw_store h = gw_store g" "answer key (y, h) = (Some (Passed st hs tx), g1)" by blast
  from answer_remembers [OF h(2)] h(1) assms(4-6) have set: "set_conv key i (gw_store g) = Some (gw_store g1)"
    by (auto simp: hdr_get_relay remember_def)
  have 1: "get_conv key (gw_store g1) = (i, True)" by (rule set_conv_get [OF set assms(4,6)])
  have 2: "get_conv j (gw_store g1) = get_conv j (gw_store g)" if "j \<noteq> key" for j
    using set_conv_some(3) [OF set] that by simp
  obtain res g2 where run: "chatCompletionsHandler decode marshal r' g1 = (res, g2)" by fastforce
  have "gw_creatable g1 u = None" for u using handler_requests(2) [OF assms(1-3) refl] assms(9) by simp
  with handler_requests(4) [OF run assms(7,8) refl] obtain us where
    us: "gw_sent g2 = gw_sent g1 @ us" "us \<noteq> []" "hd us = upstream_request (thread_conv key (gw_store g1)) body' r' g1"
    by auto
  then have "\<exists>u us. gw_sent g2 = gw_sent g1 @ u # us \<and> rq_Header u = hdr_set convHeader i (ib_Header r')
      \<and> rq_Body u = body'"
    using 1 assms(4,6) by (cases us) (auto simp: upstream_request_def lookup_thread_def)
  then show ?thesis using 1 2 run by simp
qed

text \<open>The mapping on disk: the write of a request is the whole map, or nothing.\<close>

definition gateway_step :: "(string \<Rightarrow> chat_message list option) \<Rightarrow> (json \<Rightarrow> string) \<Rightarrow> inbound \<Rightarrow> gateway \<Rightarrow> gateway" where
  "gateway_step decode marshal r g = snd (chatCompletionsHandler decode marshal r g)"

definition gateway_wrote :: "(string \<Rightarrow> chat_message list option) \<Rightarrow> (json \<Rightarrow> string) \<Rightarrow> inbound \<Rightarrow> gateway \<Rightarrow> bool" where
  "gateway_wrote decode marshal r g \<longleftrightarrow> cv_path (gw_store g) \<noteq> []
     \<and> cv_saves (gw_store (gateway_step decode marshal r g)) \<noteq> cv_saves (gw_store g)
     \<and> cv_env (gw_store g) (cv_saves (gw_store g)) = Moved"

lemma gateway_step_store:
  "gw_store (gateway_step decode marshal r g) = gw_store g
   \<or> (\<exists>key i. set_conv key i (gw_store g) = Some (gw_store (gateway_step decode marshal r g)))"
  unfolding gateway_step_def
  by (rule handler_store [of decode marshal r g]) (auto simp: prod_eq_iff)

lemma gateway_step_frame:
  "cv_path (gw_store (gateway_step decode marshal r g)) = cv_path (gw_store g)"
  "cv_env (gw_store (gateway_step decode marshal r g)) = cv_env (gw_store g)"
  using gateway_step_store [of decode marshal r g] set_conv_some by metis+

interpretation threads: saved_file "gateway_step decode marshal"
  "\<lambda>g. if cv_path (gw_store g) = [] then None else fmlookup (cv_fs (gw_store g)) (cv_path (gw_store g))"
  "\<lambda>g. marshal_entries (cv_entries (gw_store g))" "gateway_wrote decode marshal"
proof unfold_locales
  fix r g
  show "(if cv_path (gw_store (gateway_step decode marshal r g)) = [] then None
      else fmlookup (cv_fs (gw_store (gateway_step decode marshal r g))) (cv_path (gw_store (gateway_step decode marshal r g))))
    = (if gateway_wrote decode marshal r g then Some (marshal_entries (cv_entries (gw_store (gateway_step decode marshal r g))))
      else if cv_path (gw_store g) = [] then None else fmlookup (cv_fs (gw_store g)) (cv_path (gw_store g)))"
    using gateway_step_store [of decode marshal r g] set_conv_file(1) [of _ _ "gw_store g"]
    by (auto simp: gateway_step_frame gateway_wrote_def)
qed

lemma gateway_run_frame:
  "cv_path (gw_store (fold (gateway_step decode marshal) rs g)) = cv_path (gw_store g)"
  "cv_env (gw_store (fold (gateway_step decode marshal) rs g)) = cv_env (gw_store g)"
  by (induction rs arbitrary: g) (simp_all add: gateway_step_frame)

text \<open>C37: a restart finds the conversations. However the saves during a run of requests end, a proxy that is
  started again on the same file knows exactly the mapping after some prefix of the requests, and
  every later request has left the mapping alone or its save had failed.\<close>

theorem conversations_survive_restart:
  assumes "cv_path (gw_store g) \<noteq> []" "cv_entries (gw_store g) = Some m"
    "fmlookup (cv_fs (gw_store g)) (cv_path (gw_store g)) = Some (ConvMap m)"
    "run = (\<lambda>n. gw_store (fold (gateway_step decode marshal) (take n rs) g))"
  shows "\<exists>k\<le>length rs. cv_entries (newStore (cv_path (gw_store g)) True (cv_fs (run (length rs))) env) = cv_entries (run k)
    \<and> (\<forall>j. k \<le> j \<longrightarrow> j < length rs \<longrightarrow>
          cv_entries (run (Suc j)) = cv_entries (run j) \<or> cv_env (gw_store g) (cv_saves (run j)) \<noteq> Moved)"
proof -
  have f0: "(if cv_path (gw_store g) = [] then None else fmlookup (cv_fs (gw_store g)) (cv_path (gw_store g)))
      = Some (marshal_entries (cv_entries (gw_store g)))"
    using assms(1-3) by (simp add: marshal_entries_def)
  from threads.file_run [OF f0, where xs = rs and decode = decode and marshal = marshal] obtain k where k: "k \<le> length rs"
    "fmlookup (cv_fs (run (length rs))) (cv_path (gw_store g)) = Some (marshal_entries (cv_entries (run k)))"
    "\<forall>j. k \<le> j \<longrightarrow> j < length rs \<longrightarrow> \<not> gateway_wrote decode marshal (rs ! j) (fold (gateway_step decode marshal) (take j rs) g)"
    using assms(1) by (auto simp: assms(4) gateway_run_frame)
  have nonnil: "\<exists>m. cv_entries (gw_store (fold (gateway_step decode marshal) qs g)) = Some m" for qs
  proof (induction qs rule: rev_induct)
    case (snoc q qs)
    then show ?case using gateway_step_store [of decode marshal q "fold (gateway_step decode marshal) qs g"] set_conv_some(4)
      by (auto; metis)
  qed (simp add: assms(2))
  have "cv_entries (newStore (cv_path (gw_store g)) True (cv_fs (run (length rs))) env) = cv_entries (run k)"
    using k(2) nonnil [of "take k rs"] by (auto simp: newStore_def load_def marshal_entries_def assms(4))
  moreover have "cv_entries (run (Suc j)) = cv_entries (run j) \<or> cv_env (gw_store g) (cv_saves (run j)) \<noteq> Moved"
    if j: "k \<le> j" "j < length rs" for j
  proof -
    let ?h = "fold (gateway_step decode marshal) (take j rs) g"
    have "run (Suc j) = gw_store (gateway_step decode marshal (rs ! j) ?h)"
      using j(2) by (simp add: assms(4) take_Suc_conv_app_nth)
    moreover have "run j = gw_store ?h" by (simp add: assms(4))
    ultimately show ?thesis
      using k(3) j gateway_step_store [of decode marshal "rs ! j" ?h] set_conv_file(2) assms(1)
      by (auto simp: gateway_wrote_def gateway_run_frame)
  qed
  ultimately show ?thesis using k(1) by blast
qed

section \<open>Failures\<close>

text \<open>A file that holds \<^verbatim>\<open>null\<close> disables the proxy. It decodes without an error to a nil map, and then every
  request whose answer names a conversation panics: the caller gets no response and nothing is
  ever remembered.\<close>

theorem null_file_panics:
  assumes "gw_store g = newStore path True fs env" "fmlookup fs path = Some ConvNull"
    "ib_Body r = Inr body" "extractThreadKey decode marshal body = key" "key \<noteq> []"
    "gw_creatable g (upstream_request [] body r g) = None"
    "gw_client g (length (gw_sent g)) (upstream_request [] body r g) = Raw st hs tx" "hdr_get hs convHeader \<noteq> []"
  shows "fst (chatCompletionsHandler decode marshal r g) = None
    \<and> gw_store (snd (chatCompletionsHandler decode marshal r g)) = gw_store g"
proof -
  have "cv_entries (gw_store g) = None" using assms(1,2) by (simp add: newStore_def load_def)
  then have "lookup_thread key (gw_store g) = ([], False)"
    "remember key (hdr_get hs convHeader) (gw_store g) = None"
    using assms(5,8) by (simp_all add: lookup_thread_def get_conv_def remember_def set_conv_def)
  then show ?thesis using assms(6,7) by (simp add: handler_eq [OF assms(3,4)] doForward_def heal_def)
qed

text \<open>A failed retry loses the answer. When the upstream rejects a stored id and the retry does not get
  through, the client receives the status and headers of the first answer with an empty body.\<close>

theorem failed_retry_drops_body:
  assumes "ib_Body r = Inr body" "extractThreadKey decode marshal body = key" "key \<noteq> []"
    "get_conv key (gw_store g) = (i, True)" "gw_creatable g (upstream_request i body r g) = None"
    "gw_client g (length (gw_sent g)) (upstream_request i body r g) = Raw st hs tx" "st \<ge> 400"
    "gw_client g (Suc (length (gw_sent g))) (upstream_request [] body r g) = RawError err"
  shows "fst (chatCompletionsHandler decode marshal r g) = Some (Passed st (relay_headers hs) [])"
proof -
  let ?h = "g\<lparr>gw_sent := gw_sent g @ [upstream_request i body r g]\<rparr>"
  have look: "lookup_thread key (gw_store g) = (i, True)" using assms(3,4) by (simp add: lookup_thread_def)
  have "fst (heal True body r (st, hs, tx) ?h) = (st, hs, [])"
    using assms(7,8) by (auto simp: heal_def doForward_def Let_def upstream_request_def split: option.split)
  moreover have "gw_store (snd (heal True body r (st, hs, tx) ?h)) = gw_store g" by simp
  moreover obtain m where "cv_entries (gw_store g) = Some m"
    using assms(4) by (auto simp: get_conv_def split: option.splits)
  then have "remember key (hdr_get hs convHeader) (gw_store g) \<noteq> None"
    by (simp add: remember_def set_conv_def)
  ultimately show ?thesis
    using assms(5,6) look by (cases "heal True body r (st, hs, tx) ?h")
      (auto simp: handler_eq [OF assms(1,2)] doForward_def)
qed

section \<open>Witnesses\<close>

text \<open>One chat, an upstream that rejects the id \<open>old\<close>, and a caller who sends an id of his own.\<close>

definition one_chat :: "string \<Rightarrow> chat_message list option" where
  "one_chat body = (if body = ''hi'' then Some [\<lparr>mg_Role = ''user'', mg_Content = JStr ''hello''\<rparr>] else None)"

definition chat_request :: inbound where
  "chat_request = \<lparr>ib_Method = ''POST'', ib_Path = ''/v1/chat/completions'', ib_Query = [],
     ib_Header = hdr_set convHeader ''forged'' fmempty, ib_Body = Inr ''hi''\<rparr>"

definition fresh_upstream :: "nat \<Rightarrow> http_request \<Rightarrow> raw_reply" where
  "fresh_upstream n u = (if hdr_get (rq_Header u) convHeader = ''old'' then Raw 404 fmempty ''gone''
     else if n = 0 then Raw 200 (hdr_set convHeader ''c1'' fmempty) ''ok'' else RawError ''timeout'')"

definition gateway_on :: "conv_file \<Rightarrow> gateway" where
  "gateway_on f = \<lparr>gw_store = newStore ''c.json'' True (fmupd ''c.json'' f fmempty) (\<lambda>_. Moved), gw_upstream = ''http://u'',
     gw_creatable = (\<lambda>_. None), gw_client = fresh_upstream, gw_sent = []\<rparr>"

abbreviation hello_key :: string where
  "hello_key \<equiv> hashContent (\<lambda>_. []) (JStr ''hello'')"

lemma hello_key: "extractThreadKey one_chat (\<lambda>_. []) ''hi'' = hello_key" "hello_key \<noteq> []"
proof -
  have "length hello_key = 64" by (simp add: hashContent_def length_hex_string length_sha256)
  then show "hello_key \<noteq> []" by (metis length_0_conv zero_neq_numeral)
qed (simp add: extractThreadKey_def one_chat_def equal_fold_def)

lemma chat_body: "ib_Body chat_request = Inr ''hi''"
  by (simp add: chat_request_def)

lemma empty_map_gateway:
  "gw_store (gateway_on (ConvMap fmempty)) = \<lparr>cv_entries = Some fmempty, cv_path = ''c.json'',
     cv_fs = fmupd ''c.json'' (ConvMap fmempty) fmempty, cv_env = (\<lambda>_. Moved), cv_saves = 0\<rparr>"
  by (simp add: gateway_on_def newStore_def load_def)

theorem conversation_not_forged_witness:
  "list_all (\<lambda>u. fmlookup (rq_Header u) (canon_key convHeader) = None)
     (gw_sent (snd (chatCompletionsHandler one_chat (\<lambda>_. []) chat_request (gateway_on (ConvMap fmempty)))))"
proof -
  obtain res g' where h: "chatCompletionsHandler one_chat (\<lambda>_. []) chat_request (gateway_on (ConvMap fmempty)) = (res, g')"
    by fastforce
  have "gw_sent (gateway_on (ConvMap fmempty)) = []" by (simp add: gateway_on_def)
  moreover have "thread_conv hello_key (gw_store (gateway_on (ConvMap fmempty))) = []"
    by (simp add: empty_map_gateway lookup_thread_def get_conv_def)
  ultimately show ?thesis
    using conversation_not_forged [OF h chat_body hello_key(1)] unfolding h by (auto simp: list_all_iff)
qed

lemma first_answer:
  "\<exists>g1. chatCompletionsHandler one_chat (\<lambda>_. []) chat_request (gateway_on (ConvMap fmempty))
     = (Some (Passed 200 (relay_headers (hdr_set convHeader ''c1'' fmempty)) ''ok''), g1)"
proof -
  have "lookup_thread hello_key (gw_store (gateway_on (ConvMap fmempty))) = ([], False)"
    by (simp add: empty_map_gateway lookup_thread_def get_conv_def)
  moreover have "remember hello_key ''c1'' (gw_store (gateway_on (ConvMap fmempty))) \<noteq> None"
    by (simp add: remember_def set_conv_def empty_map_gateway)
  ultimately show ?thesis
    unfolding handler_eq [OF chat_body hello_key(1)]
    by (auto simp: doForward_def heal_def upstream_request_def gateway_on_def fresh_upstream_def)
qed

theorem conversation_continues_witness:
  "get_conv hello_key (gw_store (snd (chatCompletionsHandler one_chat (\<lambda>_. []) chat_request (gateway_on (ConvMap fmempty)))))
     = (''c1'', True)"
proof -
  obtain g1 where h: "chatCompletionsHandler one_chat (\<lambda>_. []) chat_request (gateway_on (ConvMap fmempty))
     = (Some (Passed 200 (relay_headers (hdr_set convHeader ''c1'' fmempty)) ''ok''), g1)" using first_answer by blast
  have "\<forall>u. gw_creatable (gateway_on (ConvMap fmempty)) u = None" by (simp add: gateway_on_def)
  from conversation_continues [OF h chat_body hello_key _ _ chat_body hello_key(1) this, of "''c1''"]
  show ?thesis unfolding h by (simp add: hdr_get_relay)
qed

theorem conversations_survive_restart_witness:
  "\<exists>k\<le>Suc 0. cv_entries (newStore ''c.json'' True (cv_fs (gw_store (gateway_step one_chat (\<lambda>_. []) chat_request (gateway_on (ConvMap fmempty))))) (\<lambda>_. Moved))
     = cv_entries (gw_store (fold (gateway_step one_chat (\<lambda>_. [])) (take k [chat_request]) (gateway_on (ConvMap fmempty))))"
  using conversations_survive_restart [of "gateway_on (ConvMap fmempty)" fmempty
      "\<lambda>n. gw_store (fold (gateway_step one_chat (\<lambda>_. [])) (take n [chat_request]) (gateway_on (ConvMap fmempty)))"
      one_chat "\<lambda>_. []" "[chat_request]" "\<lambda>_. Moved"]
  by (auto simp: empty_map_gateway)

theorem null_file_panics_witness:
  "fst (chatCompletionsHandler one_chat (\<lambda>_. []) chat_request (gateway_on ConvNull)) = None"
proof -
  have s: "gw_store (gateway_on ConvNull) = newStore ''c.json'' True (fmupd ''c.json'' ConvNull fmempty) (\<lambda>_. Moved)"
    by (simp add: gateway_on_def)
  show ?thesis
    using null_file_panics [OF s _ chat_body hello_key, of 200 "hdr_set convHeader ''c1'' fmempty" "''ok''"]
    by (simp add: gateway_on_def fresh_upstream_def upstream_request_def)
qed

theorem failed_retry_drops_body_witness:
  "fst (chatCompletionsHandler one_chat (\<lambda>_. []) chat_request (gateway_on (ConvMap (fmupd hello_key ''old'' fmempty))))
     = Some (Passed 404 (relay_headers fmempty) [])"
proof -
  let ?g = "gateway_on (ConvMap (fmupd hello_key ''old'' fmempty))"
  have g: "get_conv hello_key (gw_store ?g) = (''old'', True)"
    by (simp add: gateway_on_def newStore_def load_def get_conv_def fm_get_def)
  show ?thesis
    by (rule failed_retry_drops_body [OF chat_body hello_key g, of 404 fmempty "''gone''" "''timeout''"])
      (simp_all add: gateway_on_def fresh_upstream_def upstream_request_def)
qed

end
