(* ===== verification/Conv_Concurrent.thy ===== *)
theory Conv_Concurrent
  imports Conv_Spec
begin

text \<open>
  Chat requests that the gateway handles at the same time. Each is a goroutine whose atomic actions are
  the lookup under the store's lock, a request to the upstream with its reply, and the update under
  the lock; the actions of different requests interleave in any order. The reply is taken at once:
  what the upstream answers to the \<open>k\<close>-th request is a parameter, so a reply that comes later is the
  same run.
\<close>

section \<open>Requests in flight\<close>

datatype chat_phase =
  Arrived inbound
| Looked inbound string string string bool       \<comment> \<open>body, thread key, stored id, whether one was stored\<close>
| Responded inbound string string bool "int \<times> headers \<times> string"
| Recording string "int \<times> headers \<times> string"
| Finished "unit http_response option"

text \<open>The next action of a request.\<close>

fun chat_action :: "(string \<Rightarrow> chat_message list option) \<Rightarrow> (json \<Rightarrow> string) \<Rightarrow> chat_phase \<Rightarrow> gateway
    \<Rightarrow> chat_phase \<times> gateway" where
  "chat_action decode marshal (Arrived r) g = (case ib_Body r of
       Inl err \<Rightarrow> (Finished (Some (Failure 400 (''read request body: '' @ err))), g)
     | Inr body \<Rightarrow> (let key = extractThreadKey decode marshal body; (convID, had) = lookup_thread key (gw_store g)
         in (Looked r body key convID had, g)))"
| "chat_action decode marshal (Looked r body key convID had) g = (case doForward convID body r g of
       (RawError err, g) \<Rightarrow> (Finished (Some (Failure 502 (''upstream: '' @ err))), g)
     | (Raw status hdrs text, g) \<Rightarrow> (Responded r body key had (status, hdrs, text), g))"
| "chat_action decode marshal (Responded r body key had resp) g =
     (let (resp, g) = heal had body r resp g in (Recording key resp, g))"
| "chat_action decode marshal (Recording key resp) g = (let (res, g) = answer key (resp, g) in (Finished res, g))"
| "chat_action decode marshal (Finished res) g = (Finished res, g)"

inductive chat_run :: "(string \<Rightarrow> chat_message list option) \<Rightarrow> (json \<Rightarrow> string) \<Rightarrow> gateway
    \<Rightarrow> (nat, chat_phase) fmap \<Rightarrow> gateway \<Rightarrow> bool" for decode marshal g0 where
  start: "chat_run decode marshal g0 fmempty g0"
| arrive: "chat_run decode marshal g0 ph g \<Longrightarrow> n |\<notin>| fmdom ph \<Longrightarrow> chat_run decode marshal g0 (fmupd n (Arrived r) ph) g"
| act: "chat_run decode marshal g0 ph g \<Longrightarrow> fmlookup ph n = Some p \<Longrightarrow> chat_action decode marshal p g = (p', g') \<Longrightarrow>
    chat_run decode marshal g0 (fmupd n p' ph) g'"

text \<open>A request that nothing interleaves with is the handler.\<close>

lemma chat_actions_handler:
  assumes "chat_action decode marshal (Arrived r) g = (p1, g1)" "chat_action decode marshal p1 g1 = (p2, g2)"
    "chat_action decode marshal p2 g2 = (p3, g3)" "chat_action decode marshal p3 g3 = (p4, g4)"
  shows "p4 = Finished (fst (chatCompletionsHandler decode marshal r g)) \<and> g4 = snd (chatCompletionsHandler decode marshal r g)"
proof (cases "ib_Body r")
  case (Inl err)
  then show ?thesis using assms by (auto simp: chatCompletionsHandler_def)
next
  case (Inr body)
  obtain c had where l: "lookup_thread (extractThreadKey decode marshal body) (gw_store g) = (c, had)" by fastforce
  obtain x h where f: "doForward c body r g = (x, h)" by fastforce
  show ?thesis
  proof (cases x)
    case (RawError err)
    then show ?thesis using assms Inr l f by (auto simp: chatCompletionsHandler_def)
  next
    case (Raw st hd tx)
    obtain y k where "heal had body r (st, hd, tx) h = (y, k)" by fastforce
    then show ?thesis using assms Inr l f Raw by (auto simp: chatCompletionsHandler_def split: prod.splits)
  qed
qed

section \<open>Isolation\<close>

text \<open>The id was stored for the thread at the start, or the upstream answered it to one of the first \<open>n\<close>
  requests of that thread.\<close>

definition issued :: "(string \<Rightarrow> chat_message list option) \<Rightarrow> (json \<Rightarrow> string) \<Rightarrow> gateway \<Rightarrow> gateway \<Rightarrow> nat
    \<Rightarrow> string \<Rightarrow> string \<Rightarrow> bool" where
  "issued decode marshal g0 g n key i \<longleftrightarrow> fst (get_conv key (gw_store g0)) = i
     \<or> (\<exists>k st hdrs tx. k < n \<and> extractThreadKey decode marshal (rq_Body (gw_sent g ! k)) = key
          \<and> gw_client g k (gw_sent g ! k) = Raw st hdrs tx \<and> hdr_get hdrs convHeader = i)"

definition answered :: "(string \<Rightarrow> chat_message list option) \<Rightarrow> (json \<Rightarrow> string) \<Rightarrow> gateway \<Rightarrow> gateway
    \<Rightarrow> string \<Rightarrow> int \<times> headers \<times> string \<Rightarrow> bool" where
  "answered decode marshal g0 g key resp \<longleftrightarrow> issued decode marshal g0 g (length (gw_sent g)) key (hdr_get (fst (snd resp)) convHeader)"

text \<open>What a request in flight knows about its own thread.\<close>

fun phase_isolated :: "(string \<Rightarrow> chat_message list option) \<Rightarrow> (json \<Rightarrow> string) \<Rightarrow> gateway \<Rightarrow> gateway
    \<Rightarrow> chat_phase \<Rightarrow> bool" where
  "phase_isolated decode marshal g0 g (Looked r body key i had) \<longleftrightarrow> key = extractThreadKey decode marshal body
     \<and> (i = [] \<or> issued decode marshal g0 g (length (gw_sent g)) key i)"
| "phase_isolated decode marshal g0 g (Responded r body key had resp) \<longleftrightarrow> key = extractThreadKey decode marshal body
     \<and> answered decode marshal g0 g key resp"
| "phase_isolated decode marshal g0 g (Recording key resp) \<longleftrightarrow> answered decode marshal g0 g key resp"
| "phase_isolated decode marshal g0 g p \<longleftrightarrow> True"

definition request_isolated :: "(string \<Rightarrow> chat_message list option) \<Rightarrow> (json \<Rightarrow> string) \<Rightarrow> gateway \<Rightarrow> gateway
    \<Rightarrow> nat \<Rightarrow> bool" where
  "request_isolated decode marshal g0 g n \<longleftrightarrow>
     (case fmlookup (rq_Header (gw_sent g ! n)) (canon_key convHeader) of
        None \<Rightarrow> True
      | Some vs \<Rightarrow> (\<exists>i. vs = [i] \<and> i \<noteq> []
          \<and> issued decode marshal g0 g n (extractThreadKey decode marshal (rq_Body (gw_sent g ! n))) i))"

definition isolated :: "(string \<Rightarrow> chat_message list option) \<Rightarrow> (json \<Rightarrow> string) \<Rightarrow> gateway
    \<Rightarrow> (nat, chat_phase) fmap \<Rightarrow> gateway \<Rightarrow> bool" where
  "isolated decode marshal g0 ph g \<longleftrightarrow>
     (\<exists>us. gw_sent g = gw_sent g0 @ us) \<and> gw_client g = gw_client g0
     \<and> (\<forall>key. key \<noteq> [] \<longrightarrow> issued decode marshal g0 g (length (gw_sent g)) key (fst (get_conv key (gw_store g))))
     \<and> (\<forall>n p. fmlookup ph n = Some p \<longrightarrow> phase_isolated decode marshal g0 g p)
     \<and> (\<forall>n. length (gw_sent g0) \<le> n \<longrightarrow> n < length (gw_sent g) \<longrightarrow> request_isolated decode marshal g0 g n)"

text \<open>Requests and answers only accumulate.\<close>

definition extends :: "gateway \<Rightarrow> gateway \<Rightarrow> bool" where
  "extends g g' \<longleftrightarrow> (\<exists>us. gw_sent g' = gw_sent g @ us) \<and> gw_client g' = gw_client g"

lemma extends_refl [simp]: "extends g g"
  by (simp add: extends_def)

lemma extends_trans: "extends g g1 \<Longrightarrow> extends g1 g2 \<Longrightarrow> extends g g2"
  by (auto simp: extends_def)

lemma extends_length: "extends g g' \<Longrightarrow> length (gw_sent g) \<le> length (gw_sent g')"
  by (auto simp: extends_def)

lemma issued_mono:
  assumes "issued decode marshal g0 g n key i" "extends g g'" "n \<le> m" "n \<le> length (gw_sent g)"
  shows "issued decode marshal g0 g' m key i"
proof (cases "fst (get_conv key (gw_store g0)) = i")
  case False
  then obtain k st hdrs tx where k: "k < n" "extractThreadKey decode marshal (rq_Body (gw_sent g ! k)) = key"
    "gw_client g k (gw_sent g ! k) = Raw st hdrs tx" "hdr_get hdrs convHeader = i"
    using assms(1) by (auto simp: issued_def)
  moreover have "gw_sent g' ! k = gw_sent g ! k" "gw_client g' = gw_client g"
    using assms(2,4) k(1) by (auto simp: extends_def nth_append)
  ultimately show ?thesis unfolding issued_def using assms(3)
    by (intro disjI2 exI [of _ k] exI [of _ st] exI [of _ hdrs] exI [of _ tx]) simp
qed (simp add: issued_def)

lemma phase_isolated_mono:
  assumes "phase_isolated decode marshal g0 g p" "extends g g'"
  shows "phase_isolated decode marshal g0 g' p"
proof -
  have "issued decode marshal g0 g (length (gw_sent g)) key i \<Longrightarrow> issued decode marshal g0 g' (length (gw_sent g')) key i" for key i
    by (rule issued_mono [OF _ assms(2) extends_length [OF assms(2)] order_refl])
  then show ?thesis using assms(1) by (cases p) (auto simp: answered_def)
qed

lemma request_isolated_mono:
  assumes "request_isolated decode marshal g0 g n" "extends g g'" "n < length (gw_sent g)"
  shows "request_isolated decode marshal g0 g' n"
proof -
  have "gw_sent g' ! n = gw_sent g ! n" using assms(2,3) by (auto simp: extends_def nth_append)
  then show ?thesis
    using assms issued_mono [OF _ assms(2), of decode marshal g0 n _ _ n]
    by (auto simp: request_isolated_def split: option.splits)
qed

lemma doForward_cases:
  obtains (unsent) err where "doForward i body r g = (RawError err, g)"
  | (sent) "doForward i body r g = (gw_client g (length (gw_sent g)) (upstream_request i body r g),
      g\<lparr>gw_sent := gw_sent g @ [upstream_request i body r g]\<rparr>)"
  by (cases "gw_creatable g (upstream_request i body r g)") (auto simp: doForward_def Let_def)

text \<open>A request that goes upstream under no id, or under one issued for its thread, is isolated, and so
  is its answer.\<close>

lemma doForward_isolated:
  assumes "doForward i body r g = (x, g')" "key = extractThreadKey decode marshal body"
    "i = [] \<or> issued decode marshal g0 g (length (gw_sent g)) key i"
  shows "extends g g' \<and> gw_store g' = gw_store g
    \<and> (\<forall>n. length (gw_sent g) \<le> n \<longrightarrow> n < length (gw_sent g') \<longrightarrow> request_isolated decode marshal g0 g' n)
    \<and> (\<forall>st hdrs tx. x = Raw st hdrs tx \<longrightarrow> answered decode marshal g0 g' key (st, hdrs, tx))"
proof (cases rule: doForward_cases [of i body r g])
  case (unsent err)
  then show ?thesis using assms(1) by auto
next
  case sent
  define u where "u = upstream_request i body r g"
  have g': "g' = g\<lparr>gw_sent := gw_sent g @ [u]\<rparr>" and x: "x = gw_client g (length (gw_sent g)) u"
    using assms(1) sent by (simp_all add: u_def)
  have e: "extends g g'" by (simp add: g' extends_def)
  have u: "rq_Body u = body" "fmlookup (rq_Header u) (canon_key convHeader) = (if i = [] then None else Some [i])"
    by (simp_all add: u_def upstream_request_def hdr_set_def hdr_del_def)
  have "request_isolated decode marshal g0 g' (length (gw_sent g))"
    using assms(2,3) issued_mono [OF _ e, of decode marshal g0 "length (gw_sent g)" key i "length (gw_sent g)"]
    by (auto simp: request_isolated_def g' u)
  moreover have "answered decode marshal g0 g' key (st, hdrs, tx)" if "x = Raw st hdrs tx" for st hdrs tx
    using that x assms(2) unfolding answered_def issued_def
    by (intro disjI2 exI [of _ "length (gw_sent g)"] exI [of _ st] exI [of _ hdrs] exI [of _ tx]) (simp add: g' u)
  ultimately show ?thesis using e by (auto simp: g' less_Suc_eq)
qed

lemma answer_isolated:
  assumes "answer key (resp, g) = (res, g')" "answered decode marshal g0 g key resp"
    "\<forall>key. key \<noteq> [] \<longrightarrow> issued decode marshal g0 g (length (gw_sent g)) key (fst (get_conv key (gw_store g)))"
  shows "gw_sent g' = gw_sent g \<and> gw_client g' = gw_client g
    \<and> (\<forall>key. key \<noteq> [] \<longrightarrow> issued decode marshal g0 g' (length (gw_sent g')) key (fst (get_conv key (gw_store g'))))"
proof -
  obtain st hdrs tx where resp: "resp = (st, hdrs, tx)" by (cases resp)
  have same: "issued decode marshal g0 (g\<lparr>gw_store := s\<rparr>) n k i = issued decode marshal g0 g n k i" for s n k i
    by (simp add: issued_def)
  show ?thesis
  proof (cases "remember key (hdr_get hdrs convHeader) (gw_store g)")
    case None
    then show ?thesis using assms(1,3) by (auto simp: resp)
  next
    case (Some s)
    then have g': "g' = g\<lparr>gw_store := s\<rparr>" using assms(1) by (auto simp: resp)
    have "get_conv k s = get_conv k (gw_store g) \<or> k = key \<and> fst (get_conv k s) = hdr_get hdrs convHeader" for k
      using Some set_conv_some(3) [of key "hdr_get hdrs convHeader" "gw_store g" s k]
      by (auto simp: remember_def split: if_splits)
    then show ?thesis using assms(2,3) by (auto simp: g' same answered_def resp) metis
  qed
qed

lemma action_isolated:
  assumes "isolated decode marshal g0 ph g" "fmlookup ph n = Some p" "chat_action decode marshal p g = (p', g')"
  shows "extends g g' \<and> phase_isolated decode marshal g0 g' p'
    \<and> (\<forall>key. key \<noteq> [] \<longrightarrow> issued decode marshal g0 g' (length (gw_sent g')) key (fst (get_conv key (gw_store g'))))
    \<and> (\<forall>n. length (gw_sent g) \<le> n \<longrightarrow> n < length (gw_sent g') \<longrightarrow> request_isolated decode marshal g0 g' n)"
proof -
  have store: "\<forall>key. key \<noteq> [] \<longrightarrow> issued decode marshal g0 g (length (gw_sent g)) key (fst (get_conv key (gw_store g)))"
    using assms(1) by (simp add: isolated_def)
  have p: "phase_isolated decode marshal g0 g p" using assms(1,2) unfolding isolated_def by blast
  have store': "issued decode marshal g0 h (length (gw_sent h)) key (fst (get_conv key (gw_store h)))"
    if "extends g h" "gw_store h = gw_store g" "key \<noteq> []" for h key
    using issued_mono [OF store [rule_format, OF that(3)] that(1) extends_length [OF that(1)] order_refl] that(2) by simp
  show ?thesis
  proof (cases p)
    case (Arrived r)
    then show ?thesis using assms(3) store
      by (auto simp: lookup_thread_def Let_def split: sum.splits prod.splits if_splits)
  next
    case (Looked r body key i had)
    obtain x h where f: "doForward i body r g = (x, h)" by fastforce
    have iso: "key = extractThreadKey decode marshal body" "i = [] \<or> issued decode marshal g0 g (length (gw_sent g)) key i"
      using p Looked by auto
    note d = doForward_isolated [OF f iso]
    show ?thesis using assms(3) Looked f d store' [of h] iso(1) by (cases x) auto
  next
    case (Responded r body key had resp)
    obtain st hdrs tx where resp: "resp = (st, hdrs, tx)" by (cases resp)
    have key: "key = extractThreadKey decode marshal body" and ans: "answered decode marshal g0 g key resp"
      using p Responded by auto
    show ?thesis
    proof (cases "had \<and> st \<ge> 400")
      case False
      then have "heal had body r resp g = (resp, g)" by (auto simp: heal_def resp)
      then have "p' = Recording key resp" "g' = g" using assms(3) Responded by simp_all
      then show ?thesis using ans store by simp
    next
      case True
      obtain x h where f: "doForward [] body r g = (x, h)" by fastforce
      note d = doForward_isolated [OF f key, of g0]
      have a: "answered decode marshal g0 h key (st, hdrs, [])"
        using phase_isolated_mono [of decode marshal g0 g "Recording key resp" h] ans d by (simp add: answered_def resp)
      show ?thesis using assms(3) Responded True f d store' [of h] a by (cases x) (auto simp: heal_def resp)
    qed
  next
    case (Recording key resp)
    obtain res h where a: "answer key (resp, g) = (res, h)" by fastforce
    have "answered decode marshal g0 g key resp" using p Recording by simp
    note d = answer_isolated [OF a this store]
    then show ?thesis using assms(3) Recording a by (auto simp: extends_def)
  next
    case (Finished res)
    then have "p' = Finished res" "g' = g" using assms(3) by simp_all
    then show ?thesis using store by simp
  qed
qed

lemma chat_run_isolated: "chat_run decode marshal g0 ph g \<Longrightarrow> isolated decode marshal g0 ph g"
proof (induction rule: chat_run.induct)
  case start
  then show ?case by (simp add: isolated_def issued_def)
next
  case (arrive ph g n r)
  then show ?case by (auto simp: isolated_def split: if_splits)
next
  case (act ph g n p p' g')
  note a = action_isolated [OF act.IH act.hyps(2,3)]
  have e: "extends g g'" using a by simp
  have old: "request_isolated decode marshal g0 g' k" if "length (gw_sent g0) \<le> k" "k < length (gw_sent g)" for k
    using act.IH that request_isolated_mono [OF _ e that(2)] by (simp add: isolated_def)
  have "phase_isolated decode marshal g0 g' q" if "fmlookup (fmupd n p' ph) k = Some q" for k q
    using that a act.IH phase_isolated_mono [OF _ e] by (auto simp: isolated_def split: if_splits)
  moreover have "request_isolated decode marshal g0 g' k" if "length (gw_sent g0) \<le> k" "k < length (gw_sent g')" for k
    using that a old by (cases "k < length (gw_sent g)") auto
  ultimately show ?case using a act.IH by (auto simp: isolated_def extends_def)
qed

text \<open>C35: conversations are isolated under concurrency. However the requests in flight interleave, whatever
  the callers send and the upstream answers, the id stored for a thread was stored for it at the start
  or answered by the upstream to a request of that thread, and every request goes upstream without an
  id or under one that had been stored or answered, for its own thread, before it was sent.\<close>

theorem conversations_isolated:
  assumes "chat_run decode marshal g0 ph g"
  shows "(\<forall>key. key \<noteq> [] \<longrightarrow> issued decode marshal g0 g (length (gw_sent g)) key (fst (get_conv key (gw_store g))))
    \<and> (\<forall>n u. length (gw_sent g0) \<le> n \<longrightarrow> n < length (gw_sent g) \<longrightarrow> gw_sent g ! n = u \<longrightarrow>
         fmlookup (rq_Header u) (canon_key convHeader) = None
         \<or> (\<exists>i. fmlookup (rq_Header u) (canon_key convHeader) = Some [i] \<and> i \<noteq> []
              \<and> issued decode marshal g0 g n (extractThreadKey decode marshal (rq_Body u)) i))"
proof (intro conjI allI impI)
  note iso = chat_run_isolated [OF assms, unfolded isolated_def]
  show "issued decode marshal g0 g (length (gw_sent g)) key (fst (get_conv key (gw_store g)))" if "key \<noteq> []" for key
    using iso that by simp
  fix n u assume n: "length (gw_sent g0) \<le> n" "n < length (gw_sent g)" "gw_sent g ! n = u"
  then have "request_isolated decode marshal g0 g n" using iso by simp
  then show "fmlookup (rq_Header u) (canon_key convHeader) = None
      \<or> (\<exists>i. fmlookup (rq_Header u) (canon_key convHeader) = Some [i] \<and> i \<noteq> []
           \<and> issued decode marshal g0 g n (extractThreadKey decode marshal (rq_Body u)) i)"
    using n(3) by (cases "fmlookup (rq_Header u) (canon_key convHeader)") (simp_all add: request_isolated_def)
qed

text \<open>The values are two requests of one thread that arrive together and are both sent before either is
  answered: both go without an id, although the caller of each claims one.\<close>

theorem conversations_isolated_witness:
  "\<exists>ph g. chat_run one_chat (\<lambda>_. []) (gateway_on (ConvMap fmempty)) ph g \<and> length (gw_sent g) = 2
     \<and> (fmlookup (rq_Header (gw_sent g ! 0)) (canon_key convHeader) = None
        \<or> (\<exists>i. fmlookup (rq_Header (gw_sent g ! 0)) (canon_key convHeader) = Some [i] \<and> i \<noteq> []
             \<and> issued one_chat (\<lambda>_. []) (gateway_on (ConvMap fmempty)) g 0 (extractThreadKey one_chat (\<lambda>_. []) (rq_Body (gw_sent g ! 0))) i))"
proof -
  let ?g0 = "gateway_on (ConvMap fmempty)" and ?run = "chat_run one_chat (\<lambda>_. []) (gateway_on (ConvMap fmempty))"
  let ?u = "upstream_request [] ''hi'' chat_request ?g0"
  define g1 where "g1 = ?g0\<lparr>gw_sent := [?u]\<rparr>"
  define g2 where "g2 = ?g0\<lparr>gw_sent := [?u, ?u]\<rparr>"
  have looked: "chat_action one_chat (\<lambda>_. []) (Arrived chat_request) ?g0 = (Looked chat_request ''hi'' hello_key [] False, ?g0)"
    by (simp add: chat_body hello_key empty_map_gateway lookup_thread_def get_conv_def del: convHeader_def)
  have sent: "\<exists>p. chat_action one_chat (\<lambda>_. []) (Looked chat_request ''hi'' hello_key [] False) ?g0 = (p, g1)"
    "\<exists>p. chat_action one_chat (\<lambda>_. []) (Looked chat_request ''hi'' hello_key [] False) g1 = (p, g2)"
    by (simp_all add: doForward_def Let_def g1_def g2_def gateway_on_def upstream_request_def fresh_upstream_def split: raw_reply.splits)
  define ph0 where "ph0 = fmupd 1 (Arrived chat_request) (fmupd (0::nat) (Arrived chat_request) fmempty)"
  define ph where "ph = fmupd 1 (Looked chat_request ''hi'' hello_key [] False) (fmupd 0 (Looked chat_request ''hi'' hello_key [] False) ph0)"
  have ph0: "?run ph0 ?g0" unfolding ph0_def by (intro chat_run.arrive chat_run.start) simp_all
  have "?run (fmupd 0 (Looked chat_request ''hi'' hello_key [] False) ph0) ?g0"
    by (rule chat_run.act [OF ph0 _ looked]) (simp add: ph0_def)
  then have "?run ph ?g0" unfolding ph_def by (rule chat_run.act [OF _ _ looked]) (simp add: ph0_def)
  then have ph: "?run ph ?g0" "fmlookup ph 0 = Some (Looked chat_request ''hi'' hello_key [] False)"
    "fmlookup ph 1 = Some (Looked chat_request ''hi'' hello_key [] False)" by (simp_all add: ph_def)
  obtain p q where pq: "chat_action one_chat (\<lambda>_. []) (Looked chat_request ''hi'' hello_key [] False) ?g0 = (p, g1)"
    "chat_action one_chat (\<lambda>_. []) (Looked chat_request ''hi'' hello_key [] False) g1 = (q, g2)" using sent by blast
  have run: "?run (fmupd 1 q (fmupd 0 p ph)) g2"
    by (rule chat_run.act [OF chat_run.act [OF ph(1,2) pq(1)] _ pq(2)]) (use ph(3) in simp)
  have "length (gw_sent ?g0) \<le> 0" "0 < length (gw_sent g2)" "length (gw_sent g2) = 2" by (simp_all add: g2_def gateway_on_def)
  then show ?thesis using conversations_isolated [OF run] run by blast
qed

end
