(* ===== verification/Conv_Main.thy ===== *)
theory Conv_Main
  imports Conv_Concurrent
begin

text \<open>
  \<^verbatim>\<open>openwebui-openhands-proxy\<close> as a whole: its environment, the start of \<^verbatim>\<open>main\<close> and its mux. \<open>getenv\<close> is
  \<^verbatim>\<open>os.Getenv\<close>, empty for what is not set; \<open>parse_url\<close> is \<^verbatim>\<open>url.Parse\<close>, which gives the URL as text and
  its origin (scheme and host). \<open>relay\<close> is what the standard reverse proxy does with a request after
  the director: it is sent without the hop-by-hop headers, and the reply or a bad gateway goes back.
\<close>

section \<open>Start\<close>

definition upstreamURL :: "(string \<Rightarrow> string) \<Rightarrow> string" where
  "upstreamURL getenv = env_or getenv ''OPENHANDS_UPSTREAM_URL'' ''http://openhands-agent-server.llm.svc.cluster.local:18000''"

definition port :: "(string \<Rightarrow> string) \<Rightarrow> string" where
  "port getenv = env_or getenv ''PORT'' (env_or getenv ''PROXY_PORT'' ''8080'')"

definition storeFile :: "(string \<Rightarrow> string) \<Rightarrow> string" where
  "storeFile getenv = env_or getenv ''CONV_STORE_FILE'' ''/data/conversations.json''"

record conv_process =
  cp_addr :: string
  cp_origin :: string
  cp_gateway :: gateway
  cp_proxied :: "http_request list"

text \<open>A URL that does not parse is fatal; the left result is the parser's error.\<close>

definition conv_main :: "(string \<Rightarrow> string) \<Rightarrow> (string \<Rightarrow> string + string \<times> string) \<Rightarrow> bool \<Rightarrow> (string, conv_file) fmap
    \<Rightarrow> (nat \<Rightarrow> conv_save) \<Rightarrow> (http_request \<Rightarrow> string option) \<Rightarrow> (nat \<Rightarrow> http_request \<Rightarrow> raw_reply) \<Rightarrow> string + conv_process" where
  "conv_main getenv parse_url readable fs saves creatable client =
     (case parse_url (upstreamURL getenv) of
        Inl err \<Rightarrow> Inl err
      | Inr (text, origin) \<Rightarrow> Inr \<lparr>cp_addr = '':'' @ port getenv, cp_origin = origin,
          cp_gateway = \<lparr>gw_store = newStore (storeFile getenv) readable fs saves, gw_upstream = text,
            gw_creatable = creatable, gw_client = client, gw_sent = []\<rparr>,
          cp_proxied = []\<rparr>)"

section \<open>Requests\<close>

definition health :: "unit http_response" where
  "health = Passed 200 fmempty (''ok'' @ [CHR 0x0A])"

definition conv_serve :: "(string \<Rightarrow> chat_message list option) \<Rightarrow> (json \<Rightarrow> string) \<Rightarrow> (http_request \<Rightarrow> unit http_response)
    \<Rightarrow> inbound \<Rightarrow> conv_process \<Rightarrow> unit http_response option \<times> conv_process" where
  "conv_serve decode marshal relay r p = (case route_of (ib_Path r) of
       RChat \<Rightarrow> (let (res, g) = chatCompletionsHandler decode marshal r (cp_gateway p) in (res, p\<lparr>cp_gateway := g\<rparr>))
     | RHealth \<Rightarrow> (Some health, p)
     | RProxy \<Rightarrow> (let q = director (cp_origin p) (case ib_Body r of Inl _ \<Rightarrow> [] | Inr body \<Rightarrow> body) r
                  in (Some (relay q), p\<lparr>cp_proxied := cp_proxied p @ [q]\<rparr>)))"

fun conv_serve_all :: "(string \<Rightarrow> chat_message list option) \<Rightarrow> (json \<Rightarrow> string)
    \<Rightarrow> ((http_request \<Rightarrow> unit http_response) \<times> inbound) list \<Rightarrow> conv_process \<Rightarrow> conv_process" where
  "conv_serve_all decode marshal [] p = p"
| "conv_serve_all decode marshal ((relay, r) # rs) p = conv_serve_all decode marshal rs (snd (conv_serve decode marshal relay r p))"

text \<open>A process run one request at a time is a run of the interleaved model.\<close>

lemma act_at:
  assumes "chat_run decode marshal g0 (fmupd n p ph) g" "chat_action decode marshal p g = (p', g')"
  shows "chat_run decode marshal g0 (fmupd n p' ph) g'"
proof -
  have "chat_run decode marshal g0 (fmupd n p' (fmupd n p ph)) g'" by (rule chat_run.act [OF assms(1) _ assms(2)]) simp
  moreover have "fmupd n p' (fmupd n p ph) = fmupd n p' ph" by (rule fmap_ext) simp
  ultimately show ?thesis by simp
qed

lemma handler_run:
  assumes "chat_run decode marshal g0 ph g"
  shows "\<exists>ph'. chat_run decode marshal g0 ph' (snd (chatCompletionsHandler decode marshal r g))"
proof -
  obtain n where n: "n |\<notin>| fmdom ph" using ex_new_if_finite [of "fset (fmdom ph)"] infinite_UNIV_nat by fastforce
  obtain p1 g1 where 1: "chat_action decode marshal (Arrived r) g = (p1, g1)" by fastforce
  obtain p2 g2 where 2: "chat_action decode marshal p1 g1 = (p2, g2)" by fastforce
  obtain p3 g3 where 3: "chat_action decode marshal p2 g2 = (p3, g3)" by fastforce
  obtain p4 g4 where 4: "chat_action decode marshal p3 g3 = (p4, g4)" by fastforce
  have "chat_run decode marshal g0 (fmupd n (Arrived r) ph) g" using assms n by (rule chat_run.arrive)
  from act_at [OF act_at [OF act_at [OF act_at [OF this 1] 2] 3] 4] show ?thesis using chat_actions_handler [OF 1 2 3 4] by auto
qed

lemma conv_serve_all_run:
  "chat_run decode marshal g0 ph (cp_gateway p) \<Longrightarrow>
   \<exists>ph'. chat_run decode marshal g0 ph' (cp_gateway (conv_serve_all decode marshal rs p))"
proof (induction decode marshal rs p arbitrary: ph rule: conv_serve_all.induct)
  case (2 decode marshal relay r rs p)
  have "\<exists>ph'. chat_run decode marshal g0 ph' (cp_gateway (snd (conv_serve decode marshal relay r p)))"
    using 2(2) handler_run [OF 2(2), of r]
    by (cases "route_of (ib_Path r)") (auto simp: conv_serve_def split_beta Let_def)
  then show ?case using 2(1) by auto
qed auto

lemma conv_serve_all_proxied:
  assumes "\<forall>q\<in>set (cp_proxied p). fmlookup (rq_Header q) (canon_key convHeader) = None"
  shows "\<forall>q\<in>set (cp_proxied (conv_serve_all decode marshal rs p)). fmlookup (rq_Header q) (canon_key convHeader) = None"
  using assms
proof (induction decode marshal rs p rule: conv_serve_all.induct)
  case (2 decode marshal relay r rs p)
  have "\<forall>q\<in>set (cp_proxied (snd (conv_serve decode marshal relay r p))). fmlookup (rq_Header q) (canon_key convHeader) = None"
    using 2(2) by (cases "route_of (ib_Path r)") (auto simp: conv_serve_def split_beta Let_def director_def hdr_del_def)
  then show ?case using 2(1) by simp
qed simp

text \<open>The whole gateway from its start: no request of any route reaches the upstream under an id its
  caller chose. What goes through the transparent proxy carries none, and a chat request carries none
  or one that the file held for its thread or the upstream had answered to that thread before.\<close>

theorem gateway_never_forged:
  assumes "conv_main getenv parse_url readable fs saves creatable client = Inr p0"
    "p = conv_serve_all decode marshal rs p0"
  shows "(\<forall>q\<in>set (cp_proxied p). fmlookup (rq_Header q) (canon_key convHeader) = None)
    \<and> (\<forall>n<length (gw_sent (cp_gateway p)).
         fmlookup (rq_Header (gw_sent (cp_gateway p) ! n)) (canon_key convHeader) = None
       \<or> (\<exists>i. fmlookup (rq_Header (gw_sent (cp_gateway p) ! n)) (canon_key convHeader) = Some [i] \<and> i \<noteq> []
            \<and> issued decode marshal (cp_gateway p0) (cp_gateway p) n
                (extractThreadKey decode marshal (rq_Body (gw_sent (cp_gateway p) ! n))) i))"
proof -
  have start: "gw_sent (cp_gateway p0) = []" "cp_proxied p0 = []"
    using assms(1) by (auto simp: conv_main_def split: sum.splits)
  from conv_serve_all_run [OF chat_run.start] obtain ph
    where run: "chat_run decode marshal (cp_gateway p0) ph (cp_gateway p)" unfolding assms(2) by blast
  show ?thesis
  proof (intro conjI allI impI)
    show "\<forall>q\<in>set (cp_proxied p). fmlookup (rq_Header q) (canon_key convHeader) = None"
      unfolding assms(2) by (rule conv_serve_all_proxied) (simp add: start)
    fix n assume "n < length (gw_sent (cp_gateway p))"
    then have "request_isolated decode marshal (cp_gateway p0) (cp_gateway p) n"
      using chat_run_isolated [OF run] start(1) by (simp add: isolated_def)
    then show "fmlookup (rq_Header (gw_sent (cp_gateway p) ! n)) (canon_key convHeader) = None
       \<or> (\<exists>i. fmlookup (rq_Header (gw_sent (cp_gateway p) ! n)) (canon_key convHeader) = Some [i] \<and> i \<noteq> []
            \<and> issued decode marshal (cp_gateway p0) (cp_gateway p) n
                (extractThreadKey decode marshal (rq_Body (gw_sent (cp_gateway p) ! n))) i)"
      by (cases "fmlookup (rq_Header (gw_sent (cp_gateway p) ! n)) (canon_key convHeader)") (simp_all add: request_isolated_def)
  qed
qed

end
