(* ===== verification/Spec2Isabelle.thy ===== *)
theory Spec2Isabelle
  imports Main_Spec Client_Spec Client_Cycle Client_View_Spec Snapshot_Link Input_Link Pumps Server_Spec Hub_Spec World_Spec Core_Spec
    Llama_Spec Llama_Main Conv_Spec Conv_Main Blog_Spec
begin

text \<open>
  Verification of the Go programs under \<^verbatim>\<open>src/images\<close> of a home-lab repository: a multiplayer game with
  its server and its client, two proxies in front of language models, and the tool that announces blog
  posts. Every definition is translated from the Go source; the properties are about those
  definitions.

  \<^bold>\<open>The programs and how they interact.\<close>
  In the game (\<^verbatim>\<open>flappy-race\<close>) the clients hold no game state. The server simulates a race at 60 Hz and
  broadcasts snapshots at 30 Hz over one websocket per client; a client estimates the server's clock,
  keeps the last eight snapshots, and draws the world interpolated slightly in the past. The hub
  goroutine owns the players and the race; per connection a reader submits joins, flaps and leaves to
  a bounded event channel and a writer drains a bounded queue of frames. The leaderboard is kept in
  one JSON file. \<^verbatim>\<open>llamastack-proxy\<close> translates chat requests, selects the tools to offer, and runs the
  tool calls of the model in a loop. \<^verbatim>\<open>openwebui-openhands-proxy\<close> maps chat threads to conversations
  and persists the map. \<^verbatim>\<open>blog-klimlive\<close> posts a status per blog post and records its id in the post.

  \<^bold>\<open>Conventions\<close> (\<open>Prelude\<close>).
  A function that can panic returns an option, and \<^term>\<open>None\<close> is the panic (nil pointer, index out of
  range, send on a closed channel, assignment to a nil map); the theorems on the reachable states say
  that it does not occur. Errors are values of a sum. Machine integers are words where they are
  unsigned and may wrap (ids, ticks, seeds, palette bytes) and \<^typ>\<open>int\<close> where the source uses
  \<^verbatim>\<open>int\<close> or \<^verbatim>\<open>int64\<close> on values that cannot reach the bounds. \<^verbatim>\<open>float64\<close> and \<^verbatim>\<open>float32\<close> are the
  rational numbers they denote, and every operation rounds to nearest even in its format
  (\<open>Go_Float\<close>: the format is the locale \<open>float_format\<close>, interpreted for binary64 and binary32); the
  values of the programs stay far from overflow. A Go string is its bytes, and \<open>Go_Strings\<close> decodes
  UTF-8 as \<^verbatim>\<open>range\<close> does. Maps are finite maps; where the source ranges over a map, either the
  order is shown not to matter or it is fixed, which the theory says. \<open>Go_Sort\<close> has
  \<^verbatim>\<open>sort.SliceStable\<close> and \<^verbatim>\<open>sort.Slice\<close>, with the locale \<open>key_order\<close> for comparison functions that
  are strict total orders through a key; the rankings, the overlay and the leaderboard interpret it.

  \<^bold>\<open>The game: simulation\<close> (\<^verbatim>\<open>internal/protocol\<close>, \<^verbatim>\<open>internal/game\<close>).
  \<open>Protocol\<close>: constants, themes, birds, wire records, the username rule. \<open>Rng\<close>: splitmix64 and its
  copy in the scenery. \<open>World\<close>: \<^verbatim>\<open>world.go\<close>, one definition per method. \<open>Rank\<close>: \<^verbatim>\<open>rank.go\<close>.
  \<open>World_Inv\<close> proves the invariant of a running world (ids consecutive, pipes ascending, gaps in the
  playfield, scores and next pipes of the birds), and \<open>World_Spec\<close> derives that a tick returns, what
  it does to a bird, the bounds, the fairness of the course and the accuracy of the collision test.

  \<^bold>\<open>The game: server\<close> (\<^verbatim>\<open>internal/server\<close>, \<^verbatim>\<open>cmd/server\<close>).
  \<open>Store\<close>: \<^verbatim>\<open>store.go\<close> over a file system whose saves may fail at each stage; \<open>Saved_File\<close> is the
  contract, as a locale, of a state saved by writing a temporary file and renaming it, which both the
  leaderboard and the conversation map interpret. \<open>Conn\<close>: the drop-oldest queue of \<^verbatim>\<open>client.go\<close>, with
  the locale \<open>frame_queue\<close> of what its users rely on. \<open>Hub\<close>: the record and every handler of
  \<^verbatim>\<open>hub.go\<close>. \<open>System\<close>: \<^verbatim>\<open>Run\<close>, \<^verbatim>\<open>submit\<close>, \<^verbatim>\<open>readPump\<close> and \<^verbatim>\<open>writePump\<close> as an interleaving step
  relation; \<open>Pumps\<close>: the rounds of the two pumps as functions, a round of the reader being such a step.
  \<open>Web_Server\<close>: the HTTP mux, the start of the server and the URLs of the clients.
  \<open>Hub_Inv\<close> proves that every handler returns and preserves the registry and the race invariants;
  \<open>Server_Spec\<close> lifts them to all reachable states, and shows that the server refines the abstract
  cycle of a race, by the locale \<open>simulation\<close> of \<open>Cycle_Refinement\<close>, and that races end.
  \<open>Hub_Spec\<close>, \<open>Core_Spec\<close> and \<open>Main_Spec\<close> have the functional
  properties of the handlers, of generator, names and store, and of the restarted server;
  \<open>Sample_Server\<close> has the servers the witnesses use.

  \<^bold>\<open>The game: client\<close> (\<^verbatim>\<open>internal/client\<close>, \<^verbatim>\<open>internal/client/draw\<close>).
  \<open>Client_Clock\<close> and \<open>Client_Ring\<close>: clock estimate, snapshot ring, interpolation. \<open>Client_Net\<close>: the
  queues of a connection, the session, pacing, name entry. \<open>Client_Canvas\<close>: drawing commands, labels
  and sprites with their caches. \<open>Client_Scenery\<close>: every layer builder and the pipes. \<open>Client_HUD\<close>:
  the overlay. \<open>Client_Game\<close>: \<^verbatim>\<open>Update\<close> with the reconnect state machine, and \<^verbatim>\<open>Draw\<close> as the list of
  commands it issues and the state it leaves. \<open>Client_Run\<close> interleaves the render loop with the
  goroutines that dial, read, write and fetch, and proves one invariant (one attempt at a time,
  bounded queues, transparent caches). \<open>Client_Spec\<close> has the properties of that run and the
  composition with the server's rule for names, \<open>Client_Cycle\<close> its refinement of the connection
  cycle, and \<open>Client_View_Spec\<close> the properties of what is shown. \<open>Snapshot_Link\<close> composes the hub's
  queue, the wire, the client's queue and its ring: the newest snapshot arrives. \<open>Input_Link\<close> is the
  other direction, from the key press through both programs to the bird.

  \<^bold>\<open>The proxies.\<close>
  \<open>Go_Text\<close> and \<open>Go_Http\<close> hold what they use of \<^verbatim>\<open>strings\<close> and \<^verbatim>\<open>net/http\<close>. \<open>Tool_Cache\<close> and
  \<open>Llama_Proxy\<close>: \<^verbatim>\<open>llamastack-proxy/main.go\<close>; \<open>Tool_Select\<close> shows that its exchange sort meets the
  contract \<open>score_sort\<close>; \<open>Llama_Spec\<close> has the properties of selection, cache and tool loop, and
  \<open>Llama_Concurrent\<close> those of the cache under concurrent requests, \<open>Llama_Main\<close> the program from its
  environment through its mux, with the safety of whole runs.
  \<open>Conv_Proxy\<close>, with \<open>Sha256\<close> for the thread keys, and \<open>Conv_Spec\<close>:
  \<^verbatim>\<open>openwebui-openhands-proxy/main.go\<close>; \<open>Conv_Concurrent\<close> interleaves its requests in flight and
  shows that conversations stay isolated; \<open>Conv_Main\<close> is its \<^verbatim>\<open>main\<close> with all routes. The services behind the proxies are parameters that may answer
  every request differently; the requests sent to them are recorded.

  \<^bold>\<open>The blog.\<close>
  \<open>Blog_Sync\<close> and \<open>Blog_Spec\<close>: \<^verbatim>\<open>blog-klimlive/internal/mastodon\<close>; \<open>Blog_Main\<close>: its commands and
  mux. The YAML package, the directory listing and the Mastodon service are parameters.

  \<^bold>\<open>Bounds and fuel.\<close>
  The tool loop has the source's own bound of ten iterations, and a random bird its 32 draws: the
  recursions are on those numbers. Loops over floats in the scenery are lists of steps, shown equal
  to the loop. All other loops are structural or have a termination proof; the spawn loop of a tick
  is \<^verbatim>\<open>partial_function (option)\<close>, and that it returns is the theorem \<open>step_returns\<close>. A race ends
  within \<open>MaxRaceTicks\<close> ticks. The server's steps assume that fewer than \<open>2 ^ 64 - 1\<close> players have
  joined since its start.

  \<^bold>\<open>Not modelled.\<close>
  The JSON text of frames and files (a frame is its record, a file what it decodes to); websockets,
  HTTP transport, time-outs, pings and close handshakes, which appear as steps that may or may not
  happen; logging, tracing and the OpenTelemetry SDK; fused multiply-add, which Go may use on some
  architectures; rasterising, antialiasing and the font, whose measure is a parameter. Time is a
  stream of readings. The tool loop of \<^verbatim>\<open>llamastack-proxy\<close> runs alone; that others refresh its cache meanwhile
  is in \<open>Llama_Concurrent\<close> only. \<open>lower_rune\<close> and \<open>equal_fold\<close> cover ASCII and the letters that fold into it, paths are
  clean and free of glob characters. Flags, signals, windows, embedding and the listening sockets of
  the commands are library calls; the Kubernetes, Nix and shell files have no program logic.
\<close>

end
